(* ===== verification/Prelude.thy ===== *)
theory Prelude
  imports Main "HOL-Library.Word"
begin

text \<open>
  Shared vocabulary of the development: machine types, the results of fallible
  operations, little-endian byte strings, and the raw buffers through which the
  C++ code reads and writes with \<open>*(T*)buffer = v; buffer += sizeof(T)\<close>.

  A buffer is a \<open>byte list\<close> and a \<open>char*\<close> into it is an index. Every access outside
  the buffer is the value \<open>Inl Undefined\<close>, so memory safety of the serialisers is a
  theorem about them and not an assumption of the model.
\<close>

unbundle bit_operations_syntax

subsection \<open>Machine types and results\<close>

type_synonym byte = "8 word"
type_synonym u32 = "32 word"
type_synonym u64 = "64 word"

text \<open>
  What can stop an operation of the program: \<open>std::runtime_error\<close> (with its text) thrown
  by the checks, \<open>std::out_of_range\<close> thrown by the factory, \<open>std::invalid_argument\<close> thrown by \<open>std::stol\<close>, a call that blocks because
  nothing has arrived, undefined behaviour (an access outside a buffer, a null dereference, an
  index outside a \<open>std::vector\<close>), a failed \<open>assert\<close>, and \<open>errx\<close> (with its text).
\<close>

datatype error =
    Runtime_error string
  | Out_of_range string
  | Invalid_argument string
  | Blocked
  | Undefined
  | Aborted
  | Exit_failure string

type_synonym 'a result = "error + 'a"

definition bindE :: "'a result \<Rightarrow> ('a \<Rightarrow> 'b result) \<Rightarrow> 'b result" where
  "bindE r f = (case r of Inl e \<Rightarrow> Inl e | Inr x \<Rightarrow> f x)"

lemma bindE_Inl [simp]: "bindE (Inl e) f = Inl e"
  by (simp add: bindE_def)

lemma bindE_Inr [simp]: "bindE (Inr x) f = f x"
  by (simp add: bindE_def)

lemma bindE_assoc: "bindE (bindE r f) g = bindE r (\<lambda>x. bindE (f x) g)"
  by (simp add: bindE_def split: sum.splits)

lemma bindE_eq_Inr_iff: "bindE r f = Inr y \<longleftrightarrow> (\<exists>x. r = Inr x \<and> f x = Inr y)"
  by (simp add: bindE_def split: sum.splits)

lemma bindE_cong [fundef_cong]:
  "r = r' \<Longrightarrow> (\<And>x. r' = Inr x \<Longrightarrow> f x = f' x) \<Longrightarrow> bindE r f = bindE r' f'"
  by (simp add: bindE_def split: sum.splits)

text \<open>The collections the component proofs simplify with.\<close>

named_theorems size_simps \<open>byte counts of wire images and buffers\<close>
named_theorems wire_simps \<open>serialisers as one write of a byte string\<close>
named_theorems op_defs \<open>definitions of the operations of a component\<close>

subsection \<open>Little-endian byte strings\<close>

text \<open>
  The program stores integers through casted pointers, so the byte order is the host's.
  The supported platform (Linux on x86) is little-endian.
\<close>

definition le_bytes :: "nat \<Rightarrow> 'a::len word \<Rightarrow> byte list" where
  "le_bytes n w = map (\<lambda>i. ucast (drop_bit (8 * i) w)) [0..<n]"

fun le_word :: "byte list \<Rightarrow> 'a::len word" where
  "le_word [] = 0"
| "le_word (b # bs) = ucast b OR push_bit 8 (le_word bs)"

lemma length_le_bytes [simp]: "length (le_bytes n w) = n"
  by (simp add: le_bytes_def)

lemma bit_le_word:
  "bit (le_word bs :: 'a::len word) n \<longleftrightarrow>
     n < LENGTH('a) \<and> n div 8 < length bs \<and> bit (bs ! (n div 8)) (n mod 8)"
proof (induction bs arbitrary: n)
  case Nil
  then show ?case by simp
next
  case (Cons b bs)
  show ?case
  proof (cases "n < 8")
    case True
    then show ?thesis
      by (auto simp: bit_or_iff bit_ucast_iff bit_push_bit_iff)
  next
    case False
    then obtain m where n: "n = m + 8"
      by (metis le_add_diff_inverse2 not_less)
    have nb: "\<not> bit b (m + 8)"
      using bit_imp_le_length by fastforce
    have dm: "(m + 8) div 8 = Suc (m div 8)" by simp
    show ?thesis
      using Cons.IH[of m] nb unfolding n dm
      by (auto simp: bit_or_iff bit_ucast_iff bit_push_bit_iff)
  qed
qed

lemma le_word_le_bytes:
  assumes "LENGTH('a::len) = 8 * n"
  shows "le_word (le_bytes n w) = (w :: 'a word)"
proof (rule bit_word_eqI)
  fix m assume "m < LENGTH('a)"
  moreover from this assms have "m div 8 < n" by auto
  ultimately show "bit (le_word (le_bytes n w) :: 'a word) m = bit w m"
    by (auto simp: bit_le_word le_bytes_def bit_ucast_iff bit_drop_bit_eq)
qed

lemma le_bytes_le_word:
  assumes "LENGTH('a::len) = 8 * length bs"
  shows "le_bytes (length bs) (le_word bs :: 'a word) = bs"
proof (rule nth_equalityI)
  show "length (le_bytes (length bs) (le_word bs :: 'a word)) = length bs" by simp
next
  fix i assume "i < length (le_bytes (length bs) (le_word bs :: 'a word))"
  then have i: "i < length bs" by simp
  show "le_bytes (length bs) (le_word bs :: 'a word) ! i = bs ! i"
  proof (rule bit_word_eqI)
    fix n assume "n < LENGTH(8)"
    with i assms show "bit (le_bytes (length bs) (le_word bs :: 'a word) ! i) n = bit (bs ! i) n"
      by (auto simp: le_bytes_def bit_ucast_iff bit_drop_bit_eq bit_le_word)
  qed
qed

lemma le_word_bytes32 [simp]: "le_word (le_bytes 4 w) = (w :: u32)"
  by (rule le_word_le_bytes) simp

lemma le_word_bytes64 [simp]: "le_word (le_bytes 8 w) = (w :: u64)"
  by (rule le_word_le_bytes) simp

lemma le_bytes_inject32: "le_bytes 4 v = le_bytes 4 w \<longleftrightarrow> v = (w :: u32)"
  by (metis le_word_bytes32)

subsection \<open>Raw buffers\<close>

definition store :: "byte list \<Rightarrow> nat \<Rightarrow> byte list \<Rightarrow> byte list result" where
  "store mem p bs =
     (if p + length bs \<le> length mem
      then Inr (take p mem @ bs @ drop (p + length bs) mem) else Inl Undefined)"

definition load :: "byte list \<Rightarrow> nat \<Rightarrow> nat \<Rightarrow> byte list result" where
  "load mem p n = (if p + n \<le> length mem then Inr (take n (drop p mem)) else Inl Undefined)"

text \<open>\<open>new char[n]\<close>: \<open>n\<close> bytes of indeterminate content, here an arbitrary \<open>garbage\<close>.\<close>

definition new_char :: "(nat \<Rightarrow> byte) \<Rightarrow> nat \<Rightarrow> byte list" where
  "new_char garbage n = map garbage [0..<n]"

lemma length_new_char [simp]: "length (new_char g n) = n"
  by (simp add: new_char_def)

text \<open>A serialiser's state: the buffer and the write pointer.\<close>

type_synonym cursor = "byte list \<times> nat"

definition puts :: "byte list \<Rightarrow> cursor \<Rightarrow> cursor result" where
  "puts bs c = bindE (store (fst c) (snd c) bs) (\<lambda>mem. Inr (mem, snd c + length bs))"

definition put_u8 :: "byte \<Rightarrow> cursor \<Rightarrow> cursor result" where
  "put_u8 b = puts [b]"

definition put_u32 :: "u32 \<Rightarrow> cursor \<Rightarrow> cursor result" where
  "put_u32 v = puts (le_bytes 4 v)"

definition put_u64 :: "u64 \<Rightarrow> cursor \<Rightarrow> cursor result" where
  "put_u64 v = puts (le_bytes 8 v)"

definition bool_byte :: "bool \<Rightarrow> byte" where
  "bool_byte b = (if b then 1 else 0)"

definition put_bool :: "bool \<Rightarrow> cursor \<Rightarrow> cursor result" where
  "put_bool b = puts [bool_byte b]"

definition get_u8 :: "byte list \<Rightarrow> nat \<Rightarrow> (byte \<times> nat) result" where
  "get_u8 mem p = bindE (load mem p 1) (\<lambda>bs. Inr (hd bs, p + 1))"

definition get_u32 :: "byte list \<Rightarrow> nat \<Rightarrow> (u32 \<times> nat) result" where
  "get_u32 mem p = bindE (load mem p 4) (\<lambda>bs. Inr (le_word bs, p + 4))"

definition get_u64 :: "byte list \<Rightarrow> nat \<Rightarrow> (u64 \<times> nat) result" where
  "get_u64 mem p = bindE (load mem p 8) (\<lambda>bs. Inr (le_word bs, p + 8))"

text \<open>Reading a \<open>bool\<close> object whose byte is neither 0 nor 1 is undefined behaviour.\<close>

definition get_bool :: "byte list \<Rightarrow> nat \<Rightarrow> (bool \<times> nat) result" where
  "get_bool mem p = bindE (get_u8 mem p) (\<lambda>(b, q).
     if b = 0 then Inr (False, q) else if b = 1 then Inr (True, q) else Inl Undefined)"

text \<open>
  \<open>memcpy(dst, src.get(), n)\<close> from a \<open>shared_ptr<char[]>\<close> that may be null
  (\<open>None\<close>) and that holds an array of its own length.
\<close>

definition memcpy_src :: "byte list option \<Rightarrow> nat \<Rightarrow> byte list result" where
  "memcpy_src src n = (case src of None \<Rightarrow> Inl Undefined | Some d \<Rightarrow> load d 0 n)"

text \<open>A C string literal with its terminating zero.\<close>

definition c_str :: "string \<Rightarrow> byte list" where
  "c_str s = map of_char s @ [0]"

subsection \<open>Two writes are one write; a read finds what was written\<close>

lemma puts_puts: "bindE (puts bs c) (puts cs) = puts (bs @ cs) c"
proof (cases "snd c + length bs + length cs \<le> length (fst c)")
  case True
  then have "min (length (fst c)) (snd c) = snd c" by simp
  with True show ?thesis by (simp add: puts_def store_def ac_simps)
next
  case False
  then show ?thesis by (auto simp: puts_def store_def bindE_def min_def)
qed

lemma puts_puts_fun: "(\<lambda>c. bindE (puts bs c) (puts cs)) = puts (bs @ cs)"
  by (rule ext) (rule puts_puts)

lemma puts_Nil: "snd c \<le> length (fst c) \<Longrightarrow> puts [] c = Inr c"
  by (simp add: puts_def store_def)

lemma puts_result:
  "p + length bs \<le> length mem \<Longrightarrow>
     puts bs (mem, p) = Inr (take p mem @ bs @ drop (p + length bs) mem, p + length bs)"
  by (simp add: puts_def store_def)

lemma puts_overrun: "length mem < p + length bs \<Longrightarrow> puts bs (mem, p) = Inl Undefined"
  by (simp add: puts_def store_def)

lemma puts_InrD:
  "puts bs (mem, p) = Inr (mem', q) \<Longrightarrow>
     p + length bs \<le> length mem \<and> q = p + length bs \<and>
     mem' = take p mem @ bs @ drop (p + length bs) mem"
  by (auto simp: puts_def store_def split: if_splits)

lemma puts_whole: "length mem = length bs \<Longrightarrow> puts bs (mem, 0) = Inr (bs, length bs)"
  by (simp add: puts_result)

lemma load_middle [simp]:
  "length bs = n \<Longrightarrow> load (pre @ bs @ post) (length pre) n = Inr bs"
  by (auto simp: load_def)

lemma load_last [simp]: "length bs = n \<Longrightarrow> load (pre @ bs) (length pre) n = Inr bs"
  by (auto simp: load_def)

lemma load_first [simp]: "length bs = n \<Longrightarrow> load (bs @ post) 0 n = Inr bs"
  by (auto simp: load_def)

lemma load_whole [simp]: "length bs = n \<Longrightarrow> load bs 0 n = Inr bs"
  by (auto simp: load_def)

lemma load_written:
  assumes "p + length bs \<le> length mem"
  shows "load (take p mem @ bs @ drop (p + length bs) mem) p (length bs) = Inr bs"
proof -
  from assms have "length (take p mem) = p" by simp
  then show ?thesis
    using load_middle[of bs "length bs" "take p mem" "drop (p + length bs) mem"] by simp
qed

lemma load_length: "load mem p n = Inr bs \<Longrightarrow> length bs = n"
  by (auto simp: load_def split: if_splits)

lemma get_u8_middle:
  "get_u8 (pre @ [b] @ post) (length pre) = Inr (b, length pre + 1)"
  using load_middle[of "[b]" 1 pre post] by (simp add: get_u8_def)

lemma get_u32_middle:
  "get_u32 (pre @ le_bytes 4 v @ post) (length pre) = Inr (v, length pre + 4)"
  by (simp add: get_u32_def)

lemma get_u64_middle:
  "get_u64 (pre @ le_bytes 8 v @ post) (length pre) = Inr (v, length pre + 8)"
  by (simp add: get_u64_def)

lemma get_bool_middle:
  "get_bool (pre @ [bool_byte b] @ post) (length pre) = Inr (b, length pre + 1)"
  using get_u8_middle[of pre "bool_byte b" post] by (simp add: get_bool_def bool_byte_def)

text \<open>
  The same reads at an offset that is only known to equal the length of what precedes:
  the form the deserialiser proofs apply one field at a time.
\<close>

lemma get_u8_at:
  "mem = pre @ [b] @ post \<Longrightarrow> p = length pre \<Longrightarrow> get_u8 mem p = Inr (b, p + 1)"
  using get_u8_middle by blast

lemma get_u32_at:
  "mem = pre @ le_bytes 4 v @ post \<Longrightarrow> p = length pre \<Longrightarrow> get_u32 mem p = Inr (v, p + 4)"
  using get_u32_middle by blast

lemma get_u64_at:
  "mem = pre @ le_bytes 8 v @ post \<Longrightarrow> p = length pre \<Longrightarrow> get_u64 mem p = Inr (v, p + 8)"
  using get_u64_middle by blast

lemma get_bool_at:
  "mem = pre @ [bool_byte b] @ post \<Longrightarrow> p = length pre \<Longrightarrow> get_bool mem p = Inr (b, p + 1)"
  using get_bool_middle by blast

lemma load_at: "mem = pre @ bs @ post \<Longrightarrow> p = length pre \<Longrightarrow> n = length bs \<Longrightarrow> load mem p n = Inr bs"
  using load_middle by blast

lemma memcpy_src_Some: "length d = n \<Longrightarrow> memcpy_src (Some d) n = Inr d"
  by (simp add: memcpy_src_def)

text \<open>How many elements of a list satisfy a predicate, after one of them has changed.\<close>

lemma filter_update:
  assumes "i < length ws"
  shows "length (filter P (ws[i := w])) + (if P (ws ! i) then 1 else 0) =
    length (filter P ws) + (if P w then 1 else 0)"
proof -
  have "ws = take i ws @ ws ! i # drop (Suc i) ws" using assms by (rule id_take_nth_drop)
  then have "length (filter P ws) = length (filter P (take i ws @ ws ! i # drop (Suc i) ws))" by simp
  also have "... = length (filter P (take i ws)) + (if P (ws ! i) then 1 else 0) +
      length (filter P (drop (Suc i) ws))" by simp
  finally have "length (filter P ws) = length (filter P (take i ws)) + (if P (ws ! i) then 1 else 0) +
      length (filter P (drop (Suc i) ws))"
    .
  moreover have "length (filter P (ws[i := w])) = length (filter P (take i ws)) + (if P w then 1 else 0) +
      length (filter P (drop (Suc i) ws))"
    using assms by (simp add: upd_conv_take_nth_drop)
  ultimately show ?thesis by simp
qed

end
