(* ===== verification/Error_Handler.thy ===== *)
theory Error_Handler
  imports Prelude
begin

text \<open>
  \<open>CheckAndLog\<close> (\<open>include/error_handler.hpp\<close>, \<open>src/error_handler.cpp\<close>): the checks
  every other component calls. A check formats one line, hands it to the logger, and
  throws \<open>std::runtime_error\<close> with the same text when it fails. The lines handed to the
  logger are the first component of the result, the outcome is the second.

  The model is the debug build: the Makefile defines \<open>NDEBUG\<close> for no target.
\<close>

text \<open>Where a check stands: \<open>__FILE_NAME__\<close>, \<open>__PRETTY_FUNCTION__\<close>, \<open>__LINE__\<close>.\<close>

datatype loc = Loc (loc_file: string) (loc_function: string) (loc_line: nat)

text \<open>\<open>std::to_string\<close> of a non-negative integer.\<close>

fun to_string :: "nat \<Rightarrow> string" where
  "to_string n =
     (if n < 10 then [char_of (48 + n)] else to_string (n div 10) @ [char_of (48 + n mod 10)])"

declare to_string.simps [simp del]

definition CheckAndLog_PhraseLine :: "string \<Rightarrow> loc \<Rightarrow> string" where
  "CheckAndLog_PhraseLine message l =
     ''  '' @ loc_file l @ ''           '' @ loc_function l @ ''              '' @
     to_string (loc_line l) @ ''    '' @ message"

definition NegativeCheck :: "int \<Rightarrow> string \<Rightarrow> loc \<Rightarrow> string list \<times> unit result" where
  "NegativeCheck value message l =
     (let log = CheckAndLog_PhraseLine message l
      in if 0 > value then ([log @ '' FAIL''], Inl (Runtime_error (log @ '' FAIL'')))
         else ([log @ '' SUCCESS''], Inr ()))"

definition EqualToCheck :: "'a \<Rightarrow> 'a \<Rightarrow> string \<Rightarrow> loc \<Rightarrow> string list \<times> unit result" where
  "EqualToCheck value check_value message l =
     (let log = CheckAndLog_PhraseLine message l
      in if check_value = value then ([log @ '' FAIL''], Inl (Runtime_error (log @ '' FAIL'')))
         else ([log @ '' SUCCESS''], Inr ()))"

definition NotEqualToCheck :: "'a \<Rightarrow> 'a \<Rightarrow> string \<Rightarrow> loc \<Rightarrow> string list \<times> unit result" where
  "NotEqualToCheck value check_value message l =
     (let log = CheckAndLog_PhraseLine message l
      in if check_value \<noteq> value then ([log @ '' FAIL''], Inl (Runtime_error (log @ '' FAIL'')))
         else ([log @ '' SUCCESS''], Inr ()))"

definition JustLog :: "string \<Rightarrow> loc \<Rightarrow> string list" where
  "JustLog message l = [CheckAndLog_PhraseLine message l]"

text \<open>The outcome alone, for the callers: the log line does not affect them.\<close>

lemmas check_defs = NegativeCheck_def EqualToCheck_def NotEqualToCheck_def

lemma NegativeCheck_pass: "snd (NegativeCheck v m l) = Inr () \<longleftrightarrow> 0 \<le> v"
  by (simp add: NegativeCheck_def Let_def)

lemma NegativeCheck_ok [simp]: "0 \<le> v \<Longrightarrow> snd (NegativeCheck v m l) = Inr ()"
  by (simp add: NegativeCheck_def Let_def)

lemma NotEqualToCheck_same [simp]: "snd (NotEqualToCheck v v m l) = Inr ()"
  by (simp add: NotEqualToCheck_def Let_def)

lemma NotEqualToCheck_differ:
  "v \<noteq> w \<Longrightarrow> snd (NotEqualToCheck v w m l) =
     Inl (Runtime_error (CheckAndLog_PhraseLine m l @ '' FAIL''))"
  by (simp add: NotEqualToCheck_def Let_def)

lemma EqualToCheck_differ [simp]: "v \<noteq> w \<Longrightarrow> snd (EqualToCheck v w m l) = Inr ()"
  by (simp add: EqualToCheck_def Let_def)

end
