(* ===== verification/Wire_Codec.thy ===== *)
theory Wire_Codec
  imports Prelude
begin

text \<open>
  The contract of every \<open>IMessage\<close> (\<open>include/message.hpp\<close>): \<open>ToBuffer\<close> leaves the wire
  image of the message in the buffer, \<open>FromBuffer\<close> called where an image starts fills any
  receiving object with the message that was sent. The proxies use messages through this
  contract only; \<open>Uid\<close> and \<open>Message\<close> show that each of the seven classes meets it.
\<close>

locale wire_codec =
  fixes wire :: "'m \<Rightarrow> byte list"
    and to_buffer :: "'m \<Rightarrow> cursor \<Rightarrow> cursor result"
    and from_buffer :: "'m \<Rightarrow> byte list \<Rightarrow> nat \<Rightarrow> ('m \<times> nat) result"
    and wf :: "'m \<Rightarrow> bool"
  assumes writes: "wf m \<Longrightarrow> map_sum id fst (to_buffer m c) = map_sum id fst (puts (wire m) c)"
    and reads: "wf m \<Longrightarrow>
      from_buffer m0 (pre @ wire m @ post) (length pre) = Inr (m, length pre + length (wire m))"
begin

lemma to_buffer_fits:
  assumes "wf m" and "p + length (wire m) \<le> length mem"
  shows "\<exists>q. to_buffer m (mem, p) = Inr (take p mem @ wire m @ drop (p + length (wire m)) mem, q)"
proof -
  from writes[OF assms(1), of "(mem, p)"] assms(2)
  have "map_sum id fst (to_buffer m (mem, p)) =
      Inr (take p mem @ wire m @ drop (p + length (wire m)) mem)"
    by (simp add: puts_result)
  then show ?thesis by (cases "to_buffer m (mem, p)") auto
qed

lemma to_buffer_overrun:
  assumes "wf m" and "length mem < p + length (wire m)"
  shows "to_buffer m (mem, p) = Inl Undefined"
proof -
  from writes[OF assms(1), of "(mem, p)"] assms(2)
  have "map_sum id fst (to_buffer m (mem, p)) = Inl Undefined"
    by (simp add: puts_overrun)
  then show ?thesis by (cases "to_buffer m (mem, p)") auto
qed

lemma to_buffer_InrD:
  assumes "wf m" and "to_buffer m (mem, p) = Inr (mem', q)"
  shows "p + length (wire m) \<le> length mem"
    and "mem' = take p mem @ wire m @ drop (p + length (wire m)) mem"
proof -
  show fits: "p + length (wire m) \<le> length mem"
    using to_buffer_overrun[OF assms(1)] assms(2) by (metis Inl_Inr_False not_less)
  show "mem' = take p mem @ wire m @ drop (p + length (wire m)) mem"
    using to_buffer_fits[OF assms(1) fits] assms(2) by auto
qed

lemma to_buffer_exact:
  assumes "wf m" and "length mem = length (wire m)"
  shows "\<exists>q. to_buffer m (mem, 0) = Inr (wire m, q)"
  using to_buffer_fits[OF assms(1), of 0 mem] assms(2) by simp

lemma from_wire: "wf m \<Longrightarrow> from_buffer m0 (wire m) 0 = Inr (m, length (wire m))"
  using reads[of m m0 "[]" "[]"] by simp

lemma from_wire_slack: "wf m \<Longrightarrow> from_buffer m0 (wire m @ post) 0 = Inr (m, length (wire m))"
  using reads[of m m0 "[]" post] by simp

lemma roundtrip:
  assumes "wf m" and "to_buffer m (mem, p) = Inr (mem', q)"
  shows "from_buffer m0 mem' p = Inr (m, p + length (wire m))"
proof -
  from to_buffer_InrD[OF assms] have "length (take p mem) = p" by simp
  with to_buffer_InrD(2)[OF assms] reads[OF assms(1), of m0 "take p mem"]
  show ?thesis by simp
qed

lemma wire_inject: "wf m \<Longrightarrow> wf m' \<Longrightarrow> wire m = wire m' \<Longrightarrow> m = m'"
  by (metis from_wire Inr_inject prod.inject)

end

text \<open>
  A class whose \<open>ToBuffer\<close> also returns the pointer one past the image, so that a
  subclass can go on writing behind it.
\<close>

locale wire_codec_end = wire_codec +
  assumes returns_end: "wf m \<Longrightarrow> to_buffer m c = Inr (mem', q) \<Longrightarrow> q = snd c + length (wire m)"
begin

lemma to_buffer_puts: "wf m \<Longrightarrow> to_buffer m c = puts (wire m) c"
proof -
  assume wf: "wf m"
  show ?thesis
  proof (cases "to_buffer m c")
    case (Inl e)
    with writes[OF wf, of c] show ?thesis by (cases "puts (wire m) c") auto
  next
    case (Inr r)
    then obtain mem' q where r: "to_buffer m c = Inr (mem', q)" by (cases r) simp
    from returns_end[OF wf r] to_buffer_InrD[OF wf, of "fst c" "snd c" mem' q] r
    show ?thesis by (cases c) (simp add: puts_result)
  qed
qed

end

text \<open>A serialiser that is one write of its image meets both contracts' writing laws.\<close>

lemma writes_puts: "to_buffer m = puts (wire m) \<Longrightarrow>
    map_sum id fst (to_buffer m c) = map_sum id fst (puts (wire m) c)"
  by simp

lemma returns_end_puts:
  "to_buffer m = puts (wire m) \<Longrightarrow> to_buffer m c = Inr (mem', q) \<Longrightarrow> q = snd c + length (wire m)"
  by (cases c) (auto dest: puts_InrD)

end
