(* ===== verification/Uid.thy ===== *)
theory Uid
  imports Error_Handler Wire_Codec
begin

text \<open>
  \<open>ThreadSafeUID\<close> (\<open>include/message.hpp\<close>, \<open>src/message.cpp\<close>): the identifier that ties a
  minion's response to the command that asked for it. Its constructor takes the next value
  of a process-wide atomic 32-bit counter, the time and the process id.

  The operating system is the parameter \<open>host\<close>: \<open>h_time c\<close> is what \<open>time(nullptr)\<close>
  returns while the identifier numbered \<open>c\<close> is built, \<open>h_pid\<close> what \<open>getpid()\<close> returns,
  \<open>h_garbage k\<close> the indeterminate content of the memory of the \<open>k\<close>-th \<open>new char[n]\<close> of an operation, \<open>h_udp_max\<close> the
  largest datagram \<open>sendto\<close> accepts, and \<open>h_send n\<close> the result of \<open>send\<close> for \<open>n\<close> bytes.
\<close>

record uid =
  m_unique_counter :: u32
  m_timestamp :: u64
  m_pid :: u32
  m_ip :: u64

record host =
  h_time :: "u32 \<Rightarrow> u64"
  h_pid :: u32
  h_garbage :: "nat \<Rightarrow> nat \<Rightarrow> byte"
  h_udp_max :: nat
  h_send :: "nat \<Rightarrow> int"

text \<open>\<open>std::atomic_int32_t ThreadSafeUID::m_static_counter = 1\<close>.\<close>

definition m_static_counter_init :: u32 where
  "m_static_counter_init = 1"

definition uid_check_loc :: loc where
  "uid_check_loc = Loc ''message.cpp'' ''ThreadSafeUID::ThreadSafeUID()'' 407"

text \<open>
  The constructor: \<open>atomic_fetch_add\<close> wraps around at 32 bits, \<open>m_unique_counter + 1\<close> is
  computed in \<open>u_int32_t\<close> before it is widened, and \<open>NegativeCheck\<close> takes a
  \<open>const int&\<close>, so the 64-bit timestamp is narrowed to a signed 32-bit value.
  The new counter is the second component.
\<close>

definition ThreadSafeUID :: "host \<Rightarrow> u32 \<Rightarrow> (uid \<times> u32) result" where
  "ThreadSafeUID h counter =
     (let u = \<lparr>m_unique_counter = counter, m_timestamp = h_time h counter,
               m_pid = h_pid h, m_ip = ucast (counter + 1)\<rparr>
      in bindE (snd (NegativeCheck (sint (ucast (m_timestamp u) :: u32)) ''time()'' uid_check_loc))
           (\<lambda>_. Inr (u, counter + 1)))"

definition uid_eq :: "uid \<Rightarrow> uid \<Rightarrow> bool" where
  "uid_eq a b =
     (if m_unique_counter a \<noteq> m_unique_counter b \<or> m_timestamp a \<noteq> m_timestamp b \<or>
         m_pid a \<noteq> m_pid b \<or> m_ip a \<noteq> m_ip b
      then False else True)"

definition GetUniqueCounter :: "uid \<Rightarrow> u32" where
  "GetUniqueCounter u = m_unique_counter u"

definition UID_ToBuffer :: "uid \<Rightarrow> cursor \<Rightarrow> cursor result" where
  "UID_ToBuffer u buffer =
     bindE (put_u32 (m_unique_counter u) buffer) (\<lambda>buffer.
     bindE (put_u64 (m_timestamp u) buffer) (\<lambda>buffer.
     bindE (put_u32 (m_pid u) buffer) (\<lambda>buffer.
     put_u64 (m_ip u) buffer)))"

definition UID_FromBuffer :: "uid \<Rightarrow> byte list \<Rightarrow> nat \<Rightarrow> (uid \<times> nat) result" where
  "UID_FromBuffer u mem buffer =
     bindE (get_u32 mem buffer) (\<lambda>(counter, buffer).
     bindE (get_u64 mem buffer) (\<lambda>(timestamp, buffer).
     bindE (get_u32 mem buffer) (\<lambda>(pid, buffer).
     bindE (get_u64 mem buffer) (\<lambda>(ip, buffer).
       Inr (u\<lparr>m_unique_counter := counter, m_timestamp := timestamp,
              m_pid := pid, m_ip := ip\<rparr>, buffer)))))"

definition UID_GetBufferSize :: u64 where
  "UID_GetBufferSize = 4 + 8 + 4 + 8"

subsection \<open>The wire image\<close>

definition uid_wire :: "uid \<Rightarrow> byte list" where
  "uid_wire u = le_bytes 4 (m_unique_counter u) @ le_bytes 8 (m_timestamp u) @
     le_bytes 4 (m_pid u) @ le_bytes 8 (m_ip u)"

lemma length_uid_wire [simp, size_simps]: "length (uid_wire u) = 24"
  by (simp add: uid_wire_def)

lemma UID_ToBuffer_puts [wire_simps]: "UID_ToBuffer u = puts (uid_wire u)"
  by (rule ext) (simp add: UID_ToBuffer_def put_u32_def put_u64_def uid_wire_def puts_puts)

lemma UID_FromBuffer_wire:
  assumes mem: "mem = pre @ uid_wire u @ post" and p: "p = length pre"
  shows "UID_FromBuffer u0 mem p = Inr (u, p + 24)"
proof -
  have 1: "get_u32 mem p = Inr (m_unique_counter u, p + 4)"
    by (rule get_u32_at) (simp_all add: mem p uid_wire_def)
  have 2: "get_u64 mem (p + 4) = Inr (m_timestamp u, p + 4 + 8)"
    by (rule get_u64_at[where pre = "pre @ le_bytes 4 (m_unique_counter u)"])
       (simp_all add: mem p uid_wire_def)
  have 3: "get_u32 mem (p + 4 + 8) = Inr (m_pid u, p + 4 + 8 + 4)"
    by (rule get_u32_at[where pre = "pre @ le_bytes 4 (m_unique_counter u) @ le_bytes 8 (m_timestamp u)"])
       (simp_all add: mem p uid_wire_def)
  have 4: "get_u64 mem (p + 4 + 8 + 4) = Inr (m_ip u, p + 4 + 8 + 4 + 8)"
    by (rule get_u64_at[where pre = "pre @ le_bytes 4 (m_unique_counter u) @
          le_bytes 8 (m_timestamp u) @ le_bytes 4 (m_pid u)"])
       (simp_all add: mem p uid_wire_def)
  show ?thesis
    unfolding UID_FromBuffer_def
    by (simp only: 1 2 3 4 bindE_Inr prod.case) simp
qed

interpretation uid_codec: wire_codec_end uid_wire UID_ToBuffer UID_FromBuffer "\<lambda>_. True"
proof (unfold_locales, goal_cases)
  case (1 m c)
  show ?case by (rule writes_puts) (rule UID_ToBuffer_puts)
next
  case (2 m m0 pre post)
  show ?case using UID_FromBuffer_wire[OF refl refl] by simp
next
  case (3 m c mem' q)
  then show ?case using returns_end_puts[of UID_ToBuffer m uid_wire] by (simp add: UID_ToBuffer_puts)
qed

lemma unat_UID_GetBufferSize [size_simps]: "unat UID_GetBufferSize = length (uid_wire u)"
  by (simp add: UID_GetBufferSize_def)

subsection \<open>Construction\<close>

text \<open>The times for which the constructor's check passes: bit 31 of the timestamp is clear.\<close>

definition time_ok :: "host \<Rightarrow> bool" where
  "time_ok h \<longleftrightarrow> (\<forall>c. \<not> bit (h_time h c) 31)"

lemma sint_ucast_neg: "sint (ucast (t :: u64) :: u32) < 0 \<longleftrightarrow> bit t 31"
proof -
  have "sint (ucast t :: u32) < 0 \<longleftrightarrow> bit (ucast t :: u32) 31"
    using bit_last_iff[of "ucast t :: u32"] by simp
  then show ?thesis by (simp add: bit_ucast_iff)
qed

lemma ThreadSafeUID_ok:
  assumes "\<not> bit (h_time h c) 31"
  shows "ThreadSafeUID h c = Inr (\<lparr>m_unique_counter = c, m_timestamp = h_time h c,
           m_pid = h_pid h, m_ip = ucast (c + 1)\<rparr>, c + 1)"
  using assms sint_ucast_neg[of "h_time h c"]
  by (simp add: ThreadSafeUID_def Let_def NegativeCheck_ok not_less)

text \<open>The identifier built when the counter stands at \<open>c\<close>.\<close>

definition uid_of :: "host \<Rightarrow> u32 \<Rightarrow> uid" where
  "uid_of h c = \<lparr>m_unique_counter = c, m_timestamp = h_time h c, m_pid = h_pid h,
     m_ip = ucast (c + 1)\<rparr>"

lemma ThreadSafeUID_time_ok: "time_ok h \<Longrightarrow> ThreadSafeUID h c = Inr (uid_of h c, c + 1)"
  using ThreadSafeUID_ok[of h c] by (simp add: time_ok_def uid_of_def)

lemma uid_of_counter [simp]: "m_unique_counter (uid_of h c) = c" "GetUniqueCounter (uid_of h c) = c"
  by (simp_all add: uid_of_def GetUniqueCounter_def)

lemma ThreadSafeUID_throws:
  assumes "bit (h_time h c) 31"
  shows "\<exists>s. ThreadSafeUID h c = Inl (Runtime_error s)"
  using assms sint_ucast_neg[of "h_time h c"]
  by (auto simp add: ThreadSafeUID_def Let_def NegativeCheck_def)

lemma ThreadSafeUID_InrD:
  "ThreadSafeUID h c = Inr (u, c') \<Longrightarrow> m_unique_counter u = c \<and> c' = c + 1"
  by (auto simp: ThreadSafeUID_def Let_def bindE_eq_Inr_iff)

text \<open>Building \<open>n\<close> identifiers one after the other.\<close>

fun make_uids :: "host \<Rightarrow> nat \<Rightarrow> u32 \<Rightarrow> (uid list \<times> u32) result" where
  "make_uids h 0 c = Inr ([], c)"
| "make_uids h (Suc n) c =
     bindE (ThreadSafeUID h c) (\<lambda>(u, c). bindE (make_uids h n c) (\<lambda>(us, c). Inr (u # us, c)))"

lemma make_uids_counters:
  "make_uids h n c = Inr (us, c') \<Longrightarrow>
     map m_unique_counter us = map (\<lambda>i. c + of_nat i) [0..<n] \<and> c' = c + of_nat n"
proof (induction n arbitrary: c us)
  case 0
  then show ?case by simp
next
  case (Suc n)
  from Suc.prems obtain u c1 us' where
    u: "ThreadSafeUID h c = Inr (u, c1)" and us': "make_uids h n c1 = Inr (us', c')"
    and us: "us = u # us'"
    by (auto simp: bindE_eq_Inr_iff)
  from ThreadSafeUID_InrD[OF u] Suc.IH[OF us']
  have "map m_unique_counter us' = map (\<lambda>i. c + of_nat (Suc i)) [0..<n]"
    and "c' = c + of_nat (Suc n)" and "m_unique_counter u = c"
    by (auto simp: ac_simps)
  then show ?case
    unfolding us by (simp add: upt_conv_Cons map_Suc_upt[symmetric] del: upt_Suc)
qed

lemma of_nat_u32_inj:
  assumes "i < 2 ^ 32" and "j < 2 ^ 32"
  shows "(of_nat i :: u32) = of_nat j \<longleftrightarrow> i = j"
  using assms by (simp add: word_of_nat_eq_iff take_bit_nat_eq_self)

subsection \<open>Properties\<close>

text \<open>A host and an identifier to evaluate on.\<close>

definition demo_host :: host where
  "demo_host = \<lparr>h_time = (\<lambda>_. 1700000000), h_pid = 4242, h_garbage = (\<lambda>_ _. 170),
     h_udp_max = 65507, h_send = int\<rparr>"

definition demo_uid :: uid where
  "demo_uid = \<lparr>m_unique_counter = 7, m_timestamp = 1700000000, m_pid = 4242, m_ip = 8\<rparr>"

lemma time_ok_demo [simp]: "time_ok demo_host"
  by (simp add: time_ok_def demo_host_def bit_numeral_word_iff)

lemma demo_host_sel [simp]: "h_udp_max demo_host = 65507" "h_send demo_host = int"
  by (simp_all add: demo_host_def)

text \<open>
  C40: identifiers built one after the other are pairwise different as long as fewer than
  2^32 are built, whatever the clock does and wherever the counter starts; so a response can
  name only the command it answers.
\<close>

theorem make_uids_distinct:
  assumes "make_uids h n c = Inr (us, c')" and "n \<le> 2 ^ 32"
  shows "length us = n \<and> distinct us \<and> (\<forall>i < n. \<forall>j < n. uid_eq (us ! i) (us ! j) \<longleftrightarrow> i = j)"
proof -
  from make_uids_counters[OF assms(1)]
  have m: "map m_unique_counter us = map (\<lambda>i. c + of_nat i) [0..<n]" by simp
  then have len: "length us = n" by (metis length_map diff_zero length_upt)
  have "inj_on (\<lambda>i. c + of_nat i) (set [0..<n])"
    using assms(2) by (auto intro!: inj_onI simp: of_nat_u32_inj)
  then have d: "distinct (map m_unique_counter us)" by (simp only: m distinct_map distinct_upt simp_thms)
  then have "distinct us" by (simp add: distinct_map)
  moreover have "uid_eq (us ! i) (us ! j) \<longleftrightarrow> i = j" if "i < n" "j < n" for i j
    using nth_eq_iff_index_eq[OF d, of i j] that len by (auto simp: uid_eq_def)
  ultimately show ?thesis using len by simp
qed

theorem make_uids_distinct_witness:
  "\<exists>us c'. make_uids demo_host 3 4294967295 = Inr (us, c') \<and> length us = 3 \<and> distinct us"
proof -
  obtain us c' where "make_uids demo_host 3 4294967295 = Inr (us, c')"
    by (simp add: ThreadSafeUID_time_ok numeral_3_eq_3)
  with make_uids_distinct[OF this] show ?thesis by auto
qed

text \<open>
  The constructor throws exactly when bit 31 of the timestamp is set, the first time on
  19 January 2038: the check narrows the 64-bit time to a signed int.
\<close>

theorem ThreadSafeUID_throws_iff:
  "(\<exists>s. ThreadSafeUID h c = Inl (Runtime_error s)) \<longleftrightarrow> bit (h_time h c) 31"
  using ThreadSafeUID_throws[of h c] ThreadSafeUID_ok[of h c]
  by (cases "bit (h_time h c) 31") auto

end
