(* ===== verification/Message.thy ===== *)
theory Message
  imports Uid
begin

text \<open>
  The messages of the two protocols (\<open>include/message.hpp\<close>, \<open>src/message.cpp\<close>): the abstract
  base \<open>AMessage\<close> and its six subclasses, with \<open>ToBuffer\<close>, \<open>FromBuffer\<close>,
  \<open>GetBufferSize\<close>, \<open>SupplyArgs\<close> and the XOR checksum of the two requests to a minion.
  A subclass is a record that extends the base record. Each class meets \<open>wire_codec\<close>.
\<close>

definition WRITE_MSG_KEY :: u32 where "WRITE_MSG_KEY = 8"
definition READ_MSG_KEY :: u32 where "READ_MSG_KEY = 9"
definition READ_MINION_MSG_KEY :: u32 where "READ_MINION_MSG_KEY = 28"
definition WRITE_MINION_MSG_KEY :: u32 where "WRITE_MINION_MSG_KEY = 29"
definition NBD_WRITE_MSG :: u32 where "NBD_WRITE_MSG = 30"
definition NBD_READ_MSG :: u32 where "NBD_READ_MSG = 31"

lemmas key_defs = WRITE_MSG_KEY_def READ_MSG_KEY_def READ_MINION_MSG_KEY_def
  WRITE_MINION_MSG_KEY_def NBD_WRITE_MSG_def NBD_READ_MSG_def

subsection \<open>The classes\<close>

record amessage =
  m_key :: u32
  m_size :: u32
  m_uid :: uid

record read_msg = amessage +
  rd_offset :: u64

record nbd_read_msg = amessage +
  nr_offset :: u64

record nbd_write_msg = amessage +
  nw_offset :: u64
  nw_data :: "byte list option"

record write_msg = amessage +
  wr_offset :: u64
  wr_data :: "byte list option"

record minion_read_msg = amessage +
  mr_is_success :: bool
  mr_data :: "byte list option"

record minion_write_msg = amessage +
  mw_is_success :: bool

text \<open>What \<open>SupplyArgs\<close> returns: offset, size and the data, which may be null.\<close>

type_synonym msg_args = "u64 \<times> u32 \<times> byte list option"

subsection \<open>Constructors\<close>

definition AMessage :: "u32 \<Rightarrow> u32 \<Rightarrow> uid \<Rightarrow> amessage" where
  "AMessage key buffer_size uid = \<lparr>m_key = key, m_size = buffer_size, m_uid = uid\<rparr>"

definition GetUID :: "('a) amessage_scheme \<Rightarrow> uid" where
  "GetUID m = m_uid m"

definition GetSize :: "('a) amessage_scheme \<Rightarrow> u32" where
  "GetSize m = m_size m"

definition WriteMsg :: "u64 \<Rightarrow> u32 \<Rightarrow> byte list option \<Rightarrow> uid \<Rightarrow> write_msg" where
  "WriteMsg offset size_to_write data uid =
     amessage.extend (AMessage WRITE_MSG_KEY size_to_write uid)
       (write_msg.fields offset data)"

definition ReadMsg :: "u64 \<Rightarrow> u32 \<Rightarrow> uid \<Rightarrow> read_msg" where
  "ReadMsg offset size_to_read uid =
     amessage.extend (AMessage READ_MSG_KEY size_to_read uid) (read_msg.fields offset)"

definition MinionReadMsg :: "uid \<Rightarrow> bool \<Rightarrow> byte list option \<Rightarrow> u32 \<Rightarrow> minion_read_msg" where
  "MinionReadMsg uid is_success data size_to_read =
     amessage.extend (AMessage READ_MINION_MSG_KEY size_to_read uid)
       (minion_read_msg.fields is_success data)"

definition MinionWriteMsg :: "uid \<Rightarrow> bool \<Rightarrow> minion_write_msg" where
  "MinionWriteMsg uid is_success =
     amessage.extend (AMessage WRITE_MINION_MSG_KEY 0 uid) (minion_write_msg.fields is_success)"

text \<open>
  The two messages from the block device are given no identifier: the default argument
  \<open>uid_ = ThreadSafeUID()\<close> of the base builds one, which advances the counter.
\<close>

definition NBDReadMsg :: "host \<Rightarrow> u32 \<Rightarrow> u64 \<Rightarrow> u32 \<Rightarrow> (nbd_read_msg \<times> u32) result" where
  "NBDReadMsg h counter offset len =
     bindE (ThreadSafeUID h counter) (\<lambda>(uid, counter).
       Inr (amessage.extend (AMessage NBD_READ_MSG len uid) (nbd_read_msg.fields offset), counter))"

definition NBDWriteMsg ::
    "host \<Rightarrow> u32 \<Rightarrow> u64 \<Rightarrow> u32 \<Rightarrow> byte list option \<Rightarrow> (nbd_write_msg \<times> u32) result" where
  "NBDWriteMsg h counter offset len data =
     bindE (ThreadSafeUID h counter) (\<lambda>(uid, counter).
     let m = amessage.extend (AMessage NBD_WRITE_MSG len uid) (nbd_write_msg.fields offset None)
     in case data of
          None \<Rightarrow> Inr (m, counter)
        | Some d \<Rightarrow> bindE (memcpy_src (Some d) (unat len)) (\<lambda>copy.
            Inr (m\<lparr>nw_data := Some copy\<rparr>, counter)))"

lemmas msg_ctor_defs = AMessage_def WriteMsg_def ReadMsg_def MinionReadMsg_def MinionWriteMsg_def
  NBDReadMsg_def NBDWriteMsg_def amessage.defs write_msg.defs read_msg.defs
  minion_read_msg.defs minion_write_msg.defs nbd_read_msg.defs nbd_write_msg.defs

subsection \<open>Checksum\<close>

fun checksum_loop :: "byte list \<Rightarrow> byte \<Rightarrow> byte" where
  "checksum_loop [] checksum = checksum"
| "checksum_loop (d # ds) checksum = checksum_loop ds (checksum XOR d)"

definition CalculateChecksum :: "byte list \<Rightarrow> nat \<Rightarrow> nat \<Rightarrow> byte result" where
  "CalculateChecksum mem data len =
     bindE (load mem data len) (\<lambda>bytes. Inr (checksum_loop bytes 0))"

subsection \<open>ToBuffer\<close>

definition AMessage_ToBuffer :: "('a) amessage_scheme \<Rightarrow> cursor \<Rightarrow> cursor result" where
  "AMessage_ToBuffer m buffer =
     bindE (put_u32 (m_key m) buffer) (\<lambda>buffer.
     bindE (put_u32 (m_size m) buffer) (\<lambda>buffer.
     UID_ToBuffer (m_uid m) buffer))"

definition ReadMsg_ToBuffer :: "read_msg \<Rightarrow> cursor \<Rightarrow> cursor result" where
  "ReadMsg_ToBuffer m buffer =
     (let start = snd buffer in
      bindE (AMessage_ToBuffer m buffer) (\<lambda>buffer.
      bindE (put_u64 (rd_offset m) buffer) (\<lambda>buffer.
      bindE (CalculateChecksum (fst buffer) start (snd buffer - start)) (\<lambda>checksum.
      put_u8 checksum buffer))))"

definition WriteMsg_ToBuffer :: "write_msg \<Rightarrow> cursor \<Rightarrow> cursor result" where
  "WriteMsg_ToBuffer m buffer =
     (let start = snd buffer in
      bindE (AMessage_ToBuffer m buffer) (\<lambda>buffer.
      bindE (put_u64 (wr_offset m) buffer) (\<lambda>buffer.
      bindE (case wr_data m of
               None \<Rightarrow> Inr (fst buffer, snd buffer + unat (GetSize m))
             | Some d \<Rightarrow> bindE (memcpy_src (Some d) (unat (GetSize m))) (\<lambda>copy. puts copy buffer))
        (\<lambda>buffer.
      bindE (CalculateChecksum (fst buffer) start (snd buffer - start)) (\<lambda>checksum.
      put_u8 checksum buffer)))))"

text \<open>\<open>memcpy\<close> returns its destination: the pointer returned is that of the data, not its end.\<close>

definition MinionReadMsg_ToBuffer :: "minion_read_msg \<Rightarrow> cursor \<Rightarrow> cursor result" where
  "MinionReadMsg_ToBuffer m buffer =
     bindE (AMessage_ToBuffer m buffer) (\<lambda>buffer.
     bindE (put_bool (mr_is_success m) buffer) (\<lambda>buffer.
     bindE (memcpy_src (mr_data m) (unat (GetSize m))) (\<lambda>copy.
     bindE (store (fst buffer) (snd buffer) copy) (\<lambda>mem. Inr (mem, snd buffer)))))"

definition MinionWriteMsg_ToBuffer :: "minion_write_msg \<Rightarrow> cursor \<Rightarrow> cursor result" where
  "MinionWriteMsg_ToBuffer m buffer =
     bindE (AMessage_ToBuffer m buffer) (\<lambda>buffer. put_bool (mw_is_success m) buffer)"

definition NBDWriteMsg_ToBuffer :: "nbd_write_msg \<Rightarrow> cursor \<Rightarrow> cursor result" where
  "NBDWriteMsg_ToBuffer m buffer =
     bindE (AMessage_ToBuffer m buffer) (\<lambda>buffer.
     bindE (put_u64 (nw_offset m) buffer) (\<lambda>buffer.
     bindE (memcpy_src (nw_data m) (unat (GetSize m))) (\<lambda>copy. puts copy buffer)))"

definition NBDReadMsg_ToBuffer :: "nbd_read_msg \<Rightarrow> cursor \<Rightarrow> cursor result" where
  "NBDReadMsg_ToBuffer m buffer =
     bindE (AMessage_ToBuffer m buffer) (\<lambda>buffer. put_u64 (nr_offset m) buffer)"

subsection \<open>FromBuffer\<close>

definition AMessage_FromBuffer ::
    "('a) amessage_scheme \<Rightarrow> byte list \<Rightarrow> nat \<Rightarrow> (('a) amessage_scheme \<times> nat) result" where
  "AMessage_FromBuffer m mem buffer =
     bindE (get_u32 mem buffer) (\<lambda>(key, buffer).
     bindE (get_u32 mem buffer) (\<lambda>(size, buffer).
     bindE (UID_FromBuffer (m_uid m) mem buffer) (\<lambda>(uid, buffer).
       Inr (m\<lparr>m_key := key, m_size := size, m_uid := uid\<rparr>, buffer))))"

definition read_check_loc :: loc where
  "read_check_loc = Loc ''message.cpp'' ''virtual char* ReadMsg::FromBuffer(char*)'' 204"

definition write_check_loc :: loc where
  "write_check_loc = Loc ''message.cpp'' ''virtual char* WriteMsg::FromBuffer(char*)'' 224"

definition ReadMsg_FromBuffer :: "read_msg \<Rightarrow> byte list \<Rightarrow> nat \<Rightarrow> (read_msg \<times> nat) result" where
  "ReadMsg_FromBuffer m mem buffer =
     (let start = buffer in
      bindE (AMessage_FromBuffer m mem buffer) (\<lambda>(m, buffer).
      bindE (get_u64 mem buffer) (\<lambda>(offset, buffer).
      bindE (CalculateChecksum mem start (buffer - start)) (\<lambda>calculated_checksum.
      bindE (get_u8 mem buffer) (\<lambda>(received_checksum, buffer).
      bindE (snd (NotEqualToCheck received_checksum calculated_checksum ''Checksum Check''
               read_check_loc)) (\<lambda>_.
        Inr (m\<lparr>rd_offset := offset\<rparr>, buffer)))))))"

definition WriteMsg_FromBuffer :: "write_msg \<Rightarrow> byte list \<Rightarrow> nat \<Rightarrow> (write_msg \<times> nat) result" where
  "WriteMsg_FromBuffer m mem buffer =
     (let start = buffer in
      bindE (AMessage_FromBuffer m mem buffer) (\<lambda>(m, buffer).
      bindE (get_u64 mem buffer) (\<lambda>(offset, buffer).
      bindE (load mem buffer (unat (GetSize m))) (\<lambda>data.
      let buffer = buffer + unat (GetSize m) in
      bindE (CalculateChecksum mem start (buffer - start)) (\<lambda>calculated_checksum.
      bindE (get_u8 mem buffer) (\<lambda>(received_checksum, buffer).
      bindE (snd (NotEqualToCheck received_checksum calculated_checksum ''Checksum Check''
               write_check_loc)) (\<lambda>_.
        Inr (m\<lparr>wr_offset := offset, wr_data := Some data\<rparr>, buffer))))))))"

definition MinionReadMsg_FromBuffer ::
    "minion_read_msg \<Rightarrow> byte list \<Rightarrow> nat \<Rightarrow> (minion_read_msg \<times> nat) result" where
  "MinionReadMsg_FromBuffer m mem buffer =
     bindE (AMessage_FromBuffer m mem buffer) (\<lambda>(m, buffer).
     bindE (get_bool mem buffer) (\<lambda>(is_success, buffer).
     bindE (load mem buffer (unat (GetSize m))) (\<lambda>data.
       Inr (m\<lparr>mr_is_success := is_success, mr_data := Some data\<rparr>, buffer + unat (GetSize m)))))"

definition MinionWriteMsg_FromBuffer ::
    "minion_write_msg \<Rightarrow> byte list \<Rightarrow> nat \<Rightarrow> (minion_write_msg \<times> nat) result" where
  "MinionWriteMsg_FromBuffer m mem buffer =
     bindE (AMessage_FromBuffer m mem buffer) (\<lambda>(m, buffer).
     bindE (get_bool mem buffer) (\<lambda>(is_success, buffer).
       Inr (m\<lparr>mw_is_success := is_success\<rparr>, buffer)))"

definition NBDWriteMsg_FromBuffer ::
    "nbd_write_msg \<Rightarrow> byte list \<Rightarrow> nat \<Rightarrow> (nbd_write_msg \<times> nat) result" where
  "NBDWriteMsg_FromBuffer m mem buffer =
     bindE (AMessage_FromBuffer m mem buffer) (\<lambda>(m, buffer).
     bindE (get_u64 mem buffer) (\<lambda>(offset, buffer).
     bindE (load mem buffer (unat (GetSize m))) (\<lambda>data.
       Inr (m\<lparr>nw_offset := offset, nw_data := Some data\<rparr>, buffer + unat (GetSize m)))))"

definition NBDReadMsg_FromBuffer ::
    "nbd_read_msg \<Rightarrow> byte list \<Rightarrow> nat \<Rightarrow> (nbd_read_msg \<times> nat) result" where
  "NBDReadMsg_FromBuffer m mem buffer =
     bindE (AMessage_FromBuffer m mem buffer) (\<lambda>(m, buffer).
     bindE (get_u64 mem buffer) (\<lambda>(offset, buffer). Inr (m\<lparr>nr_offset := offset\<rparr>, buffer)))"

subsection \<open>GetBufferSize and SupplyArgs\<close>

definition AMessage_GetBufferSize :: u64 where
  "AMessage_GetBufferSize = 4 + 4 + UID_GetBufferSize"

definition ReadMsg_GetBufferSize :: u64 where
  "ReadMsg_GetBufferSize = AMessage_GetBufferSize + 8 + 1"

definition WriteMsg_GetBufferSize :: "write_msg \<Rightarrow> u64" where
  "WriteMsg_GetBufferSize m = AMessage_GetBufferSize + 8 + ucast (GetSize m) + 1"

definition MinionReadMsg_GetBufferSize :: u64 where
  "MinionReadMsg_GetBufferSize = AMessage_GetBufferSize + 1"

definition MinionWriteMsg_GetBufferSize :: u64 where
  "MinionWriteMsg_GetBufferSize = AMessage_GetBufferSize + 1"

definition NBDWriteMsg_GetBufferSize :: "nbd_write_msg \<Rightarrow> u64" where
  "NBDWriteMsg_GetBufferSize m = AMessage_GetBufferSize + 8 + ucast (GetSize m)"

definition NBDReadMsg_GetBufferSize :: u64 where
  "NBDReadMsg_GetBufferSize = AMessage_GetBufferSize + 8"

definition WriteMsg_SupplyArgs :: "write_msg \<Rightarrow> msg_args" where
  "WriteMsg_SupplyArgs m = (wr_offset m, GetSize m, wr_data m)"

definition ReadMsg_SupplyArgs :: "read_msg \<Rightarrow> msg_args" where
  "ReadMsg_SupplyArgs m = (rd_offset m, GetSize m, None)"

definition MinionReadMsg_SupplyArgs :: "minion_read_msg \<Rightarrow> msg_args" where
  "MinionReadMsg_SupplyArgs m = (0, GetSize m, mr_data m)"

definition MinionWriteMsg_SupplyArgs :: "minion_write_msg \<Rightarrow> msg_args" where
  "MinionWriteMsg_SupplyArgs m =
     (ucast (GetUniqueCounter (GetUID m)), if mw_is_success m then 1 else 0, None)"

definition NBDReadMsg_SupplyArgs :: "nbd_read_msg \<Rightarrow> msg_args" where
  "NBDReadMsg_SupplyArgs m = (nr_offset m, GetSize m, None)"

definition NBDWriteMsg_SupplyArgs :: "nbd_write_msg \<Rightarrow> msg_args" where
  "NBDWriteMsg_SupplyArgs m = (nw_offset m, GetSize m, nw_data m)"

definition MinionReadMsg_GetIsSuccess :: "minion_read_msg \<Rightarrow> bool" where
  "MinionReadMsg_GetIsSuccess m = mr_is_success m"

definition MinionWriteMsg_GetIsSuccess :: "minion_write_msg \<Rightarrow> bool" where
  "MinionWriteMsg_GetIsSuccess m = mw_is_success m"

subsection \<open>Creators for the factories\<close>

text \<open>\<open>std::make_shared<T>()\<close>: every default constructor builds a fresh identifier.\<close>

definition CreateMinionReadMsg :: "host \<Rightarrow> u32 \<Rightarrow> (minion_read_msg \<times> u32) result" where
  "CreateMinionReadMsg h counter =
     bindE (ThreadSafeUID h counter) (\<lambda>(u, counter). Inr (MinionReadMsg u True None 0, counter))"

definition CreateMinionWriteMsg :: "host \<Rightarrow> u32 \<Rightarrow> (minion_write_msg \<times> u32) result" where
  "CreateMinionWriteMsg h counter =
     bindE (ThreadSafeUID h counter) (\<lambda>(u, counter). Inr (MinionWriteMsg u True, counter))"

definition CreateNBDReadMsg :: "host \<Rightarrow> u32 \<Rightarrow> (nbd_read_msg \<times> u32) result" where
  "CreateNBDReadMsg h counter = NBDReadMsg h counter 0 0"

definition CreateNBDWriteMsg :: "host \<Rightarrow> u32 \<Rightarrow> (nbd_write_msg \<times> u32) result" where
  "CreateNBDWriteMsg h counter = NBDWriteMsg h counter 0 0 None"

definition CreateWriteMsg :: "host \<Rightarrow> u32 \<Rightarrow> (write_msg \<times> u32) result" where
  "CreateWriteMsg h counter =
     bindE (ThreadSafeUID h counter) (\<lambda>(u, counter). Inr (WriteMsg 0 0 None u, counter))"

definition CreateReadMsg :: "host \<Rightarrow> u32 \<Rightarrow> (read_msg \<times> u32) result" where
  "CreateReadMsg h counter =
     bindE (ThreadSafeUID h counter) (\<lambda>(u, counter). Inr (ReadMsg 0 0 u, counter))"

lemmas create_defs = CreateMinionReadMsg_def CreateMinionWriteMsg_def CreateNBDReadMsg_def
  CreateNBDWriteMsg_def CreateWriteMsg_def CreateReadMsg_def

end
