(* ===== verification/Message_Codec.thy ===== *)
theory Message_Codec
  imports Message
begin

text \<open>
  Correctness of the serialisers of \<open>Message\<close>: the wire image of each class, that each
  class meets the codec contract, how large the images are against \<open>GetBufferSize\<close>, and
  what the checksum of the two requests detects.
\<close>

subsection \<open>Wire images\<close>

definition amessage_wire :: "('a) amessage_scheme \<Rightarrow> byte list" where
  "amessage_wire m = le_bytes 4 (m_key m) @ le_bytes 4 (m_size m) @ uid_wire (m_uid m)"

definition with_checksum :: "byte list \<Rightarrow> byte list" where
  "with_checksum body = body @ [checksum_loop body 0]"

definition read_wire :: "read_msg \<Rightarrow> byte list" where
  "read_wire m = with_checksum (amessage_wire m @ le_bytes 8 (rd_offset m))"

definition write_wire :: "write_msg \<Rightarrow> byte list" where
  "write_wire m = with_checksum (amessage_wire m @ le_bytes 8 (wr_offset m) @ the (wr_data m))"

definition minion_read_wire :: "minion_read_msg \<Rightarrow> byte list" where
  "minion_read_wire m = amessage_wire m @ [bool_byte (mr_is_success m)] @ the (mr_data m)"

definition minion_write_wire :: "minion_write_msg \<Rightarrow> byte list" where
  "minion_write_wire m = amessage_wire m @ [bool_byte (mw_is_success m)]"

definition nbd_write_wire :: "nbd_write_msg \<Rightarrow> byte list" where
  "nbd_write_wire m = amessage_wire m @ le_bytes 8 (nw_offset m) @ the (nw_data m)"

definition nbd_read_wire :: "nbd_read_msg \<Rightarrow> byte list" where
  "nbd_read_wire m = amessage_wire m @ le_bytes 8 (nr_offset m)"

text \<open>A message that carries data is well formed when it carries exactly \<open>m_size\<close> bytes.\<close>

definition carries :: "byte list option \<Rightarrow> u32 \<Rightarrow> bool" where
  "carries data n \<longleftrightarrow> (case data of None \<Rightarrow> False | Some d \<Rightarrow> length d = unat n)"

abbreviation write_wf :: "write_msg \<Rightarrow> bool" where
  "write_wf m \<equiv> carries (wr_data m) (m_size m)"

abbreviation minion_read_wf :: "minion_read_msg \<Rightarrow> bool" where
  "minion_read_wf m \<equiv> carries (mr_data m) (m_size m)"

abbreviation nbd_write_wf :: "nbd_write_msg \<Rightarrow> bool" where
  "nbd_write_wf m \<equiv> carries (nw_data m) (m_size m)"

lemma carriesE:
  assumes "carries data n"
  obtains d where "data = Some d" and "length d = unat n"
  using assms by (auto simp: carries_def split: option.splits)

lemma carries_Some [simp]: "carries (Some d) n \<longleftrightarrow> length d = unat n"
  by (simp add: carries_def)

lemma length_amessage_wire [simp, size_simps]: "length (amessage_wire m) = 32"
  by (simp add: amessage_wire_def)

lemma length_with_checksum [simp, size_simps]: "length (with_checksum body) = length body + 1"
  by (simp add: with_checksum_def)

lemma length_read_wire [simp, size_simps]: "length (read_wire m) = 41"
  by (simp add: read_wire_def)

lemma length_write_wire [size_simps]:
  "write_wf m \<Longrightarrow> length (write_wire m) = 41 + unat (m_size m)"
  by (auto simp: write_wire_def elim: carriesE)

lemma length_minion_read_wire [size_simps]:
  "minion_read_wf m \<Longrightarrow> length (minion_read_wire m) = 33 + unat (m_size m)"
  by (auto simp: minion_read_wire_def elim: carriesE)

lemma length_minion_write_wire [simp, size_simps]: "length (minion_write_wire m) = 33"
  by (simp add: minion_write_wire_def)

lemma length_nbd_write_wire [size_simps]:
  "nbd_write_wf m \<Longrightarrow> length (nbd_write_wire m) = 40 + unat (m_size m)"
  by (auto simp: nbd_write_wire_def elim: carriesE)

lemma length_nbd_read_wire [simp, size_simps]: "length (nbd_read_wire m) = 40"
  by (simp add: nbd_read_wire_def)

subsection \<open>The checksum\<close>

lemma checksum_loop_xor: "checksum_loop ds c = c XOR checksum_loop ds 0"
proof (induction ds arbitrary: c)
  case Nil
  then show ?case by simp
next
  case (Cons d ds)
  have "checksum_loop (d # ds) c = (c XOR d) XOR checksum_loop ds 0"
    using Cons.IH[of "c XOR d"] by simp
  also have "\<dots> = c XOR (d XOR checksum_loop ds 0)"
    by (simp add: xor.assoc)
  also have "d XOR checksum_loop ds 0 = checksum_loop (d # ds) 0"
    using Cons.IH[of d] by simp
  finally show ?case .
qed

lemma checksum_append:
  "checksum_loop (xs @ ys) 0 = checksum_loop xs 0 XOR checksum_loop ys 0"
proof -
  have "checksum_loop (xs @ ys) c = checksum_loop ys (checksum_loop xs c)" for c
    by (induction xs arbitrary: c) simp_all
  then show ?thesis using checksum_loop_xor by metis
qed

text \<open>The whole image, its checksum byte included, XORs to zero, and only such an image does.\<close>

lemma checksum_valid_iff: "checksum_loop (body @ [b]) 0 = 0 \<longleftrightarrow> b = checksum_loop body 0"
proof -
  have "b XOR checksum_loop body 0 = 0 \<longleftrightarrow> b = checksum_loop body 0"
    by (auto simp: bit_eq_iff bit_xor_iff)
  then show ?thesis by (simp add: checksum_append xor.commute)
qed

lemma checksum_with_checksum [simp]: "checksum_loop (with_checksum body) 0 = 0"
  by (simp add: with_checksum_def checksum_valid_iff)

lemma checksum_update:
  assumes "i < length bs"
  shows "checksum_loop (bs[i := bs ! i XOR e]) 0 = checksum_loop bs 0 XOR e"
proof -
  have bs: "bs = take i bs @ [bs ! i] @ drop (Suc i) bs"
    using assms by (simp add: id_take_nth_drop)
  have upd: "bs[i := bs ! i XOR e] = take i bs @ [bs ! i XOR e] @ drop (Suc i) bs"
    using assms by (simp add: upd_conv_take_nth_drop)
  have "checksum_loop (bs[i := bs ! i XOR e]) 0 =
      checksum_loop (take i bs) 0 XOR ((bs ! i XOR e) XOR checksum_loop (drop (Suc i) bs) 0)"
    unfolding upd checksum_append by simp
  also have "\<dots> = (checksum_loop (take i bs) 0 XOR (bs ! i XOR checksum_loop (drop (Suc i) bs) 0)) XOR e"
    by (simp only: ac_simps)
  also have "checksum_loop (take i bs) 0 XOR (bs ! i XOR checksum_loop (drop (Suc i) bs) 0) =
      checksum_loop bs 0"
    using bs by (metis checksum_append checksum_loop.simps xor.left_neutral)
  finally show ?thesis .
qed

subsection \<open>ToBuffer writes the image\<close>

lemma AMessage_ToBuffer_puts [wire_simps]: "AMessage_ToBuffer m = puts (amessage_wire m)"
  by (rule ext) (simp add: AMessage_ToBuffer_def put_u32_def amessage_wire_def
      UID_ToBuffer_puts puts_puts)

text \<open>
  The two checksummed serialisers read back what they have just written: the body is in the
  buffer, so appending the loop's value appends the checksum of the body.
\<close>

lemma puts_checksum:
  "bindE (puts body c) (\<lambda>c'. bindE (CalculateChecksum (fst c') (snd c) (snd c' - snd c))
     (\<lambda>s. put_u8 s c')) = puts (with_checksum body) c"
proof (cases "puts body c")
  case (Inl e)
  then have "length (fst c) < snd c + length body"
    by (auto simp: puts_def store_def split: if_splits)
  then have "puts (with_checksum body) (fst c, snd c) = Inl Undefined"
    by (intro puts_overrun) simp
  with Inl \<open>length (fst c) < snd c + length body\<close> show ?thesis
    using puts_overrun[of "fst c" "snd c" body] by simp
next
  case (Inr c')
  then obtain mem p mem' q where c: "c = (mem, p)" and c': "c' = (mem', q)"
    and ok: "puts body (mem, p) = Inr (mem', q)"
    by (cases c; cases c') simp
  from puts_InrD[OF ok] have fits: "p + length body \<le> length mem" and q: "q = p + length body"
    and mem': "mem' = take p mem @ body @ drop (p + length body) mem"
    by auto
  have "CalculateChecksum mem' p (q - p) = Inr (checksum_loop body 0)"
    using load_written[OF fits] by (simp add: CalculateChecksum_def mem' q)
  then show ?thesis
    using puts_puts[of body c "[checksum_loop body 0]"] Inr
    by (simp add: c c' put_u8_def with_checksum_def)
qed

lemma ReadMsg_ToBuffer_puts [wire_simps]: "ReadMsg_ToBuffer m = puts (read_wire m)"
proof
  fix c
  show "ReadMsg_ToBuffer m c = puts (read_wire m) c"
    using puts_checksum[of "amessage_wire m @ le_bytes 8 (rd_offset m)" c]
    by (simp add: ReadMsg_ToBuffer_def AMessage_ToBuffer_puts put_u64_def read_wire_def
        puts_puts[symmetric] bindE_assoc Let_def)
qed

lemma WriteMsg_ToBuffer_puts [wire_simps]:
  assumes "write_wf m"
  shows "WriteMsg_ToBuffer m = puts (write_wire m)"
proof
  fix c
  from assms obtain d where d: "wr_data m = Some d" "length d = unat (m_size m)"
    by (rule carriesE)
  then show "WriteMsg_ToBuffer m c = puts (write_wire m) c"
    using puts_checksum[of "amessage_wire m @ le_bytes 8 (wr_offset m) @ d" c]
    by (simp add: WriteMsg_ToBuffer_def AMessage_ToBuffer_puts put_u64_def write_wire_def
        GetSize_def memcpy_src_Some puts_puts[symmetric] bindE_assoc Let_def)
qed

lemma MinionReadMsg_ToBuffer_writes [wire_simps]:
  assumes "minion_read_wf m"
  shows "map_sum id fst (MinionReadMsg_ToBuffer m c) = map_sum id fst (puts (minion_read_wire m) c)"
proof -
  from assms obtain d where d: "mr_data m = Some d" "length d = unat (m_size m)"
    by (rule carriesE)
  have last: "map_sum id fst (bindE (store (fst b) (snd b) d) (\<lambda>mem. Inr (mem, snd b))) =
      map_sum id fst (puts d b)" for b :: cursor
    by (simp add: puts_def bindE_def split: sum.splits)
  have bind: "map_sum id fst (bindE r f) = map_sum id fst (bindE r g)"
    if "\<And>b. map_sum id fst (f b) = map_sum id fst (g b)"
    for r :: "cursor result" and f g :: "cursor \<Rightarrow> cursor result"
    using that by (cases r) simp_all
  have "map_sum id fst (MinionReadMsg_ToBuffer m c) =
      map_sum id fst (bindE (puts (amessage_wire m) c) (\<lambda>b.
        bindE (puts [bool_byte (mr_is_success m)] b) (\<lambda>b. puts d b)))"
    unfolding MinionReadMsg_ToBuffer_def AMessage_ToBuffer_puts put_bool_def GetSize_def
      d(1) memcpy_src_Some[OF d(2)] bindE_Inr
    by (intro bind last)
  then show ?thesis
    by (simp add: minion_read_wire_def d(1) puts_puts_fun puts_puts)
qed

lemma MinionWriteMsg_ToBuffer_puts [wire_simps]:
  "MinionWriteMsg_ToBuffer m = puts (minion_write_wire m)"
  by (rule ext) (simp add: MinionWriteMsg_ToBuffer_def AMessage_ToBuffer_puts put_bool_def
      minion_write_wire_def puts_puts)

lemma NBDWriteMsg_ToBuffer_puts [wire_simps]:
  assumes "nbd_write_wf m"
  shows "NBDWriteMsg_ToBuffer m = puts (nbd_write_wire m)"
proof
  fix c
  from assms obtain d where "nw_data m = Some d" "length d = unat (m_size m)"
    by (rule carriesE)
  then show "NBDWriteMsg_ToBuffer m c = puts (nbd_write_wire m) c"
    by (simp add: NBDWriteMsg_ToBuffer_def AMessage_ToBuffer_puts put_u64_def nbd_write_wire_def
        GetSize_def memcpy_src_Some puts_puts)
qed

lemma NBDReadMsg_ToBuffer_puts [wire_simps]: "NBDReadMsg_ToBuffer m = puts (nbd_read_wire m)"
  by (rule ext) (simp add: NBDReadMsg_ToBuffer_def AMessage_ToBuffer_puts put_u64_def
      nbd_read_wire_def puts_puts)

subsection \<open>FromBuffer reads the image\<close>

lemma AMessage_FromBuffer_wire:
  fixes m :: "('a) amessage_scheme" and m0 :: "('b) amessage_scheme"
  assumes mem: "mem = pre @ amessage_wire m @ post" and p: "p = length pre"
  shows "AMessage_FromBuffer m0 mem p =
    Inr (m0\<lparr>m_key := m_key m, m_size := m_size m, m_uid := m_uid m\<rparr>, p + 32)"
proof -
  have 1: "get_u32 mem p = Inr (m_key m, p + 4)"
    by (rule get_u32_at) (simp_all add: mem p amessage_wire_def)
  have 2: "get_u32 mem (p + 4) = Inr (m_size m, p + 4 + 4)"
    by (rule get_u32_at[where pre = "pre @ le_bytes 4 (m_key m)"])
       (simp_all add: mem p amessage_wire_def)
  have 3: "UID_FromBuffer u mem (p + 4 + 4) = Inr (m_uid m, p + 4 + 4 + 24)" for u
    by (rule UID_FromBuffer_wire[where pre = "pre @ le_bytes 4 (m_key m) @ le_bytes 4 (m_size m)"])
       (simp_all add: mem p amessage_wire_def)
  show ?thesis
    unfolding AMessage_FromBuffer_def by (simp only: 1 2 3 bindE_Inr prod.case) simp
qed

lemma read_same_fields:
  "m0\<lparr>m_key := m_key m, m_size := m_size m, m_uid := m_uid m, rd_offset := rd_offset m\<rparr> =
    (m :: read_msg)"
  by simp

lemma CalculateChecksum_at:
  "mem = pre @ body @ post \<Longrightarrow> p = length pre \<Longrightarrow> n = length body \<Longrightarrow>
     CalculateChecksum mem p n = Inr (checksum_loop body 0)"
  by (simp add: CalculateChecksum_def)

lemma ReadMsg_FromBuffer_wire:
  assumes mem: "mem = pre @ read_wire m @ post" and p: "p = length pre"
  shows "ReadMsg_FromBuffer m0 mem p = Inr (m, p + 41)"
proof -
  let ?body = "amessage_wire m @ le_bytes 8 (rd_offset m)"
  note mem = mem[unfolded read_wire_def with_checksum_def]
  have 1: "AMessage_FromBuffer m0 mem p =
      Inr (m0\<lparr>m_key := m_key m, m_size := m_size m, m_uid := m_uid m\<rparr>, p + 32)"
    by (rule AMessage_FromBuffer_wire) (simp_all add: mem p)
  have 2: "get_u64 mem (p + 32) = Inr (rd_offset m, p + 32 + 8)"
    by (rule get_u64_at[where pre = "pre @ amessage_wire m"]) (simp_all add: mem p)
  have 3: "CalculateChecksum mem p (p + 32 + 8 - p) = Inr (checksum_loop ?body 0)"
    by (rule CalculateChecksum_at[where pre = pre]) (simp_all add: mem p)
  have 4: "get_u8 mem (p + 32 + 8) = Inr (checksum_loop ?body 0, p + 32 + 8 + 1)"
    by (rule get_u8_at[where pre = "pre @ ?body"]) (simp_all add: mem p)
  show ?thesis
    unfolding ReadMsg_FromBuffer_def Let_def
    by (simp only: 1 2 3 4 bindE_Inr prod.case NotEqualToCheck_same) simp
qed

lemma WriteMsg_FromBuffer_wire:
  assumes wf: "write_wf m" and mem: "mem = pre @ write_wire m @ post" and p: "p = length pre"
  shows "WriteMsg_FromBuffer m0 mem p = Inr (m, p + (41 + unat (m_size m)))"
proof -
  from wf obtain d where d: "wr_data m = Some d" "length d = unat (m_size m)"
    by (rule carriesE)
  let ?body = "amessage_wire m @ le_bytes 8 (wr_offset m) @ d"
  let ?m1 = "m0\<lparr>m_key := m_key m, m_size := m_size m, m_uid := m_uid m\<rparr>"
  note mem = mem[unfolded write_wire_def with_checksum_def d(1) option.sel]
  have 1: "AMessage_FromBuffer m0 mem p = Inr (?m1, p + 32)"
    by (rule AMessage_FromBuffer_wire) (simp_all add: mem p)
  have 2: "get_u64 mem (p + 32) = Inr (wr_offset m, p + 32 + 8)"
    by (rule get_u64_at[where pre = "pre @ amessage_wire m"]) (simp_all add: mem p)
  have 3: "load mem (p + 32 + 8) (unat (GetSize ?m1)) = Inr d"
    by (rule load_at[where pre = "pre @ amessage_wire m @ le_bytes 8 (wr_offset m)"])
       (simp_all add: mem p d GetSize_def)
  have 4: "CalculateChecksum mem p (p + 32 + 8 + unat (GetSize ?m1) - p) =
      Inr (checksum_loop ?body 0)"
    by (rule CalculateChecksum_at[where pre = pre]) (simp_all add: mem p d GetSize_def)
  have 5: "get_u8 mem (p + 32 + 8 + unat (GetSize ?m1)) =
      Inr (checksum_loop ?body 0, p + 32 + 8 + unat (GetSize ?m1) + 1)"
    by (rule get_u8_at[where pre = "pre @ ?body"]) (simp_all add: mem p d GetSize_def)
  show ?thesis
    unfolding WriteMsg_FromBuffer_def Let_def
    by (simp only: 1 2 3 4 5 bindE_Inr prod.case NotEqualToCheck_same)
       (simp add: GetSize_def d(1)[symmetric])
qed

lemma MinionReadMsg_FromBuffer_wire:
  assumes wf: "minion_read_wf m" and mem: "mem = pre @ minion_read_wire m @ post"
    and p: "p = length pre"
  shows "MinionReadMsg_FromBuffer m0 mem p = Inr (m, p + (33 + unat (m_size m)))"
proof -
  from wf obtain d where d: "mr_data m = Some d" "length d = unat (m_size m)"
    by (rule carriesE)
  let ?m1 = "m0\<lparr>m_key := m_key m, m_size := m_size m, m_uid := m_uid m\<rparr>"
  note mem = mem[unfolded minion_read_wire_def d(1) option.sel]
  have 1: "AMessage_FromBuffer m0 mem p = Inr (?m1, p + 32)"
    by (rule AMessage_FromBuffer_wire) (simp_all add: mem p)
  have 2: "get_bool mem (p + 32) = Inr (mr_is_success m, p + 32 + 1)"
    by (rule get_bool_at[where pre = "pre @ amessage_wire m"]) (simp_all add: mem p)
  have 3: "load mem (p + 32 + 1) (unat (GetSize ?m1)) = Inr d"
    by (rule load_at[where pre = "pre @ amessage_wire m @ [bool_byte (mr_is_success m)]"])
       (simp_all add: mem p d GetSize_def)
  show ?thesis
    unfolding MinionReadMsg_FromBuffer_def
    by (simp only: 1 2 3 bindE_Inr prod.case) (simp add: GetSize_def d(1)[symmetric])
qed

lemma MinionWriteMsg_FromBuffer_wire:
  assumes mem: "mem = pre @ minion_write_wire m @ post" and p: "p = length pre"
  shows "MinionWriteMsg_FromBuffer m0 mem p = Inr (m, p + 33)"
proof -
  note mem = mem[unfolded minion_write_wire_def]
  have 1: "AMessage_FromBuffer m0 mem p =
      Inr (m0\<lparr>m_key := m_key m, m_size := m_size m, m_uid := m_uid m\<rparr>, p + 32)"
    by (rule AMessage_FromBuffer_wire) (simp_all add: mem p)
  have 2: "get_bool mem (p + 32) = Inr (mw_is_success m, p + 32 + 1)"
    by (rule get_bool_at[where pre = "pre @ amessage_wire m"]) (simp_all add: mem p)
  show ?thesis
    unfolding MinionWriteMsg_FromBuffer_def by (simp only: 1 2 bindE_Inr prod.case) simp
qed

lemma NBDWriteMsg_FromBuffer_wire:
  assumes wf: "nbd_write_wf m" and mem: "mem = pre @ nbd_write_wire m @ post" and p: "p = length pre"
  shows "NBDWriteMsg_FromBuffer m0 mem p = Inr (m, p + (40 + unat (m_size m)))"
proof -
  from wf obtain d where d: "nw_data m = Some d" "length d = unat (m_size m)"
    by (rule carriesE)
  let ?m1 = "m0\<lparr>m_key := m_key m, m_size := m_size m, m_uid := m_uid m\<rparr>"
  note mem = mem[unfolded nbd_write_wire_def d(1) option.sel]
  have 1: "AMessage_FromBuffer m0 mem p = Inr (?m1, p + 32)"
    by (rule AMessage_FromBuffer_wire) (simp_all add: mem p)
  have 2: "get_u64 mem (p + 32) = Inr (nw_offset m, p + 32 + 8)"
    by (rule get_u64_at[where pre = "pre @ amessage_wire m"]) (simp_all add: mem p)
  have 3: "load mem (p + 32 + 8) (unat (GetSize ?m1)) = Inr d"
    by (rule load_at[where pre = "pre @ amessage_wire m @ le_bytes 8 (nw_offset m)"])
       (simp_all add: mem p d GetSize_def)
  show ?thesis
    unfolding NBDWriteMsg_FromBuffer_def
    by (simp only: 1 2 3 bindE_Inr prod.case) (simp add: GetSize_def d(1)[symmetric])
qed

lemma NBDReadMsg_FromBuffer_wire:
  assumes mem: "mem = pre @ nbd_read_wire m @ post" and p: "p = length pre"
  shows "NBDReadMsg_FromBuffer m0 mem p = Inr (m, p + 40)"
proof -
  note mem = mem[unfolded nbd_read_wire_def]
  have 1: "AMessage_FromBuffer m0 mem p =
      Inr (m0\<lparr>m_key := m_key m, m_size := m_size m, m_uid := m_uid m\<rparr>, p + 32)"
    by (rule AMessage_FromBuffer_wire) (simp_all add: mem p)
  have 2: "get_u64 mem (p + 32) = Inr (nr_offset m, p + 32 + 8)"
    by (rule get_u64_at[where pre = "pre @ amessage_wire m"]) (simp_all add: mem p)
  show ?thesis
    unfolding NBDReadMsg_FromBuffer_def by (simp only: 1 2 bindE_Inr prod.case) simp
qed

subsection \<open>The six classes are codecs\<close>

interpretation read_codec: wire_codec_end read_wire ReadMsg_ToBuffer ReadMsg_FromBuffer "\<lambda>_. True"
proof (unfold_locales, goal_cases)
  case (1 m c)
  show ?case by (rule writes_puts) (rule ReadMsg_ToBuffer_puts)
next
  case (2 m m0 pre post)
  show ?case using ReadMsg_FromBuffer_wire[OF refl refl] by simp
next
  case (3 m c mem' q)
  then show ?case
    using returns_end_puts[of ReadMsg_ToBuffer m read_wire] by (simp add: ReadMsg_ToBuffer_puts)
qed

interpretation write_codec: wire_codec_end write_wire WriteMsg_ToBuffer WriteMsg_FromBuffer
  "\<lambda>m. write_wf m"
proof (unfold_locales, goal_cases)
  case (1 m c)
  then show ?case by (intro writes_puts) (rule WriteMsg_ToBuffer_puts)
next
  case (2 m m0 pre post)
  then show ?case using WriteMsg_FromBuffer_wire[OF 2 refl refl] by (simp add: length_write_wire)
next
  case (3 m c mem' q)
  then show ?case
    using returns_end_puts[of WriteMsg_ToBuffer m write_wire] by (simp add: WriteMsg_ToBuffer_puts)
qed

interpretation minion_read_codec: wire_codec minion_read_wire MinionReadMsg_ToBuffer
  MinionReadMsg_FromBuffer "\<lambda>m. minion_read_wf m"
proof (unfold_locales, goal_cases)
  case (1 m c)
  then show ?case by (rule MinionReadMsg_ToBuffer_writes)
next
  case (2 m m0 pre post)
  then show ?case
    using MinionReadMsg_FromBuffer_wire[OF 2 refl refl] by (simp add: length_minion_read_wire)
qed

interpretation minion_write_codec: wire_codec_end minion_write_wire MinionWriteMsg_ToBuffer
  MinionWriteMsg_FromBuffer "\<lambda>_. True"
proof (unfold_locales, goal_cases)
  case (1 m c)
  show ?case by (rule writes_puts) (rule MinionWriteMsg_ToBuffer_puts)
next
  case (2 m m0 pre post)
  show ?case using MinionWriteMsg_FromBuffer_wire[OF refl refl] by simp
next
  case (3 m c mem' q)
  then show ?case
    using returns_end_puts[of MinionWriteMsg_ToBuffer m minion_write_wire]
    by (simp add: MinionWriteMsg_ToBuffer_puts)
qed

interpretation nbd_write_codec: wire_codec_end nbd_write_wire NBDWriteMsg_ToBuffer
  NBDWriteMsg_FromBuffer "\<lambda>m. nbd_write_wf m"
proof (unfold_locales, goal_cases)
  case (1 m c)
  then show ?case by (intro writes_puts) (rule NBDWriteMsg_ToBuffer_puts)
next
  case (2 m m0 pre post)
  then show ?case
    using NBDWriteMsg_FromBuffer_wire[OF 2 refl refl] by (simp add: length_nbd_write_wire)
next
  case (3 m c mem' q)
  then show ?case
    using returns_end_puts[of NBDWriteMsg_ToBuffer m nbd_write_wire]
    by (simp add: NBDWriteMsg_ToBuffer_puts)
qed

interpretation nbd_read_codec: wire_codec_end nbd_read_wire NBDReadMsg_ToBuffer
  NBDReadMsg_FromBuffer "\<lambda>_. True"
proof (unfold_locales, goal_cases)
  case (1 m c)
  show ?case by (rule writes_puts) (rule NBDReadMsg_ToBuffer_puts)
next
  case (2 m m0 pre post)
  show ?case using NBDReadMsg_FromBuffer_wire[OF refl refl] by simp
next
  case (3 m c mem' q)
  then show ?case
    using returns_end_puts[of NBDReadMsg_ToBuffer m nbd_read_wire]
    by (simp add: NBDReadMsg_ToBuffer_puts)
qed

subsection \<open>GetBufferSize against the images\<close>

lemma unat_add_ucast32:
  assumes "k < 2 ^ 32"
  shows "unat (of_nat k + ucast (s :: u32) :: u64) = k + unat s"
proof -
  have s: "unat s < 2 ^ 32" using unsigned_less[of s, where ?'a = nat] by simp
  then have "unat (ucast s :: u64) = unat s"
    by (simp add: unsigned_ucast_eq take_bit_nat_eq_self)
  moreover from s assms have "k + unat s < 2 ^ 64" by simp
  ultimately show ?thesis by (simp add: unat_word_ariths unat_of_nat)
qed

lemma unat_WriteMsg_GetBufferSize [size_simps]:
  "unat (WriteMsg_GetBufferSize m) = 41 + unat (m_size m)"
  using unat_add_ucast32[of 41 "m_size m"]
  by (simp add: WriteMsg_GetBufferSize_def AMessage_GetBufferSize_def UID_GetBufferSize_def
      GetSize_def ac_simps)

lemma unat_NBDWriteMsg_GetBufferSize [size_simps]:
  "unat (NBDWriteMsg_GetBufferSize m) = 40 + unat (m_size m)"
  using unat_add_ucast32[of 40 "m_size m"]
  by (simp add: NBDWriteMsg_GetBufferSize_def AMessage_GetBufferSize_def UID_GetBufferSize_def
      GetSize_def ac_simps)

lemma unat_fixed_GetBufferSize [simp, size_simps]:
  "unat ReadMsg_GetBufferSize = 41"
  "unat NBDReadMsg_GetBufferSize = 40"
  "unat MinionReadMsg_GetBufferSize = 33"
  "unat MinionWriteMsg_GetBufferSize = 33"
  by (simp_all add: ReadMsg_GetBufferSize_def NBDReadMsg_GetBufferSize_def
      MinionReadMsg_GetBufferSize_def MinionWriteMsg_GetBufferSize_def
      AMessage_GetBufferSize_def UID_GetBufferSize_def)

subsection \<open>What the checksum detects\<close>

text \<open>Reads inside a buffer succeed whatever the buffer holds.\<close>

lemma get_u32_in: "p + 4 \<le> length mem \<Longrightarrow> get_u32 mem p = Inr (le_word (take 4 (drop p mem)), p + 4)"
  by (simp add: get_u32_def load_def)

lemma get_u64_in: "p + 8 \<le> length mem \<Longrightarrow> get_u64 mem p = Inr (le_word (take 8 (drop p mem)), p + 8)"
  by (simp add: get_u64_def load_def)

lemma get_u8_in: "p < length mem \<Longrightarrow> get_u8 mem p = Inr (mem ! p, p + 1)"
  by (simp add: get_u8_def load_def hd_drop_conv_nth hd_take)

lemma UID_FromBuffer_in:
  assumes "p + 24 \<le> length mem"
  obtains u where "UID_FromBuffer u0 mem p = Inr (u, p + 24)"
  using assms by (simp add: UID_FromBuffer_def get_u32_in get_u64_in)

lemma AMessage_FromBuffer_in:
  fixes m0 :: "('a) amessage_scheme"
  assumes "p + 32 \<le> length mem"
  obtains key u where "AMessage_FromBuffer m0 mem p =
    Inr (m0\<lparr>m_key := key, m_size := le_word (take 4 (drop (p + 4) mem)), m_uid := u\<rparr>, p + 32)"
proof -
  from assms have "p + 8 + 24 \<le> length mem" by simp
  then obtain u where "UID_FromBuffer (m_uid m0) mem (p + 8) = Inr (u, p + 8 + 24)"
    by (rule UID_FromBuffer_in)
  with assms show thesis
    by (intro that[where key = "le_word (take 4 (drop p mem))" and u = u])
       (simp add: AMessage_FromBuffer_def get_u32_in add.commute)
qed

text \<open>
  A request is accepted exactly when all its bytes, the checksum byte included, XOR to zero;
  otherwise \<open>FromBuffer\<close> throws.
\<close>

lemma checksum_split:
  assumes "length mem = Suc n"
  shows "checksum_loop mem 0 = 0 \<longleftrightarrow> mem ! n = checksum_loop (take n mem) 0"
proof -
  have "take (Suc n) mem = take n mem @ [mem ! n]"
    by (rule take_Suc_conv_app_nth) (simp add: assms)
  then have "checksum_loop mem 0 = checksum_loop (take n mem @ [mem ! n]) 0"
    using assms by simp
  then show ?thesis by (simp only: checksum_valid_iff)
qed

lemma ReadMsg_FromBuffer_checks:
  assumes len: "length mem = 41"
  shows "if checksum_loop mem 0 = 0 then \<exists>m. ReadMsg_FromBuffer m0 mem 0 = Inr (m, 41)
         else \<exists>s. ReadMsg_FromBuffer m0 mem 0 = Inl (Runtime_error s)"
proof -
  from len have "0 + 32 \<le> length mem" by simp
  then obtain key u where 1: "AMessage_FromBuffer m0 mem 0 =
      Inr (m0\<lparr>m_key := key, m_size := le_word (take 4 (drop (0 + 4) mem)), m_uid := u\<rparr>, 0 + 32)"
    by (rule AMessage_FromBuffer_in)
  have 2: "CalculateChecksum mem 0 40 = Inr (checksum_loop (take 40 mem) 0)"
    using len by (simp add: CalculateChecksum_def load_def)
  show ?thesis
    using checksum_split[of mem 40] len
    by (auto simp: ReadMsg_FromBuffer_def Let_def 1 2 get_u64_in get_u8_in NotEqualToCheck_differ)
qed

lemma WriteMsg_FromBuffer_checks:
  assumes n: "unat (le_word (take 4 (drop 4 mem)) :: u32) = n" and len: "length mem = 41 + n"
  shows "if checksum_loop mem 0 = 0 then \<exists>m. WriteMsg_FromBuffer m0 mem 0 = Inr (m, length mem)
         else \<exists>s. WriteMsg_FromBuffer m0 mem 0 = Inl (Runtime_error s)"
proof -
  from len have "0 + 32 \<le> length mem" by simp
  then obtain key u where 1: "AMessage_FromBuffer m0 mem 0 =
      Inr (m0\<lparr>m_key := key, m_size := le_word (take 4 (drop (0 + 4) mem)), m_uid := u\<rparr>, 0 + 32)"
    by (rule AMessage_FromBuffer_in)
  have 2: "CalculateChecksum mem 0 (40 + n) = Inr (checksum_loop (take (40 + n) mem) 0)"
    using len by (simp add: CalculateChecksum_def load_def)
  have 3: "load mem 40 n = Inr (take n (drop 40 mem))"
    using len by (simp add: load_def)
  have 4: "get_u8 mem (40 + n) = Inr (mem ! (40 + n), Suc (40 + n))"
    using len by (simp add: get_u8_in)
  show ?thesis
    using checksum_split[of mem "40 + n"] len
    by (auto simp: WriteMsg_FromBuffer_def Let_def 1 2 3 4 n get_u64_in GetSize_def
        NotEqualToCheck_differ)
qed

text \<open>A buffer longer than the message it holds is not overrun either, a shorter one is.\<close>

lemma WriteMsg_FromBuffer_bounds:
  assumes n: "unat (le_word (take 4 (drop 4 mem)) :: u32) = n" and len: "32 \<le> length mem"
  shows "41 + n \<le> length mem \<Longrightarrow> WriteMsg_FromBuffer m0 mem 0 \<noteq> Inl Undefined"
    and "length mem < 40 + n \<Longrightarrow> 40 \<le> length mem \<Longrightarrow> WriteMsg_FromBuffer m0 mem 0 = Inl Undefined"
proof -
  from len have "0 + 32 \<le> length mem" by simp
  then obtain key u where 1: "AMessage_FromBuffer m0 mem 0 =
      Inr (m0\<lparr>m_key := key, m_size := le_word (take 4 (drop (0 + 4) mem)), m_uid := u\<rparr>, 0 + 32)"
    by (rule AMessage_FromBuffer_in)
  show "WriteMsg_FromBuffer m0 mem 0 \<noteq> Inl Undefined" if "41 + n \<le> length mem"
    using that by (auto simp: WriteMsg_FromBuffer_def Let_def 1 n get_u64_in GetSize_def load_def get_u8_in
        CalculateChecksum_def NotEqualToCheck_def NotEqualToCheck_differ)
  show "WriteMsg_FromBuffer m0 mem 0 = Inl Undefined" if "length mem < 40 + n" "40 \<le> length mem"
    using that by (simp add: WriteMsg_FromBuffer_def Let_def 1 n get_u64_in GetSize_def load_def CalculateChecksum_def)
qed

text \<open>The size field occupies bytes 4 to 7 of every image.\<close>

lemma size_field_wire:
  "take 4 (drop 4 (amessage_wire m @ rest)) = le_bytes 4 (m_size m)"
  by (simp add: amessage_wire_def)

lemma size_field_write_wire: "le_word (take 4 (drop 4 (write_wire m))) = m_size m"
  using size_field_wire[of m "le_bytes 8 (wr_offset m) @ the (wr_data m) @
      [checksum_loop (amessage_wire m @ le_bytes 8 (wr_offset m) @ the (wr_data m)) 0]"]
  by (simp add: write_wire_def with_checksum_def)

lemma size_field_update:
  assumes "i < 4 \<or> 8 \<le> i"
  shows "take 4 (drop 4 (bs[i := b])) = take 4 (drop 4 bs)"
  using assms by (auto simp: drop_update_cancel drop_update_swap)

subsection \<open>Properties\<close>

text \<open>
  C11: a write request serialised into a buffer of \<open>GetBufferSize\<close> bytes fills it exactly, and
  \<open>FromBuffer\<close> gives the same message back, whatever object it is called on; a buffer any
  shorter would be overrun.
\<close>

theorem WriteMsg_roundtrip:
  assumes "carries (wr_data m) (m_size m)" and "length mem = unat (WriteMsg_GetBufferSize m)"
  shows "(\<exists>mem'. WriteMsg_ToBuffer m (mem, 0) = Inr (mem', length mem) \<and>
      WriteMsg_FromBuffer m0 mem' 0 = Inr (m, length mem)) \<and>
    WriteMsg_ToBuffer m (butlast mem, 0) = Inl Undefined"
proof -
  have l: "length mem = length (write_wire m)"
    using length_write_wire[OF assms(1)] unat_WriteMsg_GetBufferSize[of m] assms(2) by simp
  have "length (butlast mem) < 0 + length (write_wire m)"
    using l length_write_wire[OF assms(1)] by simp
  then show ?thesis
    using l write_codec.to_buffer_puts[OF assms(1)] write_codec.from_wire[OF assms(1), of m0]
      puts_whole[of mem "write_wire m"] write_codec.to_buffer_overrun[OF assms(1)] by auto
qed

theorem WriteMsg_roundtrip_witness:
  "\<exists>mem'. WriteMsg_ToBuffer (WriteMsg 4096 3 (Some [1, 2, 3]) demo_uid) (replicate 44 0, 0) = Inr (mem', 44) \<and>
     WriteMsg_FromBuffer (WriteMsg 0 0 None demo_uid) mem' 0 = Inr (WriteMsg 4096 3 (Some [1, 2, 3]) demo_uid, 44)"
  using WriteMsg_roundtrip[of "WriteMsg 4096 3 (Some [1, 2, 3]) demo_uid" "replicate 44 0"
      "WriteMsg 0 0 None demo_uid"]
  by (simp add: msg_ctor_defs unat_WriteMsg_GetBufferSize)

text \<open>
  C38: the messages of fixed size (read request, minion's write answer, block device read)
  round-trip through a buffer of exactly \<open>GetBufferSize\<close> bytes, whatever it held.
\<close>

theorem fixed_messages_roundtrip:
  "(length mem = unat ReadMsg_GetBufferSize \<longrightarrow>
     (\<exists>mem'. ReadMsg_ToBuffer r (mem, 0) = Inr (mem', length mem) \<and>
       ReadMsg_FromBuffer r0 mem' 0 = Inr (r, length mem))) \<and>
   (length mem = unat MinionWriteMsg_GetBufferSize \<longrightarrow>
     (\<exists>mem'. MinionWriteMsg_ToBuffer w (mem, 0) = Inr (mem', length mem) \<and>
       MinionWriteMsg_FromBuffer w0 mem' 0 = Inr (w, length mem))) \<and>
   (length mem = unat NBDReadMsg_GetBufferSize \<longrightarrow>
     (\<exists>mem'. NBDReadMsg_ToBuffer n (mem, 0) = Inr (mem', length mem) \<and>
       NBDReadMsg_FromBuffer n0 mem' 0 = Inr (n, length mem)))"
  using read_codec.to_buffer_puts[of r "(mem, 0)"] read_codec.from_wire[of r0 r]
    minion_write_codec.to_buffer_puts[of w "(mem, 0)"] minion_write_codec.from_wire[of w0 w]
    nbd_read_codec.to_buffer_puts[of n "(mem, 0)"] nbd_read_codec.from_wire[of n0 n]
    puts_whole[of mem "read_wire r"] puts_whole[of mem "minion_write_wire w"] puts_whole[of mem "nbd_read_wire n"]
  by auto

theorem fixed_messages_roundtrip_witness:
  "\<exists>mem'. ReadMsg_ToBuffer (ReadMsg 512 64 demo_uid) (replicate 41 9, 0) = Inr (mem', 41) \<and>
     ReadMsg_FromBuffer (ReadMsg 0 0 demo_uid) mem' 0 = Inr (ReadMsg 512 64 demo_uid, 41)"
  using fixed_messages_roundtrip[of "replicate 41 9" "ReadMsg 512 64 demo_uid" "ReadMsg 0 0 demo_uid"]
  by simp

text \<open>
  The answers and block device requests that carry data round-trip at any position of
  any buffer that \<open>ToBuffer\<close> accepts.
\<close>

theorem data_messages_roundtrip:
  "(carries (mr_data r) (m_size r) \<and> MinionReadMsg_ToBuffer r (mem, p) = Inr (mem', q) \<longrightarrow>
     MinionReadMsg_FromBuffer r0 mem' p = Inr (r, p + 33 + unat (m_size r))) \<and>
   (carries (nw_data w) (m_size w) \<and> NBDWriteMsg_ToBuffer w (mem, p) = Inr (mem', q) \<longrightarrow>
     NBDWriteMsg_FromBuffer w0 mem' p = Inr (w, p + 40 + unat (m_size w)))"
  using minion_read_codec.roundtrip[of r mem p mem' q r0] nbd_write_codec.roundtrip[of w mem p mem' q w0]
  by (simp_all add: length_minion_read_wire length_nbd_write_wire ac_simps)

theorem data_messages_roundtrip_witness:
  "\<exists>mem' q. MinionReadMsg_ToBuffer (MinionReadMsg demo_uid True (Some [5, 6]) 2) (replicate 40 0, 3) = Inr (mem', q) \<and>
     MinionReadMsg_FromBuffer (MinionReadMsg demo_uid False None 0) mem' 3 =
       Inr (MinionReadMsg demo_uid True (Some [5, 6]) 2, 38)"
proof -
  let ?r = "MinionReadMsg demo_uid True (Some [5, 6]) 2"
  have wf: "carries (mr_data ?r) (m_size ?r)" and n: "unat (m_size ?r) = 2" by (simp_all add: msg_ctor_defs)
  from minion_read_codec.to_buffer_fits[OF wf, of 3 "replicate 40 0"] length_minion_read_wire[OF wf] n
  obtain mem' q where "MinionReadMsg_ToBuffer ?r (replicate 40 0, 3) = Inr (mem', q)" by auto
  with data_messages_roundtrip[of ?r "replicate 40 0" 3 mem' q "MinionReadMsg demo_uid False None 0"] wf n
  show ?thesis by auto
qed

lemma xor_zero_iff: "(a :: byte) XOR b = 0 \<longleftrightarrow> a = b"
  by (auto simp: bit_eq_iff bit_xor_iff)

lemma xor_same_iff: "(a :: byte) XOR b = a \<longleftrightarrow> b = 0"
  by (auto simp: bit_eq_iff bit_xor_iff)

lemma corrupted_write_rejected:
  assumes wf: "carries (wr_data m) (m_size m)" and i: "i < length (write_wire m)" "i < 4 \<or> 8 \<le> i"
    and b: "b \<noteq> write_wire m ! i"
  shows "\<exists>s. WriteMsg_FromBuffer m0 ((write_wire m)[i := b]) 0 = Inl (Runtime_error s)"
proof -
  let ?w = "write_wire m" and ?e = "write_wire m ! i XOR b"
  have "?w ! i XOR ?e = b" by (simp add: xor.assoc[symmetric])
  then have "checksum_loop (?w[i := b]) 0 = checksum_loop ?w 0 XOR ?e"
    using checksum_update[OF i(1), of ?e] by simp
  moreover have "checksum_loop ?w 0 = 0" by (simp add: write_wire_def)
  moreover have "?e \<noteq> 0" using b by (simp add: xor_zero_iff)
  ultimately have bad: "checksum_loop (?w[i := b]) 0 \<noteq> 0" by simp
  have size: "unat (le_word (take 4 (drop 4 (?w[i := b]))) :: u32) = unat (m_size m)"
    using size_field_update[OF i(2), of ?w b] size_field_write_wire[of m] by simp
  have "length (?w[i := b]) = 41 + unat (m_size m)" using length_write_wire[OF wf] by simp
  from WriteMsg_FromBuffer_checks[OF size this, of m0] bad show ?thesis by simp
qed

text \<open>
  C21: a write request whose image was changed in any one byte outside the size field is
  rejected with an exception by the checksum; none is taken for a valid request.
\<close>

theorem WriteMsg_corruption_detected:
  assumes wf: "carries (wr_data m) (m_size m)" and i: "i < length (write_wire m)" "i < 4 \<or> 8 \<le> i"
    and b: "b \<noteq> write_wire m ! i"
  shows "\<exists>s. WriteMsg_FromBuffer m0 ((write_wire m)[i := b]) 0 = Inl (Runtime_error s)"
  using assms by (rule corrupted_write_rejected)

theorem WriteMsg_corruption_detected_witness:
  "\<exists>s. WriteMsg_FromBuffer (WriteMsg 0 0 None demo_uid)
     (let w = write_wire (WriteMsg 4096 3 (Some [1, 2, 3]) demo_uid) in w[40 := w ! 40 XOR 1]) 0 = Inl (Runtime_error s)"
  unfolding Let_def
proof (rule WriteMsg_corruption_detected)
  let ?m = "WriteMsg 4096 3 (Some [1, 2, 3]) demo_uid"
  show wf: "carries (wr_data ?m) (m_size ?m)" by (simp add: msg_ctor_defs)
  show "40 < length (write_wire ?m)" using length_write_wire[OF wf] by simp
  show "write_wire ?m ! 40 XOR 1 \<noteq> write_wire ?m ! 40"
    by (simp add: xor_same_iff)
qed simp

text \<open>
  A read request is accepted by \<open>FromBuffer\<close> exactly when its 41 bytes XOR to zero, and
  otherwise rejected with an exception: every single corrupted byte is detected, two equal
  errors in two bytes are not.
\<close>

theorem ReadMsg_accepted_iff:
  assumes "length mem = 41"
  shows "(if checksum_loop mem 0 = 0 then \<exists>m. ReadMsg_FromBuffer m0 mem 0 = Inr (m, 41)
          else \<exists>s. ReadMsg_FromBuffer m0 mem 0 = Inl (Runtime_error s)) \<and>
    (\<forall>i < 41. \<forall>e. checksum_loop (mem[i := mem ! i XOR e]) 0 = checksum_loop mem 0 XOR e) \<and>
    (\<forall>i < 41. \<forall>j < 41. i \<noteq> j \<longrightarrow>
      (\<forall>e. checksum_loop (mem[i := mem ! i XOR e, j := mem ! j XOR e]) 0 = checksum_loop mem 0))"
proof (intro conjI allI impI)
  fix i j :: nat and e assume ij: "i < 41" "j < 41" "i \<noteq> j"
  then show "checksum_loop (mem[i := mem ! i XOR e, j := mem ! j XOR e]) 0 = checksum_loop mem 0"
    using assms checksum_update[of j "mem[i := mem ! i XOR e]" e] checksum_update[of i mem e]
    by (simp add: xor.assoc)
qed (use ReadMsg_FromBuffer_checks[OF assms, of m0] assms checksum_update in simp_all)

theorem ReadMsg_accepted_iff_witness:
  "\<exists>s. ReadMsg_FromBuffer (ReadMsg 0 0 demo_uid) (1 # replicate 40 0) 0 = Inl (Runtime_error s)"
proof -
  have "checksum_loop (1 # replicate 40 0) 0 \<noteq> 0" by code_simp
  with ReadMsg_accepted_iff[of "1 # replicate 40 0" "ReadMsg 0 0 demo_uid"] show ?thesis by simp
qed

end
