(* ===== verification/Sockets.thy ===== *)
theory Sockets
  imports Uid
begin

text \<open>
  The data path of \<open>UDPSocket\<close> and \<open>TCPSocket\<close> (\<open>include/socket.hpp\<close>, \<open>src/socket.cpp\<close>):
  \<open>Send\<close>, \<open>Recive\<close> and \<open>Response\<close>. What has arrived at a UDP socket is a list of
  datagrams, at a TCP socket the bytes in the receive buffer. Sizes are passed as \<open>int\<close> and
  reach the system calls as \<open>size_t\<close>, so a 64-bit size above \<open>INT_MAX\<close> is narrowed, and a
  negative one becomes huge. Creating, binding and connecting sockets is in \<open>Socket_Setup\<close>.
\<close>

type_synonym datagram = "byte list"

definition int_of_u64 :: "u64 \<Rightarrow> int" where
  "int_of_u64 n = sint (ucast n :: u32)"

definition size_t_of_int :: "int \<Rightarrow> nat" where
  "size_t_of_int n = nat (n mod 2 ^ 64)"

subsection \<open>UDP\<close>

text \<open>
  \<open>sendto\<close> refuses a datagram that is too long, and \<open>Send\<close> ignores its result: the
  datagram is then not sent (\<open>None\<close>).
\<close>

definition UDPSocket_Send :: "host \<Rightarrow> byte list \<Rightarrow> int \<Rightarrow> datagram option result" where
  "UDPSocket_Send h buffer size_to_send =
     (let n = size_t_of_int size_to_send
      in if h_udp_max h < n then Inr None
         else bindE (load buffer 0 n) (\<lambda>d. Inr (Some d)))"

text \<open>
  \<open>recvfrom\<close> copies one datagram, cut to the size asked for, into the buffer; the rest of the
  buffer keeps what it held. With \<open>MSG_PEEK\<close> the datagram stays in the queue.
\<close>

definition UDPSocket_Recive ::
    "byte list \<Rightarrow> int \<Rightarrow> bool \<Rightarrow> datagram list \<Rightarrow> (byte list \<times> datagram list) result" where
  "UDPSocket_Recive buffer size_to_read peek queue =
     (case queue of
        [] \<Rightarrow> Inl Blocked
      | d # rest \<Rightarrow>
          bindE (store buffer 0 (take (size_t_of_int size_to_read) d)) (\<lambda>buffer.
            Inr (buffer, if peek then queue else rest)))"

text \<open>\<open>UDPSocket::Response\<close> sends the text \<open>pong\<close> whatever it is given.\<close>

definition UDPSocket_Response :: "byte list \<Rightarrow> int \<Rightarrow> datagram" where
  "UDPSocket_Response buffer size_to_write = map (\<lambda>c. of_char c) ''pong''"

subsection \<open>TCP\<close>

definition tcp_send_loc :: loc where
  "tcp_send_loc = Loc ''socket.cpp'' ''virtual void TCPSocket::Send(const char*, int, int)'' 218"

definition tcp_recv_loc :: loc where
  "tcp_recv_loc = Loc ''socket.cpp'' ''virtual void TCPSocket::Recive(void*, int, int)'' 240"

text \<open>The bytes that enter the stream: \<open>send\<close> may take fewer than offered; only an error is checked.\<close>

definition TCPSocket_Send :: "host \<Rightarrow> byte list \<Rightarrow> int \<Rightarrow> byte list result" where
  "TCPSocket_Send h buffer size_to_send =
     bindE (load buffer 0 (size_t_of_int size_to_send)) (\<lambda>d.
     let byts_sent = h_send h (length d)
     in bindE (snd (NegativeCheck byts_sent ''TCP send'' tcp_send_loc)) (\<lambda>_.
          Inr (take (nat byts_sent) d)))"

text \<open>
  \<open>recv\<close> returns what is there, up to the size asked for: it may be less than a message.
  The connection is open, so an empty receive buffer blocks. It is assumed of the kernel that
  \<open>recv\<close> is not cut short of what is there; and the models that put a message into the receive
  buffer in one step assume that it has arrived whole when the reader looks, which TCP does not
  promise, though these messages stay on the loopback interface.
\<close>

definition TCPSocket_Recive ::
    "byte list \<Rightarrow> int \<Rightarrow> bool \<Rightarrow> byte list \<Rightarrow> (byte list \<times> byte list) result" where
  "TCPSocket_Recive buffer size_to_read peek rx =
     (if rx = [] then Inl Blocked
      else
        let got = take (size_t_of_int size_to_read) rx
        in bindE (store buffer 0 got) (\<lambda>buffer.
           bindE (snd (NegativeCheck (int (length got)) ''TCP read'' tcp_recv_loc)) (\<lambda>_.
             Inr (buffer, if peek then rx else drop (length got) rx))))"

definition TCPSocket_Response :: "byte list \<Rightarrow> int \<Rightarrow> byte list result" where
  "TCPSocket_Response buffer size_to_write = load buffer 0 (size_t_of_int size_to_write)"

subsection \<open>Sizes that fit in an int\<close>

lemma int_of_u64_small:
  assumes "unat n < 2 ^ 31"
  shows "int_of_u64 n = int (unat n)"
proof -
  have "sint (ucast n :: u32) = signed_take_bit 31 (uint n)"
    by (simp add: signed_ucast_eq)
  also have "\<dots> = uint n"
  proof (rule signed_take_bit_int_eq_self)
    show "- (2 ^ 31) \<le> uint n" by (rule order_trans[of _ 0]) simp_all
    from assms have "int (unat n) < int (2 ^ 31)" by (simp only: of_nat_less_iff)
    then show "uint n < 2 ^ 31" by simp
  qed
  finally show ?thesis by (simp add: int_of_u64_def)
qed

lemma size_t_of_int_nat: "n < 2 ^ 63 \<Longrightarrow> size_t_of_int (int n) = n"
  by (simp add: size_t_of_int_def)

lemma size_t_small: "unat n < 2 ^ 31 \<Longrightarrow> size_t_of_int (int_of_u64 n) = unat n"
  unfolding int_of_u64_small by (rule size_t_of_int_nat) simp

lemma UDPSocket_Send_whole:
  assumes "size_t_of_int n = length buffer" and "length buffer \<le> h_udp_max h"
  shows "UDPSocket_Send h buffer n = Inr (Some buffer)"
  using assms by (simp add: UDPSocket_Send_def Let_def)

lemma UDPSocket_Recive_whole:
  assumes "size_t_of_int n = length buffer" and "length d = length buffer"
  shows "UDPSocket_Recive buffer n False (d # queue) = Inr (d, queue)"
  using assms by (simp add: UDPSocket_Recive_def store_def)

text \<open>Peeking at the first \<open>k\<close> bytes of a datagram, or of a stream, that is long enough.\<close>

lemma UDPSocket_Recive_peek:
  assumes "size_t_of_int n = length buffer" and "length buffer \<le> length d"
  shows "UDPSocket_Recive buffer n True (d # queue) = Inr (take (length buffer) d, d # queue)"
  using assms by (simp add: UDPSocket_Recive_def store_def)

lemma TCPSocket_Recive_peek:
  assumes "size_t_of_int n = length buffer" and "length buffer \<le> length rx" and "buffer \<noteq> []"
  shows "TCPSocket_Recive buffer n True rx = Inr (take (length buffer) rx, rx)"
  using assms by (auto simp: TCPSocket_Recive_def store_def Let_def)

lemma TCPSocket_Recive_whole:
  assumes "size_t_of_int n = length buffer" and "length d = length buffer" and "buffer \<noteq> []"
  shows "TCPSocket_Recive buffer n False (d @ rx) = Inr (d, rx)"
  using assms by (auto simp: TCPSocket_Recive_def store_def Let_def)

lemma TCPSocket_Send_whole:
  assumes "size_t_of_int n = length buffer" and "h_send h (length buffer) = int (length buffer)"
  shows "TCPSocket_Send h buffer n = Inr buffer"
  using assms by (simp add: TCPSocket_Send_def Let_def)

end
