(* ===== verification/Response_Manager.thy ===== *)
theory Response_Manager
  imports Uid
begin

text \<open>
  \<open>ResponseManeger\<close> (\<open>include/response_manger.hpp\<close>, \<open>src/response_manger.cpp\<close>): the watch list
  that says which outstanding commands have been answered. \<open>m_watchlist\<close> is an
  \<open>unordered_map\<close>, so \<open>operator[]\<close> inserts \<open>Status(0) = PROCESSING_REQUEST\<close> for a key
  that is absent, in \<open>HasResponseRecived\<close> too.
\<close>

datatype status = PROCESSING_REQUEST | DONE

type_synonym watchlist = "u32 \<rightharpoonup> status"

definition subscript :: "watchlist \<Rightarrow> u32 \<Rightarrow> status \<times> watchlist" where
  "subscript m key =
     (case m key of Some s \<Rightarrow> (s, m) | None \<Rightarrow> (PROCESSING_REQUEST, m(key \<mapsto> PROCESSING_REQUEST)))"

text \<open>The counter is the process-wide one of \<open>ThreadSafeUID\<close>.\<close>

definition RegisterCommand :: "host \<Rightarrow> u32 \<Rightarrow> watchlist \<Rightarrow> (uid \<times> u32 \<times> watchlist) result" where
  "RegisterCommand h counter m =
     bindE (ThreadSafeUID h counter) (\<lambda>(uid, counter).
       let key = GetUniqueCounter uid
       in Inr (uid, counter, m(key \<mapsto> PROCESSING_REQUEST)))"

definition RegisterResponse :: "uid \<Rightarrow> watchlist \<Rightarrow> watchlist" where
  "RegisterResponse uid m = (let key = GetUniqueCounter uid in m(key \<mapsto> DONE))"

definition HasResponseRecived :: "uid \<Rightarrow> watchlist \<Rightarrow> bool \<times> watchlist" where
  "HasResponseRecived uid m =
     (let key = GetUniqueCounter uid; (s, m) = subscript m key
      in if s = DONE then (True, m(key := None)) else (False, m))"

subsection \<open>The abstract tracker: the set of answered identifiers\<close>

definition answered :: "watchlist \<Rightarrow> u32 set" where
  "answered m = {k. m k = Some DONE}"

text \<open>
  The contract of a response tracker over its abstraction \<open>view\<close>: a response enters its
  key, a successful query consumes it, an unsuccessful one changes nothing.
\<close>

locale response_tracker =
  fixes respond :: "'u \<Rightarrow> 'w \<Rightarrow> 'w"
    and ask :: "'u \<Rightarrow> 'w \<Rightarrow> bool \<times> 'w"
    and key :: "'u \<Rightarrow> 'k"
    and view :: "'w \<Rightarrow> 'k set"
  assumes view_respond: "view (respond u w) = insert (key u) (view w)"
    and ask_result: "fst (ask u w) \<longleftrightarrow> key u \<in> view w"
    and view_ask: "view (snd (ask u w)) = view w - {key u}"
begin

lemma ask_after_respond: "fst (ask u (respond u w))"
  by (simp add: ask_result view_respond)

lemma ask_once: "\<not> fst (ask u (snd (ask u w)))"
  by (simp add: ask_result view_ask)

lemma ask_other: "key v \<noteq> key u \<Longrightarrow> fst (ask v (snd (ask u w))) = fst (ask v w)"
  by (simp add: ask_result view_ask)

text \<open>A run of responses and queries; the results of the queries of \<open>u\<close>, in order.\<close>

fun events :: "'w \<Rightarrow> (bool \<times> 'u) list \<Rightarrow> 'w" where
  "events w [] = w"
| "events w ((is_response, u) # es) =
     events (if is_response then respond u w else snd (ask u w)) es"

lemma never_answered:
  assumes "key u \<notin> view w" and "\<forall>v. (True, v) \<in> set es \<longrightarrow> key v \<noteq> key u"
  shows "key u \<notin> view (events w es)"
  using assms
proof (induction es arbitrary: w)
  case Nil
  then show ?case by simp
next
  case (Cons e es)
  obtain r v where e: "e = (r, v)" by (cases e)
  let ?w = "if r then respond v w else snd (ask v w)"
  from Cons.prems have "key u \<notin> view ?w"
    by (auto simp: e view_respond view_ask)
  moreover from Cons.prems have "\<forall>v. (True, v) \<in> set es \<longrightarrow> key v \<noteq> key u" by simp
  ultimately show ?case using Cons.IH[of ?w] by (simp add: e)
qed

end

interpretation rm: response_tracker RegisterResponse HasResponseRecived GetUniqueCounter answered
proof (unfold_locales, goal_cases)
  case (1 u w)
  show ?case by (auto simp: RegisterResponse_def answered_def Let_def)
next
  case (2 u w)
  show ?case
    by (auto simp: HasResponseRecived_def subscript_def answered_def Let_def split: option.splits)
next
  case (3 u w)
  show ?case
    by (auto simp: HasResponseRecived_def subscript_def answered_def Let_def
        split: option.splits if_splits)
qed

lemma RegisterCommand_InrD:
  assumes "RegisterCommand h c m = Inr (u, c', m')"
  shows "m_unique_counter u = c" and "c' = c + 1" and "m' = m(c \<mapsto> PROCESSING_REQUEST)"
    and "ThreadSafeUID h c = Inr (u, c')"
proof -
  from assms obtain u1 c1 where t: "ThreadSafeUID h c = Inr (u1, c1)"
    and e: "u = u1" "c' = c1" "m' = m(m_unique_counter u1 \<mapsto> PROCESSING_REQUEST)"
    by (auto simp: RegisterCommand_def Let_def GetUniqueCounter_def bindE_eq_Inr_iff)
  from t e show "ThreadSafeUID h c = Inr (u, c')" by simp
  from ThreadSafeUID_InrD[OF t] e
  show "m_unique_counter u = c" and "c' = c + 1" and "m' = m(c \<mapsto> PROCESSING_REQUEST)"
    by auto
qed

lemma answered_RegisterCommand:
  "RegisterCommand h c m = Inr (u, c', m') \<Longrightarrow> answered m' = answered m - {c}"
  by (auto dest!: RegisterCommand_InrD(3) simp: answered_def split: if_splits)

subsection \<open>Properties\<close>

text \<open>
  A registered response is reported exactly once, to the identifier it names: the query
  after it succeeds, the one after that fails, and no other identifier's query changes.
\<close>

theorem response_reported_once:
  "fst (HasResponseRecived u (RegisterResponse u w)) \<and>
   \<not> fst (HasResponseRecived u (snd (HasResponseRecived u w))) \<and>
   (GetUniqueCounter v \<noteq> GetUniqueCounter u \<longrightarrow>
     fst (HasResponseRecived v (snd (HasResponseRecived u w))) = fst (HasResponseRecived v w) \<and>
     fst (HasResponseRecived v (RegisterResponse u w)) = fst (HasResponseRecived v w))"
  using rm.ask_after_respond rm.ask_once rm.ask_other
  by (simp add: rm.ask_result rm.view_respond)

theorem response_reported_once_witness:
  "\<not> fst (HasResponseRecived (demo_uid\<lparr>m_unique_counter := 8\<rparr>) (RegisterResponse demo_uid Map.empty))"
  using response_reported_once[of demo_uid Map.empty "demo_uid\<lparr>m_unique_counter := 8\<rparr>"]
  by (simp add: demo_uid_def GetUniqueCounter_def HasResponseRecived_def subscript_def Let_def)

text \<open>
  Asking about an identifier nobody registered answers no, and leaves an entry for it
  behind: the subscript of the map inserts it.
\<close>

lemma query_of_unknown_leaks:
  assumes "w (GetUniqueCounter u) = None"
  shows "HasResponseRecived u w = (False, w(GetUniqueCounter u \<mapsto> PROCESSING_REQUEST))"
  using assms by (simp add: HasResponseRecived_def subscript_def Let_def)

end
