(* ===== verification/Raid01.thy ===== *)
theory Raid01
  imports Prelude
begin

text \<open>
  \<open>Raid01\<close> (\<open>include/raid01.hpp\<close>, \<open>src/raid01.cpp\<close>): which two minions hold a byte of the
  device, and where. The device is three stripes of \<open>MINION_SIZE\<close> bytes; minion \<open>i\<close> keeps
  stripe \<open>i\<close> in the lower half of its file and the backup of stripe \<open>i - 1\<close> in the upper.
\<close>

definition KB :: nat where "KB = 1024"
definition MB :: nat where "MB = 1024 * KB"
definition MINION_SIZE :: nat where "MINION_SIZE = 4 * MB"

lemmas size_consts = KB_def MB_def MINION_SIZE_def

definition UDP_PORT_MINION_1 :: string where "UDP_PORT_MINION_1 = ''7070''"
definition UDP_PORT_MINION_2 :: string where "UDP_PORT_MINION_2 = ''7080''"
definition UDP_PORT_MINION_3 :: string where "UDP_PORT_MINION_3 = ''7090''"

lemmas port_defs = UDP_PORT_MINION_1_def UDP_PORT_MINION_2_def UDP_PORT_MINION_3_def

text \<open>A \<open>MinionProxy\<close>: where its socket sends.\<close>

record minion_proxy =
  mp_port :: string
  mp_ip :: string

definition Raid01_ctor :: "minion_proxy list" where
  "Raid01_ctor =
     [\<lparr>mp_port = UDP_PORT_MINION_1, mp_ip = ''127.0.1.1''\<rparr>,
      \<lparr>mp_port = UDP_PORT_MINION_2, mp_ip = ''127.0.1.1''\<rparr>,
      \<lparr>mp_port = UDP_PORT_MINION_3, mp_ip = ''127.0.1.1''\<rparr>]"

text \<open>
  \<open>operator[]\<close> of a \<open>std::vector\<close> is unchecked: an index outside is undefined behaviour.
  All arithmetic is in \<open>u_int64_t\<close> / \<open>size_t\<close>.
\<close>

definition vector_at :: "'a list \<Rightarrow> u64 \<Rightarrow> 'a result" where
  "vector_at v i = (if unat i < length v then Inr (v ! unat i) else Inl Undefined)"

definition OffsetToProxy :: "minion_proxy list \<Rightarrow> u64 \<Rightarrow> (minion_proxy \<times> u64) list result" where
  "OffsetToProxy v offset =
     (let minion_idx = offset div of_nat MINION_SIZE;
          minion_offset = offset mod of_nat MINION_SIZE
      in bindE (vector_at v minion_idx) (\<lambda>primary.
         bindE (vector_at v ((minion_idx + 1) mod 3)) (\<lambda>backup.
           Inr [(primary, minion_offset), (backup, minion_offset + of_nat MINION_SIZE)])))"

subsection \<open>Placement as a contract\<close>

text \<open>
  The placement of every byte, on natural numbers: two copies on two different nodes, no
  two bytes share a cell, and inside a stripe a run of bytes is a run of cells.
\<close>

locale replica_placement =
  fixes capacity :: nat
    and stripe :: nat
    and primary :: "nat \<Rightarrow> nat \<times> nat"
    and backup :: "nat \<Rightarrow> nat \<times> nat"
  assumes nodes_differ: "off < capacity \<Longrightarrow> fst (primary off) \<noteq> fst (backup off)"
    and primary_inject: "off < capacity \<Longrightarrow> off' < capacity \<Longrightarrow> primary off = primary off' \<Longrightarrow> off = off'"
    and backup_inject: "off < capacity \<Longrightarrow> off' < capacity \<Longrightarrow> backup off = backup off' \<Longrightarrow> off = off'"
    and halves_disjoint: "off < capacity \<Longrightarrow> off' < capacity \<Longrightarrow> primary off \<noteq> backup off'"
    and primary_run: "off mod stripe + i < stripe \<Longrightarrow>
          primary (off + i) = (fst (primary off), snd (primary off) + i)"
    and backup_run: "off mod stripe + i < stripe \<Longrightarrow>
          backup (off + i) = (fst (backup off), snd (backup off) + i)"
begin

text \<open>
  The cells of all nodes, one byte per cell. A mirrored write changes the two runs of cells
  that start at the placement of its first byte.
\<close>

definition put_run :: "(nat \<times> nat \<Rightarrow> 'b) \<Rightarrow> nat \<times> nat \<Rightarrow> 'b list \<Rightarrow> nat \<times> nat \<Rightarrow> 'b" where
  "put_run cells at data = (\<lambda>(n, a).
     if n = fst at \<and> snd at \<le> a \<and> a < snd at + length data then data ! (a - snd at)
     else cells (n, a))"

definition mirror_write :: "(nat \<times> nat \<Rightarrow> 'b) \<Rightarrow> nat \<Rightarrow> 'b list \<Rightarrow> nat \<times> nat \<Rightarrow> 'b" where
  "mirror_write cells off data = put_run (put_run cells (primary off) data) (backup off) data"

definition device :: "(nat \<times> nat \<Rightarrow> 'b) \<Rightarrow> nat \<Rightarrow> 'b" where
  "device cells off = cells (primary off)"

definition mirrored :: "(nat \<times> nat \<Rightarrow> 'b) \<Rightarrow> bool" where
  "mirrored cells \<longleftrightarrow> (\<forall>off < capacity. cells (primary off) = cells (backup off))"

definition in_stripe :: "nat \<Rightarrow> nat \<Rightarrow> bool" where
  "in_stripe off n \<longleftrightarrow> off + n \<le> capacity \<and> (n = 0 \<or> off mod stripe + n \<le> stripe)"

lemma put_run_hit:
  assumes "i < length data"
  shows "put_run cells at data (fst at, snd at + i) = data ! i"
  using assms by (simp add: put_run_def)

lemma put_run_cases:
  "put_run cells at data c = cells c \<or>
    (\<exists>i < length data. c = (fst at, snd at + i) \<and> put_run cells at data c = data ! i)"
proof (cases "fst c = fst at \<and> snd at \<le> snd c \<and> snd c < snd at + length data")
  case True
  then have "c = (fst at, snd at + (snd c - snd at))" and "snd c - snd at < length data"
    by (auto simp: prod_eq_iff)
  with True show ?thesis by (auto simp: put_run_def split_beta)
next
  case False
  then show ?thesis by (auto simp: put_run_def split_beta)
qed

lemma put_run_miss:
  "(\<And>i. i < length data \<Longrightarrow> c \<noteq> (fst at, snd at + i)) \<Longrightarrow> put_run cells at data c = cells c"
  using put_run_cases[of cells at data c] by blast

text \<open>Inside a stripe, the cells of the run are the placements of the bytes written.\<close>

lemma run_placements:
  assumes "in_stripe off n" and "i < n"
  shows "primary (off + i) = (fst (primary off), snd (primary off) + i)"
    and "backup (off + i) = (fst (backup off), snd (backup off) + i)"
    and "off + i < capacity"
  using assms by (auto simp: in_stripe_def intro!: primary_run backup_run)

lemma mirror_write_primary:
  assumes s: "in_stripe off (length data)" and o': "off' < capacity"
  shows "mirror_write cells off data (primary off') =
    (if off \<le> off' \<and> off' < off + length data then data ! (off' - off) else cells (primary off'))"
proof -
  have b: "put_run (put_run cells (primary off) data) (backup off) data (primary off') =
      put_run cells (primary off) data (primary off')"
  proof (rule put_run_miss)
    fix i assume i: "i < length data"
    show "primary off' \<noteq> (fst (backup off), snd (backup off) + i)"
      using halves_disjoint[OF o' run_placements(3)[OF s i]] run_placements(2)[OF s i] by simp
  qed
  show ?thesis
  proof (cases "off \<le> off' \<and> off' < off + length data")
    case True
    then obtain i where i: "i < length data" and off': "off' = off + i"
      by (metis add_less_cancel_left le_Suc_ex)
    then show ?thesis
      using b run_placements(1)[OF s i] put_run_hit[OF i, of cells "primary off"]
      by (simp add: mirror_write_def)
  next
    case False
    have "put_run cells (primary off) data (primary off') = cells (primary off')"
    proof (rule put_run_miss)
      fix i assume i: "i < length data"
      with False have "off' \<noteq> off + i" by auto
      then show "primary off' \<noteq> (fst (primary off), snd (primary off) + i)"
        using primary_inject[OF o' run_placements(3)[OF s i]] run_placements(1)[OF s i] by auto
    qed
    with False show ?thesis by (auto simp: mirror_write_def b)
  qed
qed

lemma mirror_write_backup:
  assumes s: "in_stripe off (length data)" and o': "off' < capacity"
  shows "mirror_write cells off data (backup off') =
    (if off \<le> off' \<and> off' < off + length data then data ! (off' - off) else cells (backup off'))"
proof (cases "off \<le> off' \<and> off' < off + length data")
  case True
  then obtain i where i: "i < length data" and off': "off' = off + i"
    by (metis add_less_cancel_left le_Suc_ex)
  then show ?thesis
    unfolding mirror_write_def off' using run_placements(2)[OF s i] put_run_hit[OF i] by simp
next
  case False
  have "put_run (put_run cells (primary off) data) (backup off) data (backup off') =
      put_run cells (primary off) data (backup off')"
  proof (rule put_run_miss)
    fix i assume i: "i < length data"
    with False have "off' \<noteq> off + i" by auto
    then show "backup off' \<noteq> (fst (backup off), snd (backup off) + i)"
      using backup_inject[OF o' run_placements(3)[OF s i]] run_placements(2)[OF s i] by auto
  qed
  moreover have "put_run cells (primary off) data (backup off') = cells (backup off')"
  proof (rule put_run_miss)
    fix i assume i: "i < length data"
    show "backup off' \<noteq> (fst (primary off), snd (primary off) + i)"
      using halves_disjoint[OF run_placements(3)[OF s i] o'] run_placements(1)[OF s i] by auto
  qed
  ultimately show ?thesis using False by (auto simp: mirror_write_def)
qed

lemma mirror_write_mirrored:
  "mirrored cells \<Longrightarrow> in_stripe off (length data) \<Longrightarrow> mirrored (mirror_write cells off data)"
  by (simp add: mirrored_def mirror_write_primary mirror_write_backup)

lemma mirror_write_device:
  "in_stripe off (length data) \<Longrightarrow> off' < capacity \<Longrightarrow>
     device (mirror_write cells off data) off' =
       (if off \<le> off' \<and> off' < off + length data then data ! (off' - off) else device cells off')"
  by (simp add: device_def mirror_write_primary)

end

subsection \<open>The program's placement\<close>

definition raid_capacity :: nat where
  "raid_capacity = 3 * MINION_SIZE"

definition raid_primary :: "nat \<Rightarrow> nat \<times> nat" where
  "raid_primary off = (off div MINION_SIZE, off mod MINION_SIZE)"

definition raid_backup :: "nat \<Rightarrow> nat \<times> nat" where
  "raid_backup off = ((off div MINION_SIZE + 1) mod 3, off mod MINION_SIZE + MINION_SIZE)"

lemma MINION_SIZE_val: "MINION_SIZE = 4194304"
  by (simp add: size_consts)

lemma raid_capacity_val: "raid_capacity = 12582912"
  by (simp add: raid_capacity_def MINION_SIZE_val)

lemma raid_node_bound: "off < raid_capacity \<Longrightarrow> off div MINION_SIZE < 3"
  by (simp add: raid_capacity_val MINION_SIZE_val)

lemma succ_mod3_inject:
  "(a::nat) < 3 \<Longrightarrow> b < 3 \<Longrightarrow> (a + 1) mod 3 = (b + 1) mod 3 \<Longrightarrow> a = b"
  by presburger

lemma succ_mod3_differs: "(a::nat) < 3 \<Longrightarrow> a \<noteq> (a + 1) mod 3"
  by presburger

lemma div_mod_inject: "(a::nat) div k = b div k \<Longrightarrow> a mod k = b mod k \<Longrightarrow> a = b"
  by (metis div_mult_mod_eq)

lemma stripe_run:
  assumes r: "off mod k + i < (k::nat)"
  shows "(off + i) div k = off div k \<and> (off + i) mod k = off mod k + i"
proof -
  let ?r = "off mod k + i"
  have e: "off + i = ?r + off div k * k"
    using div_mult_mod_eq[of off k] by linarith
  from r have "k \<noteq> 0" by simp
  then have "(?r + off div k * k) div k = off div k + ?r div k" by (rule div_mult_self1)
  moreover have "(?r + off div k * k) mod k = ?r mod k" by (rule mod_mult_self1)
  ultimately show ?thesis unfolding e[symmetric] using r by simp
qed

interpretation raid: replica_placement raid_capacity MINION_SIZE raid_primary raid_backup
proof (unfold_locales, goal_cases)
  case (1 off)
  then show ?case
    using succ_mod3_differs[OF raid_node_bound] by (simp add: raid_primary_def raid_backup_def)
next
  case (2 off off')
  then show ?case by (auto simp: raid_primary_def intro: div_mod_inject)
next
  case (3 off off')
  then show ?case
    using succ_mod3_inject[OF raid_node_bound raid_node_bound]
    by (auto simp: raid_backup_def intro: div_mod_inject)
next
  case (4 off off')
  have "off mod MINION_SIZE < MINION_SIZE" by (simp add: MINION_SIZE_val)
  then show ?case by (auto simp: raid_primary_def raid_backup_def)
next
  case (5 off i)
  then show ?case using stripe_run[OF 5] by (simp add: raid_primary_def)
next
  case (6 off i)
  then show ?case using stripe_run[OF 6] by (simp add: raid_backup_def)
qed

lemma unat_MINION_SIZE [simp]: "unat (of_nat MINION_SIZE :: u64) = MINION_SIZE"
  by (simp add: MINION_SIZE_val unat_of_nat)

lemma unat_div_MINION_SIZE: "unat (off div of_nat MINION_SIZE :: u64) = unat off div MINION_SIZE"
  by (simp add: unat_div)

lemma unat_mod_MINION_SIZE: "unat (off mod of_nat MINION_SIZE :: u64) = unat off mod MINION_SIZE"
  by (simp add: unat_mod)

lemma unat_backup_idx:
  assumes "unat off < raid_capacity"
  shows "unat ((off div of_nat MINION_SIZE + 1) mod 3 :: u64) = (unat off div MINION_SIZE + 1) mod 3"
proof -
  have "unat off div MINION_SIZE < 3" using assms by (rule raid_node_bound)
  then have "unat (off div of_nat MINION_SIZE + 1 :: u64) = unat off div MINION_SIZE + 1"
    by (simp add: unat_word_ariths unat_div_MINION_SIZE)
  then show ?thesis by (simp add: unat_mod)
qed

lemma unat_backup_offset:
  "unat (off mod of_nat MINION_SIZE + of_nat MINION_SIZE :: u64) = unat off mod MINION_SIZE + MINION_SIZE"
proof -
  have "unat off mod MINION_SIZE < MINION_SIZE" by (simp add: MINION_SIZE_val)
  then have "unat off mod MINION_SIZE + MINION_SIZE < 2 ^ 64" by (simp add: MINION_SIZE_val)
  then show ?thesis by (simp add: unat_word_ariths unat_mod_MINION_SIZE)
qed

text \<open>\<open>OffsetToProxy\<close> computes exactly this placement inside the device, and nothing outside.\<close>

lemma OffsetToProxy_in:
  assumes "unat off < raid_capacity"
  shows "OffsetToProxy Raid01_ctor off =
    Inr [(Raid01_ctor ! fst (raid_primary (unat off)), of_nat (snd (raid_primary (unat off)))),
         (Raid01_ctor ! fst (raid_backup (unat off)), of_nat (snd (raid_backup (unat off))))]"
proof -
  have len: "length Raid01_ctor = 3" by (simp add: Raid01_ctor_def)
  have 1: "unat off div MINION_SIZE < 3" using assms by (rule raid_node_bound)
  have 2: "off mod of_nat MINION_SIZE = of_nat (unat off mod MINION_SIZE)"
    by (metis unat_mod_MINION_SIZE of_nat_unat ucast_id)
  have 3: "off mod of_nat MINION_SIZE + of_nat MINION_SIZE =
      (of_nat (unat off mod MINION_SIZE + MINION_SIZE) :: u64)"
    by (simp add: 2)
  show ?thesis
    using 1 by (simp add: OffsetToProxy_def Let_def vector_at_def len unat_div_MINION_SIZE
        unat_backup_idx[OF assms] raid_primary_def raid_backup_def 2 3)
qed

lemma OffsetToProxy_out:
  assumes "raid_capacity \<le> unat off"
  shows "OffsetToProxy Raid01_ctor off = Inl Undefined"
proof -
  have "3 \<le> unat off div MINION_SIZE"
    using assms by (simp add: raid_capacity_val MINION_SIZE_val)
  then show ?thesis
    by (simp add: OffsetToProxy_def Let_def vector_at_def unat_div_MINION_SIZE Raid01_ctor_def)
qed

lemma OffsetToProxy_Inr_iff:
  "(\<exists>r. OffsetToProxy Raid01_ctor off = Inr r) \<longleftrightarrow> unat off < raid_capacity"
  using OffsetToProxy_in OffsetToProxy_out by (metis Inl_Inr_False not_less)

subsection \<open>Properties\<close>

lemma unat_small_u64: "x < 2 ^ 64 \<Longrightarrow> unat (of_nat x :: u64) = x"
  by (simp add: unat_of_nat take_bit_nat_eq_self)

lemma of_nat_u64_inj: "x < 2 ^ 64 \<Longrightarrow> y < 2 ^ 64 \<Longrightarrow> (of_nat x :: u64) = of_nat y \<longleftrightarrow> x = y"
  by (metis unat_small_u64)

text \<open>
  C8: \<open>OffsetToProxy\<close> answers exactly for the offsets below 12 MB: with two different
  minions, the first copy in the lower half of its file and the second in the upper half.
  For any offset past the end it indexes its vector out of bounds.
\<close>

theorem OffsetToProxy_placement:
  "case OffsetToProxy Raid01_ctor off of
     Inl e \<Rightarrow> e = Undefined \<and> raid_capacity \<le> unat off
   | Inr r \<Rightarrow> unat off < raid_capacity \<and>
       (\<exists>p a q b. r = [(p, a), (q, b)] \<and> p \<in> set Raid01_ctor \<and> q \<in> set Raid01_ctor \<and> p \<noteq> q \<and>
          unat a < MINION_SIZE \<and> MINION_SIZE \<le> unat b \<and> unat b < 2 * MINION_SIZE)"
proof (cases "unat off < raid_capacity")
  case False
  then show ?thesis by (simp add: OffsetToProxy_out)
next
  case True
  have d: "distinct Raid01_ctor" and l: "length Raid01_ctor = 3"
    by (simp_all add: Raid01_ctor_def port_defs)
  have n: "fst (raid_primary (unat off)) < 3" "fst (raid_backup (unat off)) < 3"
    using raid_node_bound[OF True] by (simp_all add: raid_primary_def raid_backup_def)
  have "Raid01_ctor ! fst (raid_primary (unat off)) \<noteq> Raid01_ctor ! fst (raid_backup (unat off))"
    using raid.nodes_differ[OF True] n l by (simp add: nth_eq_iff_index_eq[OF d])
  moreover have s: "snd (raid_primary (unat off)) < MINION_SIZE"
    "MINION_SIZE \<le> snd (raid_backup (unat off))" "snd (raid_backup (unat off)) < 2 * MINION_SIZE"
    using mod_less_divisor[of MINION_SIZE "unat off"]
    by (simp_all add: raid_primary_def raid_backup_def MINION_SIZE_val)
  moreover have "unat (of_nat (snd (raid_primary (unat off))) :: u64) = snd (raid_primary (unat off))"
    "unat (of_nat (snd (raid_backup (unat off))) :: u64) = snd (raid_backup (unat off))"
    using s by (intro unat_small_u64; simp add: MINION_SIZE_val)+
  ultimately show ?thesis using True n l by (simp add: OffsetToProxy_in)
qed

text \<open>
  Two different bytes of the device never share a cell, neither as primary nor as
  backup: the places \<open>OffsetToProxy\<close> gives for them are disjoint.
\<close>

theorem OffsetToProxy_disjoint:
  assumes "OffsetToProxy Raid01_ctor off = Inr r" and "OffsetToProxy Raid01_ctor off' = Inr r'"
    and "off \<noteq> off'"
  shows "set r \<inter> set r' = {}"
proof -
  have o: "unat off < raid_capacity" "unat off' < raid_capacity" and ne: "unat off \<noteq> unat off'"
    using assms OffsetToProxy_Inr_iff[of off] OffsetToProxy_Inr_iff[of off']
    by (auto simp: word_unat_eq_iff)
  have d: "distinct Raid01_ctor" and l: "length Raid01_ctor = 3"
    by (simp_all add: Raid01_ctor_def port_defs)
  let ?at = "\<lambda>c. (Raid01_ctor ! fst c, of_nat (snd c) :: u64)"
  have inj: "c = c'" if "?at c = ?at c'" "fst c < 3" "fst c' < 3" "snd c < 2 ^ 64" "snd c' < 2 ^ 64" for c c'
    using that l of_nat_u64_inj[of "snd c" "snd c'"] by (simp add: nth_eq_iff_index_eq[OF d] prod_eq_iff)
  have b: "fst (f (unat x)) < 3 \<and> snd (f (unat x)) < 2 ^ 64"
    if "f \<in> {raid_primary, raid_backup}" "unat x < raid_capacity" for f and x :: u64
    using that raid_node_bound[OF that(2)] mod_less_divisor[of MINION_SIZE "unat x"]
    by (auto simp: raid_primary_def raid_backup_def MINION_SIZE_val)
  have r: "set r = {?at (raid_primary (unat off)), ?at (raid_backup (unat off))}"
    "set r' = {?at (raid_primary (unat off')), ?at (raid_backup (unat off'))}"
    using assms(1,2) by (auto simp: OffsetToProxy_in o)
  have "?at (f (unat off)) \<noteq> ?at (g (unat off'))"
    if "f \<in> {raid_primary, raid_backup}" "g \<in> {raid_primary, raid_backup}" for f g
  proof
    assume "?at (f (unat off)) = ?at (g (unat off'))"
    then have "f (unat off) = g (unat off')" using b[OF that(1) o(1)] b[OF that(2) o(2)] by (intro inj) auto
    with that ne raid.primary_inject[OF o] raid.backup_inject[OF o] raid.halves_disjoint[OF o]
      raid.halves_disjoint[OF o(2,1)] show False by auto
  qed
  then show ?thesis by (simp add: r)
qed

theorem OffsetToProxy_disjoint_witness:
  "\<exists>r r'. OffsetToProxy Raid01_ctor 0 = Inr r \<and> OffsetToProxy Raid01_ctor 4194304 = Inr r' \<and> set r \<inter> set r' = {}"
proof -
  obtain r r' where "OffsetToProxy Raid01_ctor 0 = Inr r" "OffsetToProxy Raid01_ctor 4194304 = Inr r'"
    using OffsetToProxy_in[of 0] OffsetToProxy_in[of 4194304] by (simp add: raid_capacity_val)
  with OffsetToProxy_disjoint[OF this] show ?thesis by simp
qed

end
