(* ===== verification/Args_Key.thy ===== *)
theory Args_Key
  imports Message
begin

text \<open>
  \<open>IArgsKey\<close> and its four implementations (\<open>include/argskey.hpp\<close>, \<open>src/argskey.cpp\<close>): what a
  proxy hands to the thread pool and a command receives. A failed \<open>dynamic_pointer_cast\<close>
  yields a null pointer, here \<open>None\<close>. The classes are the constructors and their accessors the selectors.
\<close>

datatype args_key =
    ReadArgsKey (GetKey: int) (ArgsKey_GetOffset: u64) (ArgsKey_GetSize: u32)
  | WriteArgsKey (GetKey: int) (ArgsKey_GetOffset: u64) (ArgsKey_GetSize: u32) (ArgsKey_GetData: "byte list option")
  | MinionReadArgsKey (GetKey: int) (ArgsKey_GetOffset: u64) (ArgsKey_GetSize: u32) (ArgsKey_GetUID: uid)
  | MinionWriteArgsKey (GetKey: int) (ArgsKey_GetOffset: u64) (ArgsKey_GetSize: u32)
      (ArgsKey_GetData: "byte list option") (ArgsKey_GetUID: uid)

end
