(* ===== verification/Factory.thy ===== *)
theory Factory
  imports Prelude
begin

text \<open>
  \<open>Factory<KEY, BASE, ARGS...>\<close> (\<open>include/factory.hpp\<close>): a map from keys to creators.
  \<open>AddCtor\<close> stores or replaces a creator, \<open>Create\<close> calls the creator of a key and throws
  \<open>std::out_of_range\<close> when there is none. A creator takes its arguments and may fail.
\<close>

type_synonym ('k, 'args, 'b) factory = "'k \<rightharpoonup> ('args \<Rightarrow> 'b result)"

definition Factory_new :: "('k, 'args, 'b) factory" where
  "Factory_new = Map.empty"

definition AddCtor :: "('k, 'args, 'b) factory \<Rightarrow> 'k \<Rightarrow> ('args \<Rightarrow> 'b result) \<Rightarrow> ('k, 'args, 'b) factory" where
  "AddCtor m key func = m(key \<mapsto> func)"

definition Create :: "('k, 'args, 'b) factory \<Rightarrow> 'k \<Rightarrow> 'args \<Rightarrow> 'b result" where
  "Create m key args =
     (case m key of
        Some func \<Rightarrow> func args
      | None \<Rightarrow> Inl (Out_of_range ''key is not in map''))"

text \<open>
  The contract of a registry: the last registration of a key wins, the other keys are
  untouched. \<open>lookup\<close> is what a client does with a key. The factories and the reactor's
  handler map are both registries.
\<close>

locale registry =
  fixes new :: "'r"
    and add :: "'r \<Rightarrow> 'k \<Rightarrow> 'v \<Rightarrow> 'r"
    and find :: "'r \<Rightarrow> 'k \<Rightarrow> 'v option"
    and wf :: "'r \<Rightarrow> bool"
  assumes wf_new: "wf new"
    and wf_add: "wf r \<Longrightarrow> wf (add r k v)"
    and find_new: "find new k = None"
    and find_add: "wf r \<Longrightarrow> find (add r k v) k' = (if k' = k then Some v else find r k')"
begin

text \<open>Registering a list of entries in order, as the constructors and \<open>Framework\<close> do.\<close>

fun add_all :: "'r \<Rightarrow> ('k \<times> 'v) list \<Rightarrow> 'r" where
  "add_all r [] = r"
| "add_all r ((k, v) # kvs) = add_all (add r k v) kvs"

lemma wf_add_all: "wf r \<Longrightarrow> wf (add_all r kvs)"
  by (induction kvs arbitrary: r) (auto simp: wf_add)

lemma find_add_all:
  "wf r \<Longrightarrow> find (add_all r kvs) k = (case map_of (rev kvs) k of Some v \<Rightarrow> Some v | None \<Rightarrow> find r k)"
proof (induction kvs arbitrary: r)
  case Nil
  then show ?case by simp
next
  case (Cons kv kvs)
  then show ?case
    by (cases kv) (auto simp: wf_add find_add map_add_def split: option.splits)
qed

lemma find_add_all_distinct:
  assumes "wf r" and "distinct (map fst kvs)" and "(k, v) \<in> set kvs"
  shows "find (add_all r kvs) k = Some v"
  using assms by (simp add: find_add_all map_of_eq_Some_iff rev_map[symmetric])

lemma find_add_all_other:
  "wf r \<Longrightarrow> k \<notin> fst ` set kvs \<Longrightarrow> find (add_all r kvs) k = find r k"
  by (induction kvs arbitrary: r) (auto simp: wf_add find_add)

end

interpretation factory_registry: registry Factory_new AddCtor "\<lambda>m k. m k" "\<lambda>_. True"
  by unfold_locales (simp_all add: Factory_new_def AddCtor_def)

lemma Create_AddCtor:
  "Create (AddCtor m k f) k' a = (if k' = k then f a else Create m k' a)"
  by (simp add: Create_def AddCtor_def)

lemma Create_new: "Create Factory_new k a = Inl (Out_of_range ''key is not in map'')"
  by (simp add: Create_def Factory_new_def)

end
