(* ===== verification/Command_Types.thy ===== *)
theory Command_Types
  imports Args_Key Factory
begin

text \<open>
  What \<open>ICommand\<close> and its creators contribute to the other components
  (\<open>include/command.hpp\<close>, \<open>src/command.cpp\<close>), the command keys
  (\<open>include/inputproxy.hpp\<close>) and \<open>TPTask::Run\<close> (\<open>src/threadpool.cpp\<close>), which looks the
  command of a task up in the factory, executes it, and starts an \<open>AI\<close> poll when the
  command returned a function.
\<close>

definition READ_CMD_KEY :: int where "READ_CMD_KEY = 1"
definition WRITE_CMD_KEY :: int where "WRITE_CMD_KEY = 2"
definition MINION_READ_CMD_KEY :: int where "MINION_READ_CMD_KEY = 20"
definition MINION_WRITE_CMD_KEY :: int where "MINION_WRITE_CMD_KEY = 21"

lemmas cmd_key_defs = READ_CMD_KEY_def WRITE_CMD_KEY_def MINION_READ_CMD_KEY_def
  MINION_WRITE_CMD_KEY_def

datatype command = ReadCommand | WriteCommand | MinionReadCmd | MinionWriteCmd

type_synonym command_factory = "(int, unit, command) factory"

definition CreateWriteCommand :: "unit \<Rightarrow> command result" where
  "CreateWriteCommand _ = Inr WriteCommand"

definition CreateReadCommand :: "unit \<Rightarrow> command result" where
  "CreateReadCommand _ = Inr ReadCommand"

definition CreateMinionWriteCmd :: "unit \<Rightarrow> command result" where
  "CreateMinionWriteCmd _ = Inr MinionWriteCmd"

definition CreateMinionReadCmd :: "unit \<Rightarrow> command result" where
  "CreateMinionReadCmd _ = Inr MinionReadCmd"

lemmas creator_defs = CreateWriteCommand_def CreateReadCommand_def CreateMinionWriteCmd_def
  CreateMinionReadCmd_def

text \<open>
  The two functors a command can return; a null \<open>std::function\<close> is \<open>None\<close>. The second
  component of a command's result is the polling interval in milliseconds.
\<close>

datatype ai_func = ReadAIFunc uid | WriteAIFunc uid uid

type_synonym cmd_result = "ai_func option \<times> nat"

text \<open>\<open>Framework::Framework\<close> (\<open>src/framework.cpp\<close>) enters the creators it is given in order.\<close>

definition Framework_factory :: "(int \<times> (unit \<Rightarrow> command result)) list \<Rightarrow> command_factory" where
  "Framework_factory crators = factory_registry.add_all Factory_new crators"

text \<open>The creators that the two programs pass (\<open>test/master_test.cpp\<close>, \<open>test/minion_test.cpp\<close>).\<close>

definition master_factory :: command_factory where
  "master_factory =
     Framework_factory [(READ_CMD_KEY, CreateReadCommand), (WRITE_CMD_KEY, CreateWriteCommand)]"

definition minion_factory :: command_factory where
  "minion_factory = Framework_factory
     [(MINION_READ_CMD_KEY, CreateMinionReadCmd), (MINION_WRITE_CMD_KEY, CreateMinionWriteCmd)]"

text \<open>
  \<open>TPTask::Run\<close> over the \<open>Execute\<close> of the process it runs in. The poll it starts is the
  second component: its functor and its interval.
\<close>

definition TPTask_Run ::
    "(command \<Rightarrow> args_key \<Rightarrow> 's \<Rightarrow> (cmd_result \<times> 's) result) \<Rightarrow> command_factory \<Rightarrow> args_key \<Rightarrow> 's \<Rightarrow>
      ((ai_func \<times> nat) option \<times> 's) result" where
  "TPTask_Run Execute factory taskArgs s =
     (let factory_key = GetKey taskArgs
      in bindE (Create factory factory_key ()) (\<lambda>cmd.
         bindE (Execute cmd taskArgs s) (\<lambda>(res, s).
         case fst res of
           Some func \<Rightarrow> Inr (Some (func, snd res), s)
         | None \<Rightarrow> Inr (None, s))))"

lemma master_factory_Create:
  "Create master_factory READ_CMD_KEY () = Inr ReadCommand"
  "Create master_factory WRITE_CMD_KEY () = Inr WriteCommand"
  by (simp_all add: master_factory_def Framework_factory_def Create_AddCtor cmd_key_defs creator_defs)

lemma minion_factory_Create:
  "Create minion_factory MINION_READ_CMD_KEY () = Inr MinionReadCmd"
  "Create minion_factory MINION_WRITE_CMD_KEY () = Inr MinionWriteCmd"
  by (simp_all add: minion_factory_def Framework_factory_def Create_AddCtor cmd_key_defs creator_defs)

end
