(* ===== verification/Master.thy ===== *)
theory Master
  imports Message_Codec Sockets Response_Manager Raid01 Command_Types
begin

text \<open>
  The master process: \<open>NBDProxy\<close>, \<open>MinionProxy\<close> and \<open>ResponseProxy\<close>
  (\<open>include/inputproxy.hpp\<close>, \<open>src/inputproxy.cpp\<close>), the commands \<open>ReadCommand\<close> and
  \<open>WriteCommand\<close> with their polling functors (\<open>src/command.cpp\<close>), and the callbacks
  \<open>NBD::NBDRead\<close> and \<open>NBD::NBDWrite\<close> (\<open>src/raz_nbd.cpp\<close>), which run in a thread of the same
  process and talk to \<open>NBDProxy\<close> over a TCP connection to itself.
\<close>

text \<open>
  The state: the identifier counter, the watch list, the two static counters of
  \<open>WriteAIFunc\<close>, the two directions of the NBD connection (\<open>ms_nbd_rx\<close> towards
  \<open>NBDProxy\<close>, \<open>ms_nbd_tx\<close> back to the callbacks), the datagrams waiting at the response
  socket, and what the three \<open>MinionProxy\<close> sockets have sent, with its addressee.
\<close>

record master =
  ms_counter :: u32
  ms_watch :: watchlist
  ms_og_counter :: int
  ms_backup_counter :: int
  ms_nbd_rx :: "byte list"
  ms_nbd_tx :: "byte list"
  ms_udp_rx :: "datagram list"
  ms_udp_tx :: "(minion_proxy \<times> datagram) list"

definition master_init :: master where
  "master_init = \<lparr>ms_counter = m_static_counter_init, ms_watch = Map.empty, ms_og_counter = 0,
     ms_backup_counter = 0, ms_nbd_rx = [], ms_nbd_tx = [], ms_udp_rx = [], ms_udp_tx = []\<rparr>"

text \<open>The message factories that the constructors of \<open>NBDProxy\<close> and \<open>ResponseProxy\<close> fill.\<close>

definition nbd_read_factory :: "(int, host \<times> u32, nbd_read_msg \<times> u32) factory" where
  "nbd_read_factory = AddCtor Factory_new (uint NBD_READ_MSG) (\<lambda>(h, c). CreateNBDReadMsg h c)"

definition nbd_write_factory :: "(int, host \<times> u32, nbd_write_msg \<times> u32) factory" where
  "nbd_write_factory = AddCtor Factory_new (uint NBD_WRITE_MSG) (\<lambda>(h, c). CreateNBDWriteMsg h c)"

definition minion_read_factory :: "(int, host \<times> u32, minion_read_msg \<times> u32) factory" where
  "minion_read_factory =
     AddCtor Factory_new (uint READ_MINION_MSG_KEY) (\<lambda>(h, c). CreateMinionReadMsg h c)"

definition minion_write_factory :: "(int, host \<times> u32, minion_write_msg \<times> u32) factory" where
  "minion_write_factory =
     AddCtor Factory_new (uint WRITE_MINION_MSG_KEY) (\<lambda>(h, c). CreateMinionWriteMsg h c)"

subsection \<open>NBDProxy\<close>

definition NBDProxy_GetArgsKey :: "host \<Rightarrow> master \<Rightarrow> (args_key \<times> master) result" where
  "NBDProxy_GetArgsKey h ms =
     (let key_and_size = new_char (h_garbage h 0) (4 + 4)
      in bindE (TCPSocket_Recive key_and_size (4 + 4) True (ms_nbd_rx ms)) (\<lambda>(key_and_size, rx).
         bindE (get_u32 key_and_size 0) (\<lambda>(k, p).
         let key = sint k
         in bindE (get_u32 key_and_size p) (\<lambda>(size, _).
         if uint NBD_WRITE_MSG = key then
           bindE (Create nbd_write_factory key (h, ms_counter ms)) (\<lambda>(nbd_msg, counter).
           let n = NBDWriteMsg_GetBufferSize nbd_msg + ucast size;
               buffer = new_char (h_garbage h 1) (unat n)
           in bindE (TCPSocket_Recive buffer (int_of_u64 n) False rx) (\<lambda>(buffer, rx).
              bindE (NBDWriteMsg_FromBuffer nbd_msg buffer 0) (\<lambda>(nbd_msg, _).
              let (offset, len, data) = NBDWriteMsg_SupplyArgs nbd_msg
              in Inr (WriteArgsKey WRITE_CMD_KEY offset len data,
                      ms\<lparr>ms_counter := counter, ms_nbd_rx := rx\<rparr>))))
         else
           bindE (Create nbd_read_factory key (h, ms_counter ms)) (\<lambda>(nbd_msg, counter).
           let n = NBDReadMsg_GetBufferSize;
               buffer = new_char (h_garbage h 1) (unat n)
           in bindE (TCPSocket_Recive buffer (int_of_u64 n) False rx) (\<lambda>(buffer, rx).
              bindE (NBDReadMsg_FromBuffer nbd_msg buffer 0) (\<lambda>(nbd_msg, _).
              let (offset, len, _) = NBDReadMsg_SupplyArgs nbd_msg
              in Inr (ReadArgsKey READ_CMD_KEY offset len,
                      ms\<lparr>ms_counter := counter, ms_nbd_rx := rx\<rparr>))))))))"

definition NotifySucces :: "byte list \<Rightarrow> u32 \<Rightarrow> master \<Rightarrow> master result" where
  "NotifySucces data size_to_write ms =
     bindE (TCPSocket_Response data (sint size_to_write)) (\<lambda>d.
       Inr (ms\<lparr>ms_nbd_tx := ms_nbd_tx ms @ d\<rparr>))"

definition NotifySucces_default :: "master \<Rightarrow> master result" where
  "NotifySucces_default ms = NotifySucces (c_str ''Success'') 8 ms"

subsection \<open>MinionProxy\<close>

definition MinionProxy_send :: "minion_proxy \<Rightarrow> datagram option \<Rightarrow> master \<Rightarrow> master" where
  "MinionProxy_send proxy sent ms =
     (case sent of Some d \<Rightarrow> ms\<lparr>ms_udp_tx := ms_udp_tx ms @ [(proxy, d)]\<rparr> | None \<Rightarrow> ms)"

definition MinionProxy_ReadRequest ::
    "host \<Rightarrow> minion_proxy \<Rightarrow> u64 \<Rightarrow> u32 \<Rightarrow> uid \<Rightarrow> master \<Rightarrow> master result" where
  "MinionProxy_ReadRequest h proxy offset len uid ms =
     (let read_msg = ReadMsg offset len uid;
          n = ReadMsg_GetBufferSize;
          buffer = new_char (h_garbage h 2) (unat n)
      in bindE (ReadMsg_ToBuffer read_msg (buffer, 0)) (\<lambda>(buffer, _).
         bindE (UDPSocket_Send h buffer (int_of_u64 n)) (\<lambda>sent.
           Inr (MinionProxy_send proxy sent ms))))"

definition MinionProxy_WriteRequest ::
    "host \<Rightarrow> minion_proxy \<Rightarrow> u64 \<Rightarrow> u32 \<Rightarrow> byte list option \<Rightarrow> uid \<Rightarrow> master \<Rightarrow> master result" where
  "MinionProxy_WriteRequest h proxy offset len data uid ms =
     (let write_msg = WriteMsg offset len data uid;
          n = WriteMsg_GetBufferSize write_msg;
          buffer = new_char (h_garbage h 2) (unat n)
      in bindE (WriteMsg_ToBuffer write_msg (buffer, 0)) (\<lambda>(buffer, _).
         bindE (UDPSocket_Send h buffer (int_of_u64 n)) (\<lambda>sent.
           Inr (MinionProxy_send proxy sent ms))))"

subsection \<open>ResponseProxy\<close>

text \<open>
  It never produces a task: the result is null. A datagram with any other key is only
  peeked at, and stays in the queue.
\<close>

definition ResponseProxy_GetArgsKey :: "host \<Rightarrow> master \<Rightarrow> (args_key option \<times> master) result" where
  "ResponseProxy_GetArgsKey h ms =
     (let key_and_size = new_char (h_garbage h 0) (4 + 4)
      in bindE (UDPSocket_Recive key_and_size (4 + 4) True (ms_udp_rx ms)) (\<lambda>(key_and_size, rx).
         bindE (get_u32 key_and_size 0) (\<lambda>(key, p).
         bindE (get_u32 key_and_size p) (\<lambda>(re_data_size, _).
         bindE
           (if WRITE_MINION_MSG_KEY = key then
              bindE (Create minion_write_factory (uint key) (h, ms_counter ms)) (\<lambda>(msg, counter).
              let n = MinionWriteMsg_GetBufferSize;
                  buffer = new_char (h_garbage h 1) (unat n)
              in bindE (UDPSocket_Recive buffer (int_of_u64 n) False rx) (\<lambda>(buffer, rx).
                 bindE (MinionWriteMsg_FromBuffer msg buffer 0) (\<lambda>(msg, _).
                 let (_, ok, _) = MinionWriteMsg_SupplyArgs msg;
                     ms = ms\<lparr>ms_counter := counter, ms_udp_rx := rx\<rparr>
                 in Inr (if ok = 1
                         then ms\<lparr>ms_watch := RegisterResponse (GetUID msg) (ms_watch ms)\<rparr>
                         else ms))))
            else Inr ms) (\<lambda>ms.
         bindE
           (if READ_MINION_MSG_KEY = key then
              bindE (Create minion_read_factory (uint key) (h, ms_counter ms)) (\<lambda>(msg, counter).
              let n = MinionReadMsg_GetBufferSize + ucast re_data_size;
                  buffer = new_char (h_garbage h 1) (unat n)
              in bindE (UDPSocket_Recive buffer (int_of_u64 n) False rx) (\<lambda>(buffer, rx).
                 bindE (MinionReadMsg_FromBuffer msg buffer 0) (\<lambda>(msg, _).
                 let (_, len, data) = MinionReadMsg_SupplyArgs msg;
                     ms = ms\<lparr>ms_counter := counter, ms_udp_rx := rx\<rparr>
                 in if MinionReadMsg_GetIsSuccess msg then
                      let ms = ms\<lparr>ms_watch := RegisterResponse (GetUID msg) (ms_watch ms)\<rparr>
                      in bindE (memcpy_src data (unat len)) (\<lambda>d. NotifySucces d len ms)
                    else Inr ms)))
            else Inr ms) (\<lambda>ms.
         Inr (None, ms)))))))"

subsection \<open>The commands\<close>

definition read_null_loc :: loc where
  "read_null_loc = Loc ''command.cpp''
     ''virtual std::pair<std::function<bool()>, std::chrono::duration<long int, std::ratio<1, 1000> > > ReadCommand::Execute(std::shared_ptr<IArgsKey>)'' 23"

definition write_null_loc :: loc where
  "write_null_loc = Loc ''command.cpp''
     ''virtual std::pair<std::function<bool()>, std::chrono::duration<long int, std::ratio<1, 1000> > > WriteCommand::Execute(std::shared_ptr<IArgsKey>)'' 50"

definition ReadCommand_Execute :: "host \<Rightarrow> args_key \<Rightarrow> master \<Rightarrow> (cmd_result \<times> master) result" where
  "ReadCommand_Execute h task_args ms =
     (let read_task = (case task_args of ReadArgsKey _ offset len \<Rightarrow> Some (offset, len) | _ \<Rightarrow> None)
      in bindE (snd (EqualToCheck read_task None ''ReadArgsKey NULL Check'' read_null_loc)) (\<lambda>_.
         let (offset, len) = the read_task
         in bindE (OffsetToProxy Raid01_ctor offset) (\<lambda>raid_vector.
            bindE (RegisterCommand h (ms_counter ms) (ms_watch ms)) (\<lambda>(og_uid, counter, watch).
            bindE (MinionProxy_ReadRequest h (fst (raid_vector ! 0)) (snd (raid_vector ! 0)) len og_uid
                    (ms\<lparr>ms_counter := counter, ms_watch := watch\<rparr>)) (\<lambda>ms.
              Inr ((Some (ReadAIFunc og_uid), 5000), ms))))))"

definition WriteCommand_Execute :: "host \<Rightarrow> args_key \<Rightarrow> master \<Rightarrow> (cmd_result \<times> master) result" where
  "WriteCommand_Execute h task_args ms =
     (let write_task =
        (case task_args of WriteArgsKey _ offset len data \<Rightarrow> Some (offset, len, data) | _ \<Rightarrow> None)
      in bindE (snd (EqualToCheck write_task None ''ArgsKey NULL Check'' write_null_loc)) (\<lambda>_.
         let (offset, len, data) = the write_task
         in bindE (OffsetToProxy Raid01_ctor offset) (\<lambda>raid10_vector.
            bindE (RegisterCommand h (ms_counter ms) (ms_watch ms)) (\<lambda>(og_uid, counter, watch).
            bindE (RegisterCommand h counter watch) (\<lambda>(backup_uid, counter, watch).
            bindE (MinionProxy_WriteRequest h (fst (raid10_vector ! 0)) (snd (raid10_vector ! 0)) len
                    data og_uid (ms\<lparr>ms_counter := counter, ms_watch := watch\<rparr>)) (\<lambda>ms.
            bindE (MinionProxy_WriteRequest h (fst (raid10_vector ! 1)) (snd (raid10_vector ! 1)) len
                    data backup_uid ms) (\<lambda>ms.
              Inr ((Some (WriteAIFunc og_uid backup_uid), 500), ms))))))))"

definition master_Execute :: "host \<Rightarrow> command \<Rightarrow> args_key \<Rightarrow> master \<Rightarrow> (cmd_result \<times> master) result" where
  "master_Execute h cmd task_args ms =
     (case cmd of
        ReadCommand \<Rightarrow> ReadCommand_Execute h task_args ms
      | WriteCommand \<Rightarrow> WriteCommand_Execute h task_args ms
      | _ \<Rightarrow> Inl Undefined)"

subsection \<open>The polling functors\<close>

definition ReadAIFunc_call :: "uid \<Rightarrow> master \<Rightarrow> (bool \<times> master) result" where
  "ReadAIFunc_call uid ms =
     (let (ret, watch) = HasResponseRecived uid (ms_watch ms)
      in Inr (ret, ms\<lparr>ms_watch := watch\<rparr>))"

definition WriteAIFunc_call :: "uid \<Rightarrow> uid \<Rightarrow> master \<Rightarrow> (bool \<times> master) result" where
  "WriteAIFunc_call og_uid backup_uid ms =
     (let (og, watch) = HasResponseRecived og_uid (ms_watch ms);
          (backup, watch) = HasResponseRecived backup_uid watch;
          ms = ms\<lparr>ms_watch := watch\<rparr>
      in if og \<and> backup then bindE (NotifySucces_default ms) (\<lambda>ms. Inr (True, ms))
         else
           let og_counter = ms_og_counter ms + (if \<not> og then 1 else 0);
               backup_counter = ms_backup_counter ms + (if \<not> backup then 1 else 0)
           in if 50 = og_counter \<or> 50 = backup_counter then
                bindE (if og_counter = 50 then NotifySucces (c_str ''couldnt write og'') 15 ms
                       else NotifySucces (c_str ''couldnt write backup'') 20 ms) (\<lambda>ms.
                  Inr (True, ms\<lparr>ms_og_counter := 0, ms_backup_counter := 0\<rparr>))
              else Inr (False, ms\<lparr>ms_og_counter := og_counter, ms_backup_counter := backup_counter\<rparr>))"

definition ai_call :: "ai_func \<Rightarrow> master \<Rightarrow> (bool \<times> master) result" where
  "ai_call func ms =
     (case func of
        ReadAIFunc uid \<Rightarrow> ReadAIFunc_call uid ms
      | WriteAIFunc og_uid backup_uid \<Rightarrow> WriteAIFunc_call og_uid backup_uid ms)"

subsection \<open>The block device callbacks\<close>

text \<open>
  \<open>NBDRead\<close> and \<open>NBDWrite\<close> send a request and then block in \<open>Recive\<close> for the answer; each
  is cut in two there. The buffer of a read is the caller's, of \<open>len\<close> bytes. Both return 0.
\<close>

definition NBDRead_request :: "host \<Rightarrow> u32 \<Rightarrow> u64 \<Rightarrow> master \<Rightarrow> master result" where
  "NBDRead_request h len offset ms =
     bindE (NBDReadMsg h (ms_counter ms) offset len) (\<lambda>(read_msg, counter).
     let n = NBDReadMsg_GetBufferSize;
         sent_buffer = new_char (h_garbage h 0) (unat n)
     in bindE (NBDReadMsg_ToBuffer read_msg (sent_buffer, 0)) (\<lambda>(sent_buffer, _).
        bindE (TCPSocket_Send h sent_buffer (int_of_u64 n)) (\<lambda>d.
          Inr (ms\<lparr>ms_counter := counter, ms_nbd_rx := ms_nbd_rx ms @ d\<rparr>))))"

definition NBDRead_reply :: "byte list \<Rightarrow> u32 \<Rightarrow> master \<Rightarrow> (byte list \<times> master) result" where
  "NBDRead_reply buf len ms =
     bindE (TCPSocket_Recive buf (sint len) False (ms_nbd_tx ms)) (\<lambda>(buf, rx).
       Inr (buf, ms\<lparr>ms_nbd_tx := rx\<rparr>))"

definition NBDWrite_request :: "host \<Rightarrow> byte list \<Rightarrow> u32 \<Rightarrow> u64 \<Rightarrow> master \<Rightarrow> master result" where
  "NBDWrite_request h buf len offset ms =
     bindE (NBDWriteMsg h (ms_counter ms) offset len (Some buf)) (\<lambda>(write_msg, counter).
     let n = NBDWriteMsg_GetBufferSize write_msg;
         sent_buffer = new_char (h_garbage h 0) (unat n)
     in bindE (NBDWriteMsg_ToBuffer write_msg (sent_buffer, 0)) (\<lambda>(sent_buffer, _).
        bindE (TCPSocket_Send h sent_buffer (int_of_u64 n)) (\<lambda>d.
          Inr (ms\<lparr>ms_counter := counter, ms_nbd_rx := ms_nbd_rx ms @ d\<rparr>))))"

text \<open>What is received is thrown away, and 0 is returned: the answer is not looked at.\<close>

definition NBDWrite_reply :: "host \<Rightarrow> u32 \<Rightarrow> master \<Rightarrow> (int \<times> master) result" where
  "NBDWrite_reply h len ms =
     (let recv_buff = new_char (h_garbage h 1) (unat len)
      in bindE (TCPSocket_Recive recv_buff (sint len) False (ms_nbd_tx ms)) (\<lambda>(_, rx).
           Inr (0, ms\<lparr>ms_nbd_tx := rx\<rparr>)))"

subsection \<open>One event of the master\<close>

text \<open>
  A readable NBD socket: the reactor's callback builds the task, a worker runs it, and the
  poll that the command asks for, if any, is handed to the scheduler.
\<close>

definition master_nbd_ready :: "host \<Rightarrow> master \<Rightarrow> ((ai_func \<times> nat) option \<times> master) result" where
  "master_nbd_ready h ms =
     bindE (NBDProxy_GetArgsKey h ms) (\<lambda>(args, ms).
       TPTask_Run (master_Execute h) master_factory args ms)"

definition master_udp_ready :: "host \<Rightarrow> master \<Rightarrow> master result" where
  "master_udp_ready h ms =
     bindE (ResponseProxy_GetArgsKey h ms) (\<lambda>(args, ms). Inr ms)"

end
