(* ===== verification/Minion_Store.thy ===== *)
theory Minion_Store
  imports Raid01
begin

text \<open>
  The file behind a minion: \<open>bin_file\<close>, an \<open>std::fstream\<close> opened \<open>binary | in | out\<close> by
  \<open>MasterProxy::MasterProxy\<close> (\<open>src/inputproxy.cpp\<close>), and \<open>AMinionCmd::GetBinFile\<close>
  (\<open>src/command.cpp\<close>), which zeroes its first 8 MB before the first command.

  The stream has one position for reading and writing and the state bits \<open>eofbit\<close> and
  \<open>failbit\<close>. The stream operations below are those of the C++ standard that the program
  uses. A cell at or past the end of the file holds zero (\<open>bf_wf\<close>, kept by every operation),
  so the bytes a write skips past the end read as zero.
\<close>

record bin_file =
  bf_data :: "nat \<Rightarrow> byte"
  bf_len :: nat
  bf_pos :: nat
  bf_eof :: bool
  bf_fail :: bool

definition fs_good :: "bin_file \<Rightarrow> bool" where
  "fs_good f \<longleftrightarrow> \<not> bf_eof f \<and> \<not> bf_fail f"

text \<open>
  A \<open>u_int64_t\<close> offset becomes a signed \<open>std::streamoff\<close>: seeking before the start fails.
\<close>

definition fs_seekp :: "u64 \<Rightarrow> bin_file \<Rightarrow> bin_file" where
  "fs_seekp off f =
     (if bf_fail f then f
      else if sint off < 0 then f\<lparr>bf_fail := True\<rparr> else f\<lparr>bf_pos := unat off\<rparr>)"

definition fs_seekg :: "u64 \<Rightarrow> bin_file \<Rightarrow> bin_file" where
  "fs_seekg off f = fs_seekp off (f\<lparr>bf_eof := False\<rparr>)"

definition fs_write :: "byte list \<Rightarrow> bin_file \<Rightarrow> bin_file" where
  "fs_write bytes f =
     (if \<not> fs_good f then f\<lparr>bf_fail := True\<rparr>
      else if bytes = [] then f
      else f\<lparr>bf_data := (\<lambda>a. if bf_pos f \<le> a \<and> a < bf_pos f + length bytes then bytes ! (a - bf_pos f)
                           else bf_data f a),
             bf_len := max (bf_len f) (bf_pos f + length bytes),
             bf_pos := bf_pos f + length bytes\<rparr>)"

text \<open>\<open>read\<close> delivers what is there up to \<open>n\<close> bytes; delivering fewer sets \<open>eofbit | failbit\<close>.\<close>

definition fs_read :: "nat \<Rightarrow> bin_file \<Rightarrow> byte list \<times> bin_file" where
  "fs_read n f =
     (if \<not> fs_good f then ([], f\<lparr>bf_fail := True\<rparr>)
      else
        let got = min n (bf_len f - bf_pos f);
            bytes = map (bf_data f) [bf_pos f..<bf_pos f + got]
        in (bytes, f\<lparr>bf_pos := bf_pos f + got,
                     bf_eof := (got < n), bf_fail := (got < n)\<rparr>))"

subsection \<open>Opening\<close>

definition minion_filename :: "string \<Rightarrow> string" where
  "minion_filename sock_port =
     (if sock_port = UDP_PORT_MINION_1 then ''minion1.bin''
      else if sock_port = UDP_PORT_MINION_2 then ''minion2.bin''
      else ''minion3.bin'')"

text \<open>
  The constructor opens the file if it exists and creates it empty otherwise; either way the
  stream is good and at the start. The file system maps names to contents.
\<close>

definition stream_on :: "byte list \<Rightarrow> bin_file" where
  "stream_on bytes = \<lparr>bf_data = (\<lambda>a. if a < length bytes then bytes ! a else 0),
     bf_len = length bytes, bf_pos = 0, bf_eof = False, bf_fail = False\<rparr>"

definition open_bin_file :: "(string \<rightharpoonup> byte list) \<Rightarrow> string \<Rightarrow> bin_file" where
  "open_bin_file fs sock_port =
     (case fs (minion_filename sock_port) of Some bytes \<Rightarrow> stream_on bytes | None \<Rightarrow> stream_on [])"

subsection \<open>GetBinFile\<close>

fun zero_loop :: "nat \<Rightarrow> bin_file \<Rightarrow> bin_file" where
  "zero_loop 0 f = f"
| "zero_loop (Suc i) f = zero_loop i (fs_write [0] f)"

text \<open>The static \<open>is_init\<close> is the boolean; the new value is returned with the file.\<close>

definition GetBinFile :: "bool \<Rightarrow> bin_file \<Rightarrow> bool \<times> bin_file" where
  "GetBinFile is_init f =
     (if is_init then (False, fs_seekp 0 (zero_loop (8 * MB) f)) else (False, f))"

subsection \<open>Invariant and closed form of the loop\<close>

definition bf_wf :: "bin_file \<Rightarrow> bool" where
  "bf_wf f \<longleftrightarrow> (\<forall>a \<ge> bf_len f. bf_data f a = 0)"

lemma bf_wf_stream_on: "bf_wf (stream_on bytes)"
  by (simp add: bf_wf_def stream_on_def)

lemma bf_wf_seek: "bf_wf f \<Longrightarrow> bf_wf (fs_seekp off f)" "bf_wf f \<Longrightarrow> bf_wf (fs_seekg off f)"
  by (simp_all add: bf_wf_def fs_seekp_def fs_seekg_def)

lemma bf_wf_write: "bf_wf f \<Longrightarrow> bf_wf (fs_write bytes f)"
  by (simp add: bf_wf_def fs_write_def)

lemma bf_wf_read: "bf_wf f \<Longrightarrow> bf_wf (snd (fs_read n f))"
  by (simp add: bf_wf_def fs_read_def Let_def)

text \<open>Two writes in sequence are one write; so the loop is one write of \<open>n\<close> zeros.\<close>

lemma fs_write_append: "fs_good f \<Longrightarrow> fs_write bs (fs_write as f) = fs_write (as @ bs) f"
  by (cases "as = []"; cases "bs = []")
     (auto simp: fs_write_def fs_good_def nth_append max_def fun_eq_iff
       intro!: bin_file.equality)

lemma fs_good_write [simp]: "fs_good f \<Longrightarrow> fs_good (fs_write bs f)"
  by (simp add: fs_write_def fs_good_def)

lemma zero_loop_write: "fs_good f \<Longrightarrow> zero_loop n f = fs_write (replicate n 0) f"
proof (induction n arbitrary: f)
  case 0
  then show ?case by (simp add: fs_write_def)
next
  case (Suc n)
  then show ?case by (simp add: fs_write_append)
qed

subsection \<open>Reading and writing at an offset\<close>

text \<open>The three stream calls of \<open>MinionWriteCmd::Execute\<close> and of \<open>MinionReadCmd::Execute\<close>.\<close>

definition bin_write :: "u64 \<Rightarrow> byte list \<Rightarrow> bin_file \<Rightarrow> bin_file" where
  "bin_write off data f = fs_seekp 0 (fs_write data (fs_seekp off f))"

definition bin_read :: "u64 \<Rightarrow> nat \<Rightarrow> bin_file \<Rightarrow> byte list \<times> bin_file" where
  "bin_read off n f = (let (bytes, f) = fs_read n (fs_seekg off f) in (bytes, fs_seekg 0 f))"

text \<open>
  The contract of a block store, in cells: a write changes the run of cells it names, a read
  returns the run it names, and neither touches anything else or changes the extent.
\<close>

locale block_store =
  fixes ok :: "'s \<Rightarrow> bool"
    and extent :: "'s \<Rightarrow> nat"
    and cell :: "'s \<Rightarrow> nat \<Rightarrow> 'b"
    and wr :: "nat \<Rightarrow> 'b list \<Rightarrow> 's \<Rightarrow> 's"
    and rd :: "nat \<Rightarrow> nat \<Rightarrow> 's \<Rightarrow> 'b list \<times> 's"
  assumes wr_ok: "ok s \<Longrightarrow> off + length d \<le> extent s \<Longrightarrow> ok (wr off d s)"
    and wr_extent: "ok s \<Longrightarrow> off + length d \<le> extent s \<Longrightarrow> extent (wr off d s) = extent s"
    and wr_cell: "ok s \<Longrightarrow> off + length d \<le> extent s \<Longrightarrow>
          cell (wr off d s) a = (if off \<le> a \<and> a < off + length d then d ! (a - off) else cell s a)"
    and rd_bytes: "ok s \<Longrightarrow> off + n \<le> extent s \<Longrightarrow> fst (rd off n s) = map (cell s) [off..<off + n]"
    and rd_ok: "ok s \<Longrightarrow> off + n \<le> extent s \<Longrightarrow> ok (snd (rd off n s))"
    and rd_extent: "ok s \<Longrightarrow> off + n \<le> extent s \<Longrightarrow> extent (snd (rd off n s)) = extent s"
    and rd_cell: "ok s \<Longrightarrow> off + n \<le> extent s \<Longrightarrow> cell (snd (rd off n s)) = cell s"
begin

lemma read_own_write:
  assumes "ok s" and "off + length d \<le> extent s"
  shows "fst (rd off (length d) (wr off d s)) = d"
proof -
  have "fst (rd off (length d) (wr off d s)) = map (cell (wr off d s)) [off..<off + length d]"
    using assms by (intro rd_bytes) (simp_all add: wr_ok wr_extent)
  also have "\<dots> = d"
    using assms by (auto simp: wr_cell intro!: nth_equalityI)
  finally show ?thesis .
qed

lemma read_other_write:
  assumes "ok s" and "off + length d \<le> extent s" and "off' + n \<le> extent s"
    and "off' + n \<le> off \<or> off + length d \<le> off'"
  shows "fst (rd off' n (wr off d s)) = fst (rd off' n s)"
  using assms by (auto simp: rd_bytes wr_ok wr_extent wr_cell)

lemma write_twice:
  assumes "ok s" and "off + length d \<le> extent s" and "length d' = length d"
  shows "cell (wr off d' (wr off d s)) = cell (wr off d' s)"
  using assms by (auto simp: fun_eq_iff wr_ok wr_extent wr_cell)

lemma writes_commute:
  assumes "ok s" and "off + length d \<le> extent s" and "off' + length d' \<le> extent s"
    and "off' + length d' \<le> off \<or> off + length d \<le> off'"
  shows "cell (wr off d (wr off' d' s)) = cell (wr off' d' (wr off d s))"
  using assms by (auto simp: fun_eq_iff wr_ok wr_extent wr_cell)

end

text \<open>A stream that can be used: good, at a sane length, with its position inside.\<close>

definition bf_ok :: "bin_file \<Rightarrow> bool" where
  "bf_ok f \<longleftrightarrow> fs_good f \<and> bf_wf f \<and> bf_len f < 2 ^ 63"

lemma sint_of_nat_nonneg:
  assumes "off < 2 ^ 63"
  shows "0 \<le> sint (of_nat off :: u64)" and "unat (of_nat off :: u64) = off"
proof -
  show u: "unat (of_nat off :: u64) = off"
    using assms by (simp add: unat_of_nat)
  have "sint (of_nat off :: u64) = int off"
    using assms by (simp add: signed_of_nat signed_take_bit_int_eq_self)
  then show "0 \<le> sint (of_nat off :: u64)" by simp
qed

lemma seek_good:
  assumes "fs_good f" and "off < 2 ^ 63"
  shows "fs_seekp (of_nat off) f = f\<lparr>bf_pos := off\<rparr>"
    and "fs_seekg (of_nat off) f = f\<lparr>bf_pos := off\<rparr>"
  using assms sint_of_nat_nonneg[OF assms(2)]
  by (auto simp: fs_seekp_def fs_seekg_def fs_good_def intro: bin_file.equality)

lemma fs_good_pos [simp]: "fs_good (f\<lparr>bf_pos := p\<rparr>) = fs_good f"
  by (simp add: fs_good_def)

lemma seek_start:
  assumes "fs_good f"
  shows "fs_seekp 0 f = f\<lparr>bf_pos := 0\<rparr>" and "fs_seekg 0 f = f\<lparr>bf_pos := 0\<rparr>"
  using seek_good[OF assms, of 0] by simp_all

lemma bin_write_ok:
  assumes "bf_ok f" and "off + length d \<le> bf_len f"
  shows "bin_write (of_nat off) d f =
    f\<lparr>bf_data := (\<lambda>a. if off \<le> a \<and> a < off + length d then d ! (a - off) else bf_data f a),
      bf_pos := 0\<rparr>"
proof -
  from assms have good: "fs_good f" and off: "off < 2 ^ 63" by (auto simp: bf_ok_def)
  show ?thesis
    unfolding bin_write_def seek_good(1)[OF good off]
    using good assms(2)
    by (cases "d = []") (auto simp: fs_write_def seek_start max_def fs_good_def fun_eq_iff
        intro!: bin_file.equality)
qed

lemma bin_read_ok:
  assumes "bf_ok f" and "off + n \<le> bf_len f"
  shows "bin_read (of_nat off) n f = (map (bf_data f) [off..<off + n], f\<lparr>bf_pos := 0\<rparr>)"
proof -
  from assms have good: "fs_good f" and off: "off < 2 ^ 63" by (auto simp: bf_ok_def)
  have 1: "min n (bf_len f - off) = n" using assms(2) by simp
  show ?thesis
    unfolding bin_read_def seek_good(2)[OF good off]
    using good by (auto simp: fs_read_def 1 Let_def seek_start fs_good_def intro!: bin_file.equality)
qed

interpretation store: block_store bf_ok bf_len bf_data "\<lambda>off. bin_write (of_nat off)"
  "\<lambda>off. bin_read (of_nat off)"
  by (unfold_locales; simp add: bin_write_ok bin_read_ok)
     (auto simp: bf_ok_def fs_good_def bf_wf_def)

text \<open>What the first command sees: the first 8 MB are zero, whatever the file held before.\<close>

lemma GetBinFile_first:
  assumes "bf_ok f" and "bf_pos f = 0" 
  shows "GetBinFile True f = (False,
    f\<lparr>bf_data := (\<lambda>a. if a < 8 * MB then 0 else bf_data f a), bf_len := max (bf_len f) (8 * MB)\<rparr>)"
proof -
  from assms have good: "fs_good f" by (simp add: bf_ok_def)
  let ?z = "fs_write (replicate (8 * MB) 0) f"
  have z: "?z = f\<lparr>bf_data := (\<lambda>a. if a < 8 * MB then 0 else bf_data f a),
      bf_len := max (bf_len f) (8 * MB), bf_pos := 8 * MB\<rparr>"
    using good assms(2) size_consts
    by (auto simp: fs_write_def fun_eq_iff simp del: replicate.simps intro!: bin_file.equality)
  have "fs_seekp 0 ?z = ?z\<lparr>bf_pos := 0\<rparr>"
    using good by (intro seek_start fs_good_write)
  then show ?thesis
    using good assms(2) by (simp add: GetBinFile_def zero_loop_write z)
qed

lemma GetBinFile_later [simp]: "GetBinFile False f = (False, f)"
  by (simp add: GetBinFile_def)

text \<open>Once \<open>failbit\<close> is set nothing clears it: reads deliver nothing and writes change nothing.\<close>

lemma failed_stream:
  assumes "bf_fail f"
  shows "bf_fail (bin_write off d f)" and "bf_data (bin_write off d f) = bf_data f"
    and "bf_fail (snd (bin_read off n f))" and "fst (bin_read off n f) = []"
    and "bf_data (snd (bin_read off n f)) = bf_data f"
  using assms
  by (auto simp: bin_write_def bin_read_def fs_seekp_def fs_seekg_def fs_write_def fs_read_def fs_good_def)

lemma read_past_end_fails:
  assumes "bf_ok f" and "off < 2 ^ 63" and "bf_len f < off + n" and "0 < n"
  shows "bf_fail (snd (bin_read (of_nat off) n f))"
proof -
  from assms(1) have good: "fs_good f" by (simp add: bf_ok_def)
  show ?thesis
    unfolding bin_read_def seek_good(2)[OF good assms(2)]
    using good assms(3,4) by (auto simp: fs_read_def Let_def fs_seekg_def fs_seekp_def)
qed

subsection \<open>Properties\<close>

text \<open>
  Inside its extent the file of a minion is a block store: a read of what was just
  written returns it, and a write changes no other run of bytes.
\<close>

theorem minion_file_read_write:
  assumes "bf_ok f" and "off + length d \<le> bf_len f"
  shows "fst (bin_read (of_nat off) (length d) (bin_write (of_nat off) d f)) = d \<and>
    (\<forall>off' n. off' + n \<le> bf_len f \<and> (off' + n \<le> off \<or> off + length d \<le> off') \<longrightarrow>
       fst (bin_read (of_nat off') n (bin_write (of_nat off) d f)) = fst (bin_read (of_nat off') n f))"
  using store.read_own_write[OF assms] store.read_other_write[OF assms] by blast

theorem minion_file_read_write_witness:
  "fst (bin_read (of_nat 2) 2 (bin_write (of_nat 2) [7, 8] (stream_on [1, 2, 3, 4, 5]))) = [7, 8]"
proof -
  have "bf_ok (stream_on [1, 2, 3, 4, 5])"
    using bf_wf_stream_on[of "[1, 2, 3, 4, 5]"] by (simp add: bf_ok_def fs_good_def stream_on_def)
  then show ?thesis
    using minion_file_read_write[of "stream_on [1, 2, 3, 4, 5]" 2 "[7, 8]"]
    by (simp only: list.size) (simp add: stream_on_def numeral_2_eq_2)
qed

text \<open>
  One read past the end of the file disables it for good: the stream fails, and however
  many writes follow, none of them changes a byte.
\<close>

lemma read_past_end_disables_writes:
  assumes "bf_ok f" and "off < 2 ^ 63" and "bf_len f < off + n" and "0 < n"
  shows "let f' = fold (\<lambda>(a, d). bin_write a d) ws (snd (bin_read (of_nat off) n f))
    in bf_fail f' \<and> bf_data f' = bf_data f"
proof -
  have keep: "bf_fail g \<Longrightarrow> bf_fail (fold (\<lambda>(a, d). bin_write a d) ws g) \<and>
      bf_data (fold (\<lambda>(a, d). bin_write a d) ws g) = bf_data g" for g
    by (induction ws arbitrary: g) (auto simp: failed_stream)
  have "bf_data (snd (bin_read (of_nat off) n f)) = bf_data f"
    by (simp add: bin_read_def fs_read_def fs_seekg_def fs_seekp_def Let_def)
  then show ?thesis using keep[OF read_past_end_fails[OF assms]] by (simp add: Let_def)
qed

end
