(* ===== verification/Minion.thy ===== *)
theory Minion
  imports Message_Codec Sockets Minion_Store Command_Types
begin

text \<open>
  A minion process: \<open>MasterProxy\<close> (\<open>src/inputproxy.cpp\<close>), which turns datagrams from the
  master into tasks and sends the responses, and the commands \<open>MinionReadCmd\<close> and
  \<open>MinionWriteCmd\<close> (\<open>src/command.cpp\<close>), which work on the file of \<open>Minion_Store\<close>.
\<close>

record minion =
  mn_counter :: u32
  mn_is_init :: bool
  mn_file :: bin_file
  mn_rx :: "datagram list"
  mn_tx :: "datagram list"

text \<open>The two message factories the constructor of \<open>MasterProxy\<close> fills.\<close>

definition write_msg_factory :: "(int, host \<times> u32, write_msg \<times> u32) factory" where
  "write_msg_factory = AddCtor Factory_new (uint WRITE_MSG_KEY) (\<lambda>(h, c). CreateWriteMsg h c)"

definition read_msg_factory :: "(int, host \<times> u32, read_msg \<times> u32) factory" where
  "read_msg_factory = AddCtor Factory_new (uint READ_MSG_KEY) (\<lambda>(h, c). CreateReadMsg h c)"

definition MasterProxy :: "(string \<rightharpoonup> byte list) \<Rightarrow> string \<Rightarrow> minion" where
  "MasterProxy fs sock_port =
     \<lparr>mn_counter = m_static_counter_init, mn_is_init = True, mn_file = open_bin_file fs sock_port,
      mn_rx = [], mn_tx = []\<rparr>"

subsection \<open>Receiving a request\<close>

definition MasterProxy_GetArgsKey :: "host \<Rightarrow> minion \<Rightarrow> (args_key \<times> minion) result" where
  "MasterProxy_GetArgsKey h mn =
     (let key_and_size = new_char (h_garbage h 0) (4 + 4)
      in bindE (UDPSocket_Recive key_and_size (4 + 4) True (mn_rx mn)) (\<lambda>(key_and_size, rx).
         bindE (get_u32 key_and_size 0) (\<lambda>(k, p).
         let key = sint k
         in bindE (get_u32 key_and_size p) (\<lambda>(size, _).
         if key = uint WRITE_MSG_KEY then
           bindE (Create write_msg_factory key (h, mn_counter mn)) (\<lambda>(msg, counter).
           let n = WriteMsg_GetBufferSize msg + ucast size;
               buffer = new_char (h_garbage h 1) (unat n)
           in bindE (UDPSocket_Recive buffer (int_of_u64 n) False rx) (\<lambda>(buffer, rx).
              bindE (WriteMsg_FromBuffer msg buffer 0) (\<lambda>(msg, _).
              let (offset, len, data) = WriteMsg_SupplyArgs msg
              in Inr (MinionWriteArgsKey MINION_WRITE_CMD_KEY offset len data (GetUID msg),
                      mn\<lparr>mn_counter := counter, mn_rx := rx\<rparr>))))
         else
           bindE (Create read_msg_factory key (h, mn_counter mn)) (\<lambda>(msg, counter).
           let n = ReadMsg_GetBufferSize;
               buffer = new_char (h_garbage h 1) (unat n)
           in bindE (UDPSocket_Recive buffer (int_of_u64 n) False rx) (\<lambda>(buffer, rx).
              bindE (ReadMsg_FromBuffer msg buffer 0) (\<lambda>(msg, _).
              let (offset, len, _) = ReadMsg_SupplyArgs msg
              in Inr (MinionReadArgsKey MINION_READ_CMD_KEY offset len (GetUID msg),
                      mn\<lparr>mn_counter := counter, mn_rx := rx\<rparr>))))))))"

subsection \<open>Sending a response\<close>

definition MasterProxy_ReadResponse ::
    "host \<Rightarrow> uid \<Rightarrow> bool \<Rightarrow> byte list option \<Rightarrow> u32 \<Rightarrow> minion \<Rightarrow> minion result" where
  "MasterProxy_ReadResponse h uid is_success data len mn =
     (let msg = MinionReadMsg uid is_success data len;
          n = MinionReadMsg_GetBufferSize + ucast len;
          buffer = new_char (h_garbage h 2) (unat n)
      in bindE (MinionReadMsg_ToBuffer msg (buffer, 0)) (\<lambda>(buffer, _).
         bindE (UDPSocket_Send h buffer (int_of_u64 n)) (\<lambda>sent.
           Inr (case sent of Some d \<Rightarrow> mn\<lparr>mn_tx := mn_tx mn @ [d]\<rparr> | None \<Rightarrow> mn))))"

definition MasterProxy_WriteResponse :: "host \<Rightarrow> uid \<Rightarrow> bool \<Rightarrow> minion \<Rightarrow> minion result" where
  "MasterProxy_WriteResponse h uid is_success mn =
     (let msg = MinionWriteMsg uid is_success;
          n = MinionWriteMsg_GetBufferSize;
          buffer = new_char (h_garbage h 2) (unat n)
      in bindE (MinionWriteMsg_ToBuffer msg (buffer, 0)) (\<lambda>(buffer, _).
         bindE (UDPSocket_Send h buffer (int_of_u64 n)) (\<lambda>sent.
           Inr (case sent of Some d \<Rightarrow> mn\<lparr>mn_tx := mn_tx mn @ [d]\<rparr> | None \<Rightarrow> mn))))"

subsection \<open>The commands\<close>

text \<open>A failed cast leaves a null pointer, which the commands dereference without a check.\<close>

definition MinionReadCmd_Execute :: "host \<Rightarrow> args_key \<Rightarrow> minion \<Rightarrow> (cmd_result \<times> minion) result" where
  "MinionReadCmd_Execute h task_args mn =
     (case task_args of
        MinionReadArgsKey _ offset n uid \<Rightarrow>
          let data = new_char (h_garbage h 3) (unat n);
              (is_init, file) = GetBinFile (mn_is_init mn) (mn_file mn);
              (bytes, file) = bin_read offset (unat n) file;
              data = bytes @ drop (length bytes) data
          in bindE (MasterProxy_ReadResponse h uid True (Some data) n
                     (mn\<lparr>mn_is_init := is_init, mn_file := file\<rparr>)) (\<lambda>mn.
             Inr ((None, 500), mn))
      | _ \<Rightarrow> Inl Undefined)"

definition MinionWriteCmd_Execute :: "host \<Rightarrow> args_key \<Rightarrow> minion \<Rightarrow> (cmd_result \<times> minion) result" where
  "MinionWriteCmd_Execute h task_args mn =
     (case task_args of
        MinionWriteArgsKey _ offset n data uid \<Rightarrow>
          let (is_init, file) = GetBinFile (mn_is_init mn) (mn_file mn)
          in bindE (memcpy_src data (unat n)) (\<lambda>bytes.
             let file = bin_write offset bytes file
             in bindE (MasterProxy_WriteResponse h uid True
                        (mn\<lparr>mn_is_init := is_init, mn_file := file\<rparr>)) (\<lambda>mn.
                Inr ((None, 500), mn)))
      | _ \<Rightarrow> Inl Undefined)"

text \<open>\<open>ICommand::Execute\<close> in a minion; the master's commands are never in its factory.\<close>

definition minion_Execute :: "host \<Rightarrow> command \<Rightarrow> args_key \<Rightarrow> minion \<Rightarrow> (cmd_result \<times> minion) result" where
  "minion_Execute h cmd task_args mn =
     (case cmd of
        MinionReadCmd \<Rightarrow> MinionReadCmd_Execute h task_args mn
      | MinionWriteCmd \<Rightarrow> MinionWriteCmd_Execute h task_args mn
      | _ \<Rightarrow> Inl Undefined)"

text \<open>
  One readable datagram, handled to the end: the reactor's callback (\<open>GetArgsKey\<close>, then a
  task for the pool) and the task's run by a worker.
\<close>

definition minion_handle :: "host \<Rightarrow> minion \<Rightarrow> minion result" where
  "minion_handle h mn =
     bindE (MasterProxy_GetArgsKey h mn) (\<lambda>(args, mn).
     bindE (TPTask_Run (minion_Execute h) minion_factory args mn) (\<lambda>(_, mn). Inr mn))"

end
