(* ===== verification/Minion_Correct.thy ===== *)
theory Minion_Correct
  imports Minion
begin

text \<open>
  What a minion does with each kind of request: the task it builds, the change to its file
  and the response it sends; what it does with a datagram of any content; and the
  well-formedness of its state that every request keeps.
\<close>

subsection \<open>The first eight bytes of a datagram\<close>

lemma key_int: "sint WRITE_MSG_KEY = 8" "uint WRITE_MSG_KEY = 8" "sint READ_MSG_KEY = 9"
    "uint READ_MSG_KEY = 9"
  by (simp_all add: key_defs)

lemma take8_amessage: "take 8 (amessage_wire m @ rest) = le_bytes 4 (m_key m) @ le_bytes 4 (m_size m)"
  by (simp add: amessage_wire_def)

lemma take8_write_wire: "take 8 (write_wire m) = le_bytes 4 (m_key m) @ le_bytes 4 (m_size m)"
  by (simp add: write_wire_def with_checksum_def amessage_wire_def)

lemma take8_read_wire: "take 8 (read_wire m) = le_bytes 4 (m_key m) @ le_bytes 4 (m_size m)"
  by (simp add: read_wire_def with_checksum_def amessage_wire_def)

lemma get_key: "get_u32 (le_bytes 4 k @ rest) 0 = Inr (k, 4)"
  by (simp add: get_u32_def)

lemma get_size: "get_u32 (le_bytes 4 k @ le_bytes 4 n) 4 = Inr (n, 8)"
  using get_u32_at[of "le_bytes 4 k @ le_bytes 4 n" "le_bytes 4 k" n "[]" 4] by simp

lemma peek8:
  assumes "8 \<le> length d"
  shows "UDPSocket_Recive (new_char g (4 + 4)) (4 + 4) True (d # queue) = Inr (take 8 d, d # queue)"
  using UDPSocket_Recive_peek[of 8 "new_char g 8" d queue] assms by (simp add: size_t_of_int_def)

subsection \<open>The receiving objects\<close>

text \<open>A creator succeeds while the clock is good; the object it makes has size 0.\<close>

lemma CreateWriteMsg_ok:
  assumes "\<not> bit (h_time h c) 31"
  obtains m0 where "CreateWriteMsg h c = Inr (m0, c + 1)" and "m_size m0 = 0"
  using ThreadSafeUID_ok[OF assms] by (simp add: CreateWriteMsg_def msg_ctor_defs)

lemma CreateReadMsg_ok:
  assumes "\<not> bit (h_time h c) 31"
  obtains m0 where "CreateReadMsg h c = Inr (m0, c + 1)"
  using ThreadSafeUID_ok[OF assms] by (simp add: CreateReadMsg_def)

lemma write_factory_Create: "Create write_msg_factory 8 (h, c) = CreateWriteMsg h c"
  by (simp add: write_msg_factory_def Create_AddCtor key_int)

lemma read_factory_Create:
  "Create read_msg_factory k (h, c) =
     (if k = 9 then CreateReadMsg h c else Inl (Out_of_range ''key is not in map''))"
  by (simp add: read_msg_factory_def Create_AddCtor Create_new key_int)

lemma unat_recv_size:
  "m_size m0 = 0 \<Longrightarrow> unat (WriteMsg_GetBufferSize m0 + ucast (n :: u32)) = 41 + unat n"
  using unat_add_ucast32[of 41 n]
  by (simp add: WriteMsg_GetBufferSize_def AMessage_GetBufferSize_def UID_GetBufferSize_def GetSize_def)

subsection \<open>Requests\<close>

lemma GetArgsKey_write:
  assumes rx: "mn_rx mn = write_wire m # queue" and wf: "write_wf m"
    and key: "m_key m = WRITE_MSG_KEY" and size: "unat (m_size m) < 2 ^ 31 - 41"
    and clock: "\<not> bit (h_time h (mn_counter mn)) 31"
  shows "MasterProxy_GetArgsKey h mn =
    Inr (MinionWriteArgsKey MINION_WRITE_CMD_KEY (wr_offset m) (m_size m) (wr_data m) (m_uid m),
         mn\<lparr>mn_counter := mn_counter mn + 1, mn_rx := queue\<rparr>)"
proof -
  from CreateWriteMsg_ok[OF clock] obtain m0 where
    m0: "CreateWriteMsg h (mn_counter mn) = Inr (m0, mn_counter mn + 1)" "m_size m0 = 0" .
  let ?n = "WriteMsg_GetBufferSize m0 + ucast (m_size m)"
  have n: "unat ?n = length (write_wire m)"
    using unat_recv_size[OF m0(2)] length_write_wire[OF wf] by simp
  have 1: "UDPSocket_Recive (new_char (h_garbage h 0) (4 + 4)) (4 + 4) True (mn_rx mn) =
      Inr (le_bytes 4 (m_key m) @ le_bytes 4 (m_size m), write_wire m # queue)"
    unfolding rx take8_write_wire[symmetric] by (rule peek8) (simp add: length_write_wire[OF wf])
  have 2: "UDPSocket_Recive (new_char (h_garbage h 1) (unat ?n)) (int_of_u64 ?n) False
      (write_wire m # queue) = Inr (write_wire m, queue)"
    using size n length_write_wire[OF wf] by (intro UDPSocket_Recive_whole) (simp_all add: size_t_small)
  have 3: "WriteMsg_FromBuffer m0 (write_wire m) 0 = Inr (m, length (write_wire m))"
    using write_codec.from_wire[OF wf] .
  show ?thesis
    unfolding MasterProxy_GetArgsKey_def Let_def 1 bindE_Inr prod.case
    using 2 3
    by (simp add: get_key get_size key key_int write_factory_Create m0(1)
        WriteMsg_SupplyArgs_def GetSize_def GetUID_def)
qed

lemma GetArgsKey_read:
  assumes rx: "mn_rx mn = read_wire m # queue" and key: "m_key m = READ_MSG_KEY"
    and clock: "\<not> bit (h_time h (mn_counter mn)) 31"
  shows "MasterProxy_GetArgsKey h mn =
    Inr (MinionReadArgsKey MINION_READ_CMD_KEY (rd_offset m) (m_size m) (m_uid m),
         mn\<lparr>mn_counter := mn_counter mn + 1, mn_rx := queue\<rparr>)"
proof -
  from CreateReadMsg_ok[OF clock] obtain m0 where
    m0: "CreateReadMsg h (mn_counter mn) = Inr (m0, mn_counter mn + 1)" .
  have 1: "UDPSocket_Recive (new_char (h_garbage h 0) (4 + 4)) (4 + 4) True (mn_rx mn) =
      Inr (le_bytes 4 (m_key m) @ le_bytes 4 (m_size m), read_wire m # queue)"
    unfolding rx take8_read_wire[symmetric] by (rule peek8) simp
  have 2: "UDPSocket_Recive (new_char (h_garbage h 1) (unat ReadMsg_GetBufferSize))
      (int_of_u64 ReadMsg_GetBufferSize) False (read_wire m # queue) = Inr (read_wire m, queue)"
    by (rule UDPSocket_Recive_whole) (simp_all add: size_t_small)
  have 3: "ReadMsg_FromBuffer m0 (read_wire m) 0 = Inr (m, length (read_wire m))"
    using read_codec.from_wire by simp
  show ?thesis
    unfolding MasterProxy_GetArgsKey_def Let_def 1 bindE_Inr prod.case
    using 2 3
    by (simp add: get_key get_size key key_int read_factory_Create m0
        ReadMsg_SupplyArgs_def GetSize_def GetUID_def)
qed

subsection \<open>Responses\<close>

abbreviation send_response :: "minion \<Rightarrow> datagram \<Rightarrow> minion" where
  "send_response mn d \<equiv> mn\<lparr>mn_tx := mn_tx mn @ [d]\<rparr>"

lemma ReadResponse_sends:
  assumes d: "length d = unat n" and n: "unat n < 2 ^ 31 - 33" and udp: "33 + unat n \<le> h_udp_max h"
  shows "MasterProxy_ReadResponse h uid ok (Some d) n mn =
    Inr (send_response mn (minion_read_wire (MinionReadMsg uid ok (Some d) n)))"
proof -
  let ?m = "MinionReadMsg uid ok (Some d) n"
  let ?n = "MinionReadMsg_GetBufferSize + ucast n"
  have wf: "minion_read_wf ?m" using d by (simp add: msg_ctor_defs)
  have size: "unat ?n = 33 + unat n"
    using unat_add_ucast32[of 33 n]
    by (simp add: MinionReadMsg_GetBufferSize_def AMessage_GetBufferSize_def UID_GetBufferSize_def)
  have len: "length (minion_read_wire ?m) = 33 + unat n"
    using length_minion_read_wire[OF wf] by (simp add: msg_ctor_defs)
  have "length (new_char (h_garbage h 2) (unat ?n)) = length (minion_read_wire ?m)"
    by (simp add: size len)
  from minion_read_codec.to_buffer_exact[OF wf this] obtain q where
    1: "MinionReadMsg_ToBuffer ?m (new_char (h_garbage h 2) (unat ?n), 0) = Inr (minion_read_wire ?m, q)"
    by blast
  have 2: "UDPSocket_Send h (minion_read_wire ?m) (int_of_u64 ?n) = Inr (Some (minion_read_wire ?m))"
    using n udp size len by (intro UDPSocket_Send_whole) (simp_all add: size_t_small)
  show ?thesis by (simp add: MasterProxy_ReadResponse_def Let_def 1 2)
qed

lemma WriteResponse_sends:
  assumes udp: "33 \<le> h_udp_max h"
  shows "MasterProxy_WriteResponse h uid ok mn =
    Inr (send_response mn (minion_write_wire (MinionWriteMsg uid ok)))"
proof -
  let ?m = "MinionWriteMsg uid ok"
  have 1: "MinionWriteMsg_ToBuffer ?m (new_char (h_garbage h 2) 33, 0) = Inr (minion_write_wire ?m, 33)"
    unfolding MinionWriteMsg_ToBuffer_puts using puts_whole[of "new_char (h_garbage h 2) 33" "minion_write_wire ?m"]
    by simp
  have 2: "UDPSocket_Send h (minion_write_wire ?m) (int_of_u64 MinionWriteMsg_GetBufferSize) =
      Inr (Some (minion_write_wire ?m))"
    using udp by (intro UDPSocket_Send_whole) (simp_all add: size_t_small)
  show ?thesis by (simp add: MasterProxy_WriteResponse_def Let_def 1 2)
qed

subsection \<open>The file as the commands see it\<close>

definition mn_store :: "minion \<Rightarrow> bin_file" where
  "mn_store mn = snd (GetBinFile (mn_is_init mn) (mn_file mn))"

definition minion_wf :: "minion \<Rightarrow> bool" where
  "minion_wf mn \<longleftrightarrow> bf_ok (mn_file mn) \<and>
     (if mn_is_init mn then bf_pos (mn_file mn) = 0 else 8 * MB \<le> bf_len (mn_file mn))"

lemma GetBinFile_flag [simp]: "fst (GetBinFile b f) = False"
  by (simp add: GetBinFile_def)

lemma GetBinFile_store: "GetBinFile (mn_is_init mn) (mn_file mn) = (False, mn_store mn)"
  by (simp add: mn_store_def prod_eq_iff)

lemma minion_wf_store:
  assumes "minion_wf mn"
  shows "bf_ok (mn_store mn)" and "8 * MB \<le> bf_len (mn_store mn)"
  using assms GetBinFile_first[of "mn_file mn"]
  by (auto simp: minion_wf_def mn_store_def bf_ok_def fs_good_def bf_wf_def size_consts
      split: if_splits)

lemma mn_store_later [simp]: "\<not> mn_is_init mn \<Longrightarrow> mn_store mn = mn_file mn"
  by (simp add: mn_store_def)

lemma handle_write:
  assumes rx: "mn_rx mn = write_wire m # queue"
    and m: "write_wf m" "m_key m = WRITE_MSG_KEY" "unat (m_size m) < 2 ^ 31 - 41"
    and clock: "\<not> bit (h_time h (mn_counter mn)) 31" and udp: "33 \<le> h_udp_max h"
  shows "minion_handle h mn = Inr (mn\<lparr>mn_counter := mn_counter mn + 1, mn_is_init := False,
      mn_file := bin_write (wr_offset m) (the (wr_data m)) (mn_store mn), mn_rx := queue,
      mn_tx := mn_tx mn @ [minion_write_wire (MinionWriteMsg (m_uid m) True)]\<rparr>)"
proof -
  from m(1) obtain d where d: "wr_data m = Some d" "length d = unat (m_size m)" by (rule carriesE)
  let ?mn = "mn\<lparr>mn_counter := mn_counter mn + 1, mn_rx := queue\<rparr>"
  have store: "mn_store ?mn = mn_store mn" by (simp add: mn_store_def)
  have gb: "GetBinFile (mn_is_init ?mn) (mn_file ?mn) = (False, mn_store mn)"
    using GetBinFile_store[of ?mn] store by simp
  show ?thesis
    unfolding minion_handle_def GetArgsKey_write[OF rx m clock] bindE_Inr prod.case
      TPTask_Run_def Let_def args_key.sel minion_factory_Create minion_Execute_def command.case
      MinionWriteCmd_Execute_def args_key.case gb memcpy_src_Some[OF d(2)] d(1)
      WriteResponse_sends[OF udp]
    by simp
qed

lemma handle_read:
  assumes wf: "minion_wf mn" and rx: "mn_rx mn = read_wire m # queue" and key: "m_key m = READ_MSG_KEY"
    and range: "unat (rd_offset m) + unat (m_size m) \<le> bf_len (mn_store mn)"
    and clock: "\<not> bit (h_time h (mn_counter mn)) 31"
    and size: "unat (m_size m) < 2 ^ 31 - 33" and udp: "33 + unat (m_size m) \<le> h_udp_max h"
  shows "minion_handle h mn = Inr (mn\<lparr>mn_counter := mn_counter mn + 1, mn_is_init := False,
      mn_file := (mn_store mn)\<lparr>bf_pos := 0\<rparr>, mn_rx := queue,
      mn_tx := mn_tx mn @ [minion_read_wire (MinionReadMsg (m_uid m) True
        (Some (map (bf_data (mn_store mn)) [unat (rd_offset m)..<unat (rd_offset m) + unat (m_size m)]))
        (m_size m))]\<rparr>)"
proof -
  let ?mn = "mn\<lparr>mn_counter := mn_counter mn + 1, mn_rx := queue\<rparr>"
  let ?bytes = "map (bf_data (mn_store mn)) [unat (rd_offset m)..<unat (rd_offset m) + unat (m_size m)]"
  have store: "mn_store ?mn = mn_store mn" by (simp add: mn_store_def)
  have gb: "GetBinFile (mn_is_init ?mn) (mn_file ?mn) = (False, mn_store mn)"
    using GetBinFile_store[of ?mn] store by simp
  have rd: "bin_read (rd_offset m) (unat (m_size m)) (mn_store mn) =
      (?bytes, (mn_store mn)\<lparr>bf_pos := 0\<rparr>)"
    using bin_read_ok[OF minion_wf_store(1)[OF wf] range] by simp
  have data: "?bytes @ drop (length ?bytes) (new_char (h_garbage h 3) (unat (m_size m))) = ?bytes"
    by simp
  have len: "length ?bytes = unat (m_size m)" by simp
  show ?thesis
    unfolding minion_handle_def GetArgsKey_read[OF rx key clock] bindE_Inr prod.case
      TPTask_Run_def Let_def args_key.sel minion_factory_Create minion_Execute_def command.case
      MinionReadCmd_Execute_def args_key.case gb rd data ReadResponse_sends[OF len size udp]
    by simp
qed

lemma minion_wf_write:
  assumes "minion_wf mn" and "off + length d \<le> 8 * MB"
  shows "minion_wf (mn\<lparr>mn_is_init := False, mn_file := bin_write (of_nat off) d (mn_store mn)\<rparr>)"
  using minion_wf_store[OF assms(1)] assms(2)
    store.wr_ok[of "mn_store mn" off d] store.wr_extent[of "mn_store mn" off d]
  by (simp add: minion_wf_def)

lemma minion_wf_read:
  "minion_wf mn \<Longrightarrow> minion_wf (mn\<lparr>mn_is_init := False, mn_file := (mn_store mn)\<lparr>bf_pos := 0\<rparr>\<rparr>)"
  using minion_wf_store[of mn] by (auto simp: minion_wf_def bf_ok_def fs_good_def bf_wf_def)

lemma minion_wf_frame:
  "minion_wf (mn\<lparr>mn_counter := c\<rparr>) = minion_wf mn"
  "minion_wf (mn\<lparr>mn_rx := rx\<rparr>) = minion_wf mn"
  "minion_wf (mn\<lparr>mn_tx := tx\<rparr>) = minion_wf mn"
  by (simp_all add: minion_wf_def)

lemma mn_store_frame [simp]:
  "mn_store (mn\<lparr>mn_counter := c\<rparr>) = mn_store mn"
  "mn_store (mn\<lparr>mn_rx := rx\<rparr>) = mn_store mn"
  "mn_store (mn\<lparr>mn_tx := tx\<rparr>) = mn_store mn"
  by (simp_all add: mn_store_def)

lemma minion_wf_MasterProxy:
  assumes "\<forall>name bytes. fs name = Some bytes \<longrightarrow> length bytes < 2 ^ 63"
  shows "minion_wf (MasterProxy fs port)"
  using assms bf_wf_stream_on
  by (auto simp: minion_wf_def MasterProxy_def open_bin_file_def bf_ok_def fs_good_def stream_on_def
      bf_wf_def split: option.splits)

subsection \<open>Datagrams of any content\<close>

lemma size_t_big:
  assumes "2 ^ 31 \<le> unat n" and "unat n < 2 ^ 32"
  shows "2 ^ 31 \<le> size_t_of_int (int_of_u64 n)"
proof -
  let ?i = "sint (ucast n :: u32)"
  have "unat n div 2 ^ 31 = 1" using assms by simp
  then have "bit (unat n) 31" by (simp add: bit_iff_odd)
  then have "bit n 31" by (simp add: bit_unsigned_iff)
  then have neg: "?i < 0" by (simp add: sint_ucast_neg)
  have low: "- (2 ^ 31) \<le> ?i" using sint_greater_eq[of "ucast n :: u32"] by simp
  have "(?i + 2 ^ 64) mod 2 ^ 64 = ?i + 2 ^ 64"
    using neg low by (intro mod_pos_pos_trivial) simp_all
  then have "?i mod 2 ^ 64 = ?i + 2 ^ 64" by simp
  then have "size_t_of_int (int_of_u64 n) = nat (?i + 2 ^ 64)"
    by (simp add: size_t_of_int_def int_of_u64_def)
  with low show ?thesis by simp
qed

text \<open>
  The first eight bytes of a buffer that a datagram has been received into: those of the
  datagram, and, when it is shorter, what the memory held before; and the size found there.
\<close>

definition head_of :: "(nat \<Rightarrow> byte) \<Rightarrow> datagram \<Rightarrow> byte list" where
  "head_of g d = take 8 d @ drop (length (take 8 d)) (new_char g 8)"

definition size_found :: "(nat \<Rightarrow> byte) \<Rightarrow> datagram \<Rightarrow> u32" where
  "size_found g d = le_word (take 4 (drop 4 (head_of g d)))"

lemma length_head_of [simp]: "length (head_of g d) = 8"
  by (simp add: head_of_def)

lemma size_found_long: "8 \<le> length d \<Longrightarrow> size_found g d = le_word (take 4 (drop 4 d))"
  by (simp add: size_found_def head_of_def drop_take)

lemma peek_head: "UDPSocket_Recive (new_char g (4 + 4)) (4 + 4) True (d # queue) = Inr (head_of g d, d # queue)"
  by (simp add: UDPSocket_Recive_def size_t_of_int_def store_def head_of_def)

lemma take_head:
  assumes "8 \<le> k" and "8 \<le> n"
  shows "take 8 (take k d @ drop (length (take k d)) (new_char g n)) = head_of g d"
proof (cases "8 \<le> length d")
  case True
  then show ?thesis using assms by (simp add: head_of_def min_def)
next
  case False
  then show ?thesis using assms by (simp add: head_of_def new_char_def take_drop take_map)
qed

lemma size_bytes: "take 8 bs = bs' \<Longrightarrow> take 4 (drop 4 bs) = take 4 (drop 4 bs')"
  by (auto simp: drop_take)

text \<open>
  A datagram is received into a buffer at least as long as it announces: nothing is written
  outside.
\<close>

lemma recv_announced:
  assumes d: "length d \<le> 65507" and n: "unat n < 2 ^ 32" "41 \<le> unat n"
    and fit: "unat n < 2 ^ 31 \<or> length d \<le> unat n"
  obtains buf where
    "UDPSocket_Recive (new_char g (unat n)) (int_of_u64 n) False (d # queue) = Inr (buf, queue)"
    and "length buf = unat n" and "take 4 (drop 4 buf) = take 4 (drop 4 (head_of g d))"
proof -
  let ?k = "size_t_of_int (int_of_u64 n)"
  have k: "?k = unat n \<or> 65507 \<le> ?k"
    using size_t_small[of n] size_t_big[of n] n by (cases "unat n < 2 ^ 31") auto
  let ?got = "take ?k d"
  have fits: "length ?got \<le> unat n"
    using k d n size_t_small[of n] size_t_big[of n] by (cases "unat n < 2 ^ 31") auto
  let ?buf = "?got @ drop (length ?got) (new_char g (unat n))"
  have "8 \<le> ?k" using k n by auto
  then have "take 8 ?buf = head_of g d" using take_head[of ?k "unat n" d g] n by simp
  then have "take 4 (drop 4 ?buf) = take 4 (drop 4 (head_of g d))" by (rule size_bytes)
  moreover have "UDPSocket_Recive (new_char g (unat n)) (int_of_u64 n) False (d # queue) = Inr (?buf, queue)"
    using fits by (simp add: UDPSocket_Recive_def store_def)
  moreover have "length ?buf = unat n" using fits by simp
  ultimately show thesis by (intro that)
qed

text \<open>
  C22: no datagram a socket can deliver, of any length and content, makes
  \<open>MasterProxy::GetArgsKey\<close> read or write outside a buffer, when the size it finds on peeking does
  not overflow the 32-bit conversion of the receive size, and the size it finds again in what it
  receives is no larger: it becomes a task or an exception. A datagram that holds a whole header
  has the same size in both places; of a shorter one each comes from indeterminate memory.
\<close>

theorem any_datagram_is_safe:
  assumes rx: "mn_rx mn = d # queue" and d: "length d \<le> 65507"
    and size: "unat (size_found (h_garbage h 0) d) < 2 ^ 32 - 41"
    and again: "8 \<le> length d \<or> size_found (h_garbage h 1) d \<le> size_found (h_garbage h 0) d"
    and clock: "\<not> bit (h_time h (mn_counter mn)) 31"
  shows "MasterProxy_GetArgsKey h mn \<noteq> Inl Undefined"
proof -
  let ?size = "size_found (h_garbage h 0) d"
  from CreateWriteMsg_ok[OF clock] obtain w0 where
    w0: "CreateWriteMsg h (mn_counter mn) = Inr (w0, mn_counter mn + 1)" "m_size w0 = 0" .
  from CreateReadMsg_ok[OF clock] obtain r0 where
    r0: "CreateReadMsg h (mn_counter mn) = Inr (r0, mn_counter mn + 1)" .
  let ?n = "WriteMsg_GetBufferSize w0 + ucast ?size"
  have n: "unat ?n = 41 + unat ?size" using unat_recv_size[OF w0(2)] .
  have n': "unat ?n < 2 ^ 32" "41 \<le> unat ?n" "unat ?n < 2 ^ 31 \<or> length d \<le> unat ?n" using n size d by auto
  obtain wbuf where wbuf:
    "UDPSocket_Recive (new_char (h_garbage h 1) (unat ?n)) (int_of_u64 ?n) False (d # queue) =
       Inr (wbuf, queue)" "length wbuf = unat ?n"
    "le_word (take 4 (drop 4 wbuf)) = size_found (h_garbage h 1) d"
    using recv_announced[OF d n'] by (metis size_found_def)
  have "size_found (h_garbage h 1) d \<le> ?size" using again by (auto simp: size_found_long)
  then have "unat (size_found (h_garbage h 1) d) \<le> unat ?size" by (simp add: word_le_nat_alt)
  then have w: "WriteMsg_FromBuffer w0 wbuf 0 \<noteq> Inl Undefined"
    using wbuf n by (intro WriteMsg_FromBuffer_bounds(1)[OF refl]) simp_all
  have 41: "unat ReadMsg_GetBufferSize < 2 ^ 32" "41 \<le> unat ReadMsg_GetBufferSize"
    "unat ReadMsg_GetBufferSize < 2 ^ 31 \<or> length d \<le> unat ReadMsg_GetBufferSize" by simp_all
  obtain rbuf where rbuf:
    "UDPSocket_Recive (new_char (h_garbage h 1) 41) (int_of_u64 ReadMsg_GetBufferSize) False (d # queue) =
       Inr (rbuf, queue)" "length rbuf = 41"
    using recv_announced[OF d 41] by (metis unat_fixed_GetBufferSize(1))
  have r: "ReadMsg_FromBuffer r0 rbuf 0 \<noteq> Inl Undefined"
    using ReadMsg_FromBuffer_checks[OF rbuf(2), of r0] by (auto split: if_splits)
  obtain key where hd: "get_u32 (head_of (h_garbage h 0) d) 0 = Inr (key, 4)" "get_u32 (head_of (h_garbage h 0) d) 4 = Inr (?size, 8)"
    by (simp add: get_u32_in size_found_def)
  show ?thesis
    unfolding MasterProxy_GetArgsKey_def Let_def rx peek_head bindE_Inr prod.case hd
    using w r w0(1) r0 wbuf(1) rbuf(1)
    by (auto simp: key_int write_factory_Create read_factory_Create bindE_def
        split: sum.splits prod.splits)
qed

theorem any_datagram_is_safe_witness:
  "MasterProxy_GetArgsKey demo_host ((MasterProxy Map.empty ''7070'')
     \<lparr>mn_rx := [(write_wire (WriteMsg 0 3 (Some [1, 2, 3]) demo_uid))[0 := 77, 20 := 255]]\<rparr>) \<noteq> Inl Undefined \<and>
   MasterProxy_GetArgsKey demo_host ((MasterProxy Map.empty ''7070'')\<lparr>mn_rx := [[29]]\<rparr>) \<noteq> Inl Undefined"
proof
  let ?w = "write_wire (WriteMsg 0 3 (Some [1, 2, 3]) demo_uid)"
  have clock: "\<not> bit (h_time demo_host c) 31" for c using time_ok_demo by (simp add: time_ok_def)
  have len: "length ?w = 44" by (subst length_write_wire) (simp_all add: msg_ctor_defs)
  have "le_word (take 4 (drop 4 (?w[0 := 77, 20 := 255]))) = m_size (WriteMsg 0 3 (Some [1, 2, 3]) demo_uid)"
    using size_field_update[of 20 "?w[0 := 77]" 255] size_field_update[of 0 ?w 77]
      size_field_write_wire[of "WriteMsg 0 3 (Some [1, 2, 3]) demo_uid"] by simp
  moreover have "m_size (WriteMsg 0 3 (Some [1, 2, 3]) demo_uid) = 3" by (simp add: msg_ctor_defs)
  ultimately have "size_found g (?w[0 := 77, 20 := 255]) = 3" for g
    using size_found_long[of "?w[0 := 77, 20 := 255]" g] len by simp
  then show "MasterProxy_GetArgsKey demo_host ((MasterProxy Map.empty ''7070'')\<lparr>mn_rx := [?w[0 := 77, 20 := 255]]\<rparr>) \<noteq> Inl Undefined"
    by (intro any_datagram_is_safe[where d = "?w[0 := 77, 20 := 255]" and queue = "[]"]) (simp_all add: len clock)
  have "size_found (h_garbage demo_host k) [29] = le_word [170, 170, 170, 170]" for k
    by (simp add: size_found_def head_of_def new_char_def demo_host_def upt_rec)
  then show "MasterProxy_GetArgsKey demo_host ((MasterProxy Map.empty ''7070'')\<lparr>mn_rx := [[29]]\<rparr>) \<noteq> Inl Undefined"
    by (intro any_datagram_is_safe[where d = "[29]" and queue = "[]"]) (simp_all add: clock)
qed

text \<open>
  Without the second condition four bytes are enough: the key of a write alone, received where
  the memory held a large size.
\<close>

lemma short_datagram_overruns:
  fixes h defines "h \<equiv> demo_host\<lparr>h_garbage := \<lambda>k _. if k = 0 then 0 else 255\<rparr>"
  assumes rx: "mn_rx mn = le_bytes 4 WRITE_MSG_KEY # queue"
  shows "MasterProxy_GetArgsKey h mn = Inl Undefined"
proof -
  let ?d = "le_bytes 4 WRITE_MSG_KEY"
  have clock: "\<not> bit (h_time h (mn_counter mn)) 31" using time_ok_demo by (simp add: h_def time_ok_def)
  from CreateWriteMsg_ok[OF clock] obtain w0 where
    w0: "CreateWriteMsg h (mn_counter mn) = Inr (w0, mn_counter mn + 1)" "m_size w0 = 0" .
  have g: "h_garbage h 0 = (\<lambda>_. 0)" "h_garbage h 1 = (\<lambda>_. 255)" by (simp_all add: h_def)
  have head: "head_of m ?d = ?d @ map m [4..<8]" for m
    by (simp add: head_of_def new_char_def drop_map)
  have size: "size_found (h_garbage h 0) ?d = 0" "unat (size_found (h_garbage h 1) ?d) = 2 ^ 32 - 1"
    unfolding size_found_def g head by (simp_all add: upt_rec)
  have hd: "get_u32 (head_of (h_garbage h 0) ?d) 0 = Inr (WRITE_MSG_KEY, 4)" "get_u32 (head_of (h_garbage h 0) ?d) 4 = Inr (0, 8)"
    using size(1) by (simp_all add: get_u32_in size_found_def) (simp add: head)
  let ?n = "WriteMsg_GetBufferSize w0 + ucast (0 :: u32)"
  have n: "unat ?n = 41" using unat_recv_size[OF w0(2), of 0] by simp
  obtain wbuf where wbuf:
    "UDPSocket_Recive (new_char (h_garbage h 1) (unat ?n)) (int_of_u64 ?n) False (?d # queue) = Inr (wbuf, queue)"
    "length wbuf = unat ?n" "le_word (take 4 (drop 4 wbuf)) = size_found (h_garbage h 1) ?d"
    using recv_announced[of ?d ?n "h_garbage h 1" queue] n by (force simp: size_found_def)
  have w: "WriteMsg_FromBuffer w0 wbuf 0 = Inl Undefined"
    using wbuf(2,3) n size(2) by (intro WriteMsg_FromBuffer_bounds(2)[OF refl]) simp_all
  show ?thesis
    unfolding MasterProxy_GetArgsKey_def Let_def rx peek_head bindE_Inr prod.case hd
    using w w0(1) wbuf(1) by (simp add: key_int write_factory_Create)
qed

subsection \<open>Properties\<close>

lemma minion_wf_start: "minion_wf ((MasterProxy Map.empty port)\<lparr>mn_rx := rx\<rparr>)"
  using minion_wf_MasterProxy[of Map.empty port] by (simp add: minion_wf_frame)

text \<open>
  C9: a well-formed minion that receives a write request inside its file applies it: the
  bytes asked for change, no others do, one answer of success with the request's identifier
  is sent, the datagram is consumed, and the minion is well formed again.
\<close>

theorem minion_applies_write:
  assumes "minion_wf mn" and "mn_rx mn = write_wire (WriteMsg (of_nat a) n (Some d) u) # queue"
    and "length d = unat n" and "a + length d \<le> 8 * MB" and "\<not> bit (h_time h (mn_counter mn)) 31"
    and "33 \<le> h_udp_max h"
  shows "\<exists>mn'. minion_handle h mn = Inr mn' \<and> minion_wf mn' \<and> mn_rx mn' = queue \<and>
    mn_tx mn' = mn_tx mn @ [minion_write_wire (MinionWriteMsg u True)] \<and>
    (\<forall>x. bf_data (mn_store mn') x =
       (if a \<le> x \<and> x < a + length d then d ! (x - a) else bf_data (mn_store mn) x))"
proof -
  let ?m = "WriteMsg (of_nat a) n (Some d) u"
  have m: "write_wf ?m" "m_key ?m = WRITE_MSG_KEY" "unat (m_size ?m) < 2 ^ 31 - 41"
    and f: "wr_offset ?m = of_nat a" "wr_data ?m = Some d" "m_uid ?m = u"
    using assms(3,4) by (simp_all add: msg_ctor_defs size_consts)
  let ?mn = "mn\<lparr>mn_counter := mn_counter mn + 1, mn_is_init := False,
      mn_file := bin_write (of_nat a) d (mn_store mn), mn_rx := queue,
      mn_tx := mn_tx mn @ [minion_write_wire (MinionWriteMsg u True)]\<rparr>"
  have "minion_handle h mn = Inr ?mn"
    using handle_write[OF assms(2) m assms(5,6)] by (simp add: f)
  moreover have "minion_wf ?mn"
    using minion_wf_write[OF assms(1,4)] by (simp add: minion_wf_def)
  moreover have "bf_data (mn_store ?mn) x =
      (if a \<le> x \<and> x < a + length d then d ! (x - a) else bf_data (mn_store mn) x)" for x
    using minion_wf_store[OF assms(1)] assms(4) by (simp add: store.wr_cell)
  ultimately show ?thesis by (intro exI[of _ ?mn]) simp
qed

theorem minion_applies_write_witness:
  "\<exists>mn'. minion_handle demo_host ((MasterProxy Map.empty ''7070'')
      \<lparr>mn_rx := [write_wire (WriteMsg (of_nat 5) 2 (Some [1, 2]) demo_uid)]\<rparr>) = Inr mn' \<and>
    bf_data (mn_store mn') 6 = 2"
proof -
  let ?mn = "(MasterProxy Map.empty ''7070'')\<lparr>mn_rx := [write_wire (WriteMsg (of_nat 5) 2 (Some [1, 2]) demo_uid)]\<rparr>"
  have 1: "mn_rx ?mn = write_wire (WriteMsg (of_nat 5) 2 (Some [1, 2]) demo_uid) # []" by simp
  have 2: "length [1, 2 :: byte] = unat (2 :: u32)" "5 + length [1, 2 :: byte] \<le> 8 * MB"
    by (simp_all add: size_consts)
  have 3: "\<not> bit (h_time demo_host (mn_counter ?mn)) 31" "33 \<le> h_udp_max demo_host"
    using time_ok_demo by (simp_all add: time_ok_def)
  show ?thesis using minion_applies_write[OF minion_wf_start 1 2 3] by auto
qed

text \<open>
  C10: a well-formed minion that receives a read request inside its file sends exactly the
  bytes it stores there, with the request's identifier, and its file keeps its content.
\<close>

theorem minion_answers_read:
  assumes "minion_wf mn" and "mn_rx mn = read_wire (ReadMsg (of_nat a) n u) # queue"
    and "a + unat n \<le> 8 * MB" and "\<not> bit (h_time h (mn_counter mn)) 31" and "33 + unat n \<le> h_udp_max h"
  shows "\<exists>mn'. minion_handle h mn = Inr mn' \<and> minion_wf mn' \<and> mn_rx mn' = queue \<and>
    mn_tx mn' = mn_tx mn @ [minion_read_wire (MinionReadMsg u True
      (Some (map (bf_data (mn_store mn)) [a..<a + unat n])) n)] \<and>
    bf_data (mn_store mn') = bf_data (mn_store mn)"
proof -
  let ?m = "ReadMsg (of_nat a) n u"
  have a: "unat (of_nat a :: u64) = a"
    using assms(3) by (intro unat_small_u64) (simp add: size_consts)
  have f: "m_key ?m = READ_MSG_KEY" "rd_offset ?m = of_nat a" "m_size ?m = n" "m_uid ?m = u"
    by (simp_all add: msg_ctor_defs)
  have r: "unat (rd_offset ?m) + unat (m_size ?m) \<le> bf_len (mn_store mn)" "unat (m_size ?m) < 2 ^ 31 - 33"
    "33 + unat (m_size ?m) \<le> h_udp_max h"
    using minion_wf_store(2)[OF assms(1)] assms(3,5) by (simp_all add: f a size_consts)
  let ?mn = "mn\<lparr>mn_counter := mn_counter mn + 1, mn_is_init := False,
      mn_file := (mn_store mn)\<lparr>bf_pos := 0\<rparr>, mn_rx := queue,
      mn_tx := mn_tx mn @ [minion_read_wire (MinionReadMsg u True
        (Some (map (bf_data (mn_store mn)) [a..<a + unat n])) n)]\<rparr>"
  have "minion_handle h mn = Inr ?mn"
    using handle_read[OF assms(1,2) f(1) r(1) assms(4) r(2,3)] by (simp add: f a)
  moreover have "minion_wf ?mn"
    using minion_wf_read[OF assms(1)] by (simp add: minion_wf_def)
  ultimately show ?thesis by (intro exI[of _ ?mn]) simp
qed

theorem minion_answers_read_witness:
  "\<exists>mn'. minion_handle demo_host ((MasterProxy Map.empty ''7070'')
      \<lparr>mn_rx := [read_wire (ReadMsg (of_nat 5) 2 demo_uid)]\<rparr>) = Inr mn' \<and> length (mn_tx mn') = 1"
proof -
  let ?mn = "(MasterProxy Map.empty ''7070'')\<lparr>mn_rx := [read_wire (ReadMsg (of_nat 5) 2 demo_uid)]\<rparr>"
  have 1: "mn_rx ?mn = read_wire (ReadMsg (of_nat 5) 2 demo_uid) # []" by simp
  have 2: "5 + unat (2 :: u32) \<le> 8 * MB" by (simp add: size_consts)
  have 3: "\<not> bit (h_time demo_host (mn_counter ?mn)) 31" "33 + unat (2 :: u32) \<le> h_udp_max demo_host"
    using time_ok_demo by (simp_all add: time_ok_def)
  have "mn_tx ?mn = []" by (simp add: MasterProxy_def)
  then show ?thesis using minion_answers_read[OF minion_wf_start 1 2 3] by auto
qed

text \<open>
  A minion started on a file that holds data loses its first 8 MB at its first command:
  a read answers with zeros whatever the file held.
\<close>

theorem restart_wipes_file:
  assumes "\<forall>name bytes. fs name = Some bytes \<longrightarrow> length bytes < 2 ^ 63"
    and "mn = (MasterProxy fs port)\<lparr>mn_rx := [read_wire (ReadMsg (of_nat a) n u)]\<rparr>"
    and "a + unat n \<le> 8 * MB" and "\<not> bit (h_time h (mn_counter mn)) 31" and "33 + unat n \<le> h_udp_max h"
  shows "\<exists>mn'. minion_handle h mn = Inr mn' \<and>
    mn_tx mn' = [minion_read_wire (MinionReadMsg u True (Some (replicate (unat n) 0)) n)]"
proof -
  let ?m = "ReadMsg (of_nat a) n u"
  have wf0: "minion_wf (MasterProxy fs port)" by (rule minion_wf_MasterProxy[OF assms(1)])
  then have wf: "minion_wf mn" by (simp add: assms(2) minion_wf_frame)
  have rx: "mn_rx mn = read_wire ?m # []" "mn_tx mn = []" by (simp_all add: assms(2) MasterProxy_def)
  have a: "unat (of_nat a :: u64) = a"
    using assms(3) by (intro unat_small_u64) (simp add: size_consts)
  have f: "m_key ?m = READ_MSG_KEY" "rd_offset ?m = of_nat a" "m_size ?m = n" "m_uid ?m = u"
    by (simp_all add: msg_ctor_defs)
  have r: "unat (rd_offset ?m) + unat (m_size ?m) \<le> bf_len (mn_store mn)" "unat (m_size ?m) < 2 ^ 31 - 33"
    "33 + unat (m_size ?m) \<le> h_udp_max h"
    using minion_wf_store(2)[OF wf] assms(3,5) by (simp_all add: f a size_consts)
  have "bf_data (mn_store mn) x = 0" if "x < 8 * MB" for x
    using GetBinFile_first[of "mn_file (MasterProxy fs port)"] wf0 that
    by (simp add: assms(2) mn_store_def minion_wf_def MasterProxy_def)
  then have "map (bf_data (mn_store mn)) [a..<a + unat n] = replicate (unat n) 0"
    using assms(3) by (intro nth_equalityI) auto
  then show ?thesis
    using handle_read[OF wf rx(1) f(1) r(1) assms(4) r(2,3)] by (simp add: f a rx)
qed

theorem restart_wipes_file_witness:
  "\<exists>mn'. minion_handle demo_host ((MasterProxy [''minion1.bin'' \<mapsto> [7, 7, 7]] ''7070'')
      \<lparr>mn_rx := [read_wire (ReadMsg (of_nat 0) 3 demo_uid)]\<rparr>) = Inr mn' \<and>
    mn_tx mn' = [minion_read_wire (MinionReadMsg demo_uid True (Some [0, 0, 0]) 3)]"
proof -
  let ?fs = "[''minion1.bin'' \<mapsto> [7, 7, 7]] :: string \<rightharpoonup> byte list"
  let ?mn = "(MasterProxy ?fs ''7070'')\<lparr>mn_rx := [read_wire (ReadMsg (of_nat 0) 3 demo_uid)]\<rparr>"
  have 1: "\<forall>name bytes. ?fs name = Some bytes \<longrightarrow> length bytes < 2 ^ 63" by simp
  have 2: "0 + unat (3 :: u32) \<le> 8 * MB" by (simp add: size_consts)
  have 3: "\<not> bit (h_time demo_host (mn_counter ?mn)) 31" "33 + unat (3 :: u32) \<le> h_udp_max demo_host"
    using time_ok_demo by (simp_all add: time_ok_def)
  have "unat (3 :: u32) = 3" by simp
  then have "replicate (unat (3 :: u32)) 0 = [0, 0, 0 :: byte]" by (simp only:) (simp add: numeral_3_eq_3)
  with restart_wipes_file[OF 1 refl 2 3] show ?thesis by simp
qed

text \<open>
  A minion whose stream has failed still answers every write with success, although the
  file does not change.
\<close>

theorem failed_minion_acknowledges:
  assumes "\<not> mn_is_init mn" and "bf_fail (mn_file mn)"
    and "mn_rx mn = write_wire m # queue" and "carries (wr_data m) (m_size m)" and "m_key m = WRITE_MSG_KEY"
    and "unat (m_size m) < 2 ^ 31 - 41" and "\<not> bit (h_time h (mn_counter mn)) 31" and "33 \<le> h_udp_max h"
  shows "\<exists>mn'. minion_handle h mn = Inr mn' \<and> bf_fail (mn_file mn') \<and>
    bf_data (mn_file mn') = bf_data (mn_file mn) \<and>
    mn_tx mn' = mn_tx mn @ [minion_write_wire (MinionWriteMsg (m_uid m) True)]"
  using handle_write[OF assms(3-8)] assms(1,2) by (simp add: failed_stream)

theorem failed_minion_acknowledges_witness:
  "\<exists>mn'. minion_handle demo_host \<lparr>mn_counter = 1, mn_is_init = False,
      mn_file = (stream_on [1, 2])\<lparr>bf_fail := True\<rparr>,
      mn_rx = [write_wire (WriteMsg 0 1 (Some [9]) demo_uid)], mn_tx = []\<rparr> = Inr mn' \<and>
    bf_data (mn_file mn') 0 = 1 \<and> length (mn_tx mn') = 1"
  using failed_minion_acknowledges[of "\<lparr>mn_counter = 1, mn_is_init = False,
      mn_file = (stream_on [1, 2])\<lparr>bf_fail := True\<rparr>,
      mn_rx = [write_wire (WriteMsg 0 1 (Some [9]) demo_uid)], mn_tx = []\<rparr>" "WriteMsg 0 1 (Some [9]) demo_uid" "[]" demo_host]
    time_ok_demo
  by (auto simp: time_ok_def msg_ctor_defs stream_on_def)

end
