(* ===== verification/Master_Correct.thy ===== *)
theory Master_Correct
  imports Master Minion_Correct
begin

text \<open>
  What the master does at each event: the task built from a request of the block device, the
  datagrams a command sends, what a response changes, and when a poll reports which outcome.
\<close>

subsection \<open>Keys and factories\<close>

lemma master_key_int:
  "sint NBD_WRITE_MSG = 30" "uint NBD_WRITE_MSG = 30" "sint NBD_READ_MSG = 31" "uint NBD_READ_MSG = 31"
  "uint READ_MINION_MSG_KEY = 28" "uint WRITE_MINION_MSG_KEY = 29"
  "READ_MINION_MSG_KEY \<noteq> WRITE_MINION_MSG_KEY" "WRITE_MINION_MSG_KEY \<noteq> READ_MINION_MSG_KEY"
  by (simp_all add: key_defs)

lemma master_factories:
  "Create nbd_write_factory 30 (h, c) = CreateNBDWriteMsg h c"
  "Create nbd_read_factory 31 (h, c) = CreateNBDReadMsg h c"
  "Create minion_read_factory 28 (h, c) = CreateMinionReadMsg h c"
  "Create minion_write_factory 29 (h, c) = CreateMinionWriteMsg h c"
  by (simp_all add: nbd_write_factory_def nbd_read_factory_def minion_read_factory_def
      minion_write_factory_def Create_AddCtor master_key_int)

lemma creators_ok:
  assumes "time_ok h"
  obtains nw nr mr mw where
    "CreateNBDWriteMsg h c = Inr (nw, c + 1)" "m_size nw = 0"
    "CreateNBDReadMsg h c = Inr (nr, c + 1)"
    "CreateMinionReadMsg h c = Inr (mr, c + 1)"
    "CreateMinionWriteMsg h c = Inr (mw, c + 1)"
  using ThreadSafeUID_time_ok[OF assms, of c]
  by (simp add: create_defs msg_ctor_defs)

subsection \<open>Requests of the block device\<close>

lemma take8_nbd_wire:
  "take 8 (nbd_write_wire m @ rest) = le_bytes 4 (m_key m) @ le_bytes 4 (m_size m)"
  "take 8 (nbd_read_wire m' @ rest) = le_bytes 4 (m_key m') @ le_bytes 4 (m_size m')"
  by (simp_all add: nbd_write_wire_def nbd_read_wire_def amessage_wire_def)

lemma tcp_peek8:
  assumes "8 \<le> length rx"
  shows "TCPSocket_Recive (new_char g (4 + 4)) (4 + 4) True rx = Inr (take 8 rx, rx)"
proof -
  have "new_char g 8 \<noteq> []" by (metis length_new_char list.size(3) zero_neq_numeral)
  then show ?thesis
    using TCPSocket_Recive_peek[of 8 "new_char g 8" rx] assms by (simp add: size_t_of_int_def)
qed

lemma new_char_nonempty: "0 < n \<Longrightarrow> new_char g n \<noteq> []"
  by (metis length_new_char length_0_conv less_not_refl)

lemma NBD_GetArgsKey_write:
  assumes rx: "ms_nbd_rx ms = nbd_write_wire m @ rest" and wf: "nbd_write_wf m"
    and key: "m_key m = NBD_WRITE_MSG" and size: "unat (m_size m) < 2 ^ 31 - 41" and clock: "time_ok h"
  shows "NBDProxy_GetArgsKey h ms =
    Inr (WriteArgsKey WRITE_CMD_KEY (nw_offset m) (m_size m) (nw_data m),
         ms\<lparr>ms_counter := ms_counter ms + 1, ms_nbd_rx := rest\<rparr>)"
proof -
  from creators_ok[OF clock] obtain m0 where
    m0: "CreateNBDWriteMsg h (ms_counter ms) = Inr (m0, ms_counter ms + 1)" "m_size m0 = 0" by metis
  let ?n = "NBDWriteMsg_GetBufferSize m0 + ucast (m_size m)"
  have n: "unat ?n = length (nbd_write_wire m)"
    using unat_add_ucast32[of 40 "m_size m"] m0(2) length_nbd_write_wire[OF wf]
    by (simp add: NBDWriteMsg_GetBufferSize_def AMessage_GetBufferSize_def UID_GetBufferSize_def
        GetSize_def)
  have 1: "TCPSocket_Recive (new_char (h_garbage h 0) (4 + 4)) (4 + 4) True (ms_nbd_rx ms) =
      Inr (le_bytes 4 (m_key m) @ le_bytes 4 (m_size m), nbd_write_wire m @ rest)"
    unfolding rx take8_nbd_wire(1)[of m rest, symmetric]
    by (rule tcp_peek8) (simp add: length_nbd_write_wire[OF wf])
  have 2: "TCPSocket_Recive (new_char (h_garbage h 1) (unat ?n)) (int_of_u64 ?n) False
      (nbd_write_wire m @ rest) = Inr (nbd_write_wire m, rest)"
    using size n length_nbd_write_wire[OF wf]
    by (intro TCPSocket_Recive_whole new_char_nonempty) (simp_all add: size_t_small)
  have 3: "NBDWriteMsg_FromBuffer m0 (nbd_write_wire m) 0 = Inr (m, length (nbd_write_wire m))"
    using nbd_write_codec.from_wire[OF wf] .
  show ?thesis
    unfolding NBDProxy_GetArgsKey_def Let_def 1 bindE_Inr prod.case
    using 2 3
    by (simp add: get_key get_size key master_key_int master_factories m0(1)
        NBDWriteMsg_SupplyArgs_def GetSize_def)
qed

lemma NBD_GetArgsKey_read:
  assumes rx: "ms_nbd_rx ms = nbd_read_wire m @ rest" and key: "m_key m = NBD_READ_MSG"
    and clock: "time_ok h"
  shows "NBDProxy_GetArgsKey h ms =
    Inr (ReadArgsKey READ_CMD_KEY (nr_offset m) (m_size m),
         ms\<lparr>ms_counter := ms_counter ms + 1, ms_nbd_rx := rest\<rparr>)"
proof -
  from creators_ok[OF clock] obtain m0 where
    m0: "CreateNBDReadMsg h (ms_counter ms) = Inr (m0, ms_counter ms + 1)" by metis
  have 1: "TCPSocket_Recive (new_char (h_garbage h 0) (4 + 4)) (4 + 4) True (ms_nbd_rx ms) =
      Inr (le_bytes 4 (m_key m) @ le_bytes 4 (m_size m), nbd_read_wire m @ rest)"
    unfolding rx take8_nbd_wire(2)[of m rest, symmetric] by (rule tcp_peek8) simp
  have 2: "TCPSocket_Recive (new_char (h_garbage h 1) (unat NBDReadMsg_GetBufferSize))
      (int_of_u64 NBDReadMsg_GetBufferSize) False (nbd_read_wire m @ rest) = Inr (nbd_read_wire m, rest)"
    by (intro TCPSocket_Recive_whole new_char_nonempty) (simp_all add: size_t_small)
  have 3: "NBDReadMsg_FromBuffer m0 (nbd_read_wire m) 0 = Inr (m, length (nbd_read_wire m))"
    using nbd_read_codec.from_wire by simp
  show ?thesis
    unfolding NBDProxy_GetArgsKey_def Let_def 1 bindE_Inr prod.case
    using 2 3
    by (simp add: get_key get_size key master_key_int master_factories m0
        NBDReadMsg_SupplyArgs_def GetSize_def)
qed

subsection \<open>Requests to the minions\<close>

abbreviation send_to :: "minion_proxy \<Rightarrow> datagram \<Rightarrow> master \<Rightarrow> master" where
  "send_to proxy d ms \<equiv> ms\<lparr>ms_udp_tx := ms_udp_tx ms @ [(proxy, d)]\<rparr>"

lemma ReadRequest_sends:
  assumes "41 \<le> h_udp_max h"
  shows "MinionProxy_ReadRequest h proxy off n uid ms =
    Inr (send_to proxy (read_wire (ReadMsg off n uid)) ms)"
proof -
  let ?m = "ReadMsg off n uid"
  have 1: "ReadMsg_ToBuffer ?m (new_char (h_garbage h 2) 41, 0) = Inr (read_wire ?m, 41)"
    unfolding ReadMsg_ToBuffer_puts using puts_whole[of "new_char (h_garbage h 2) 41" "read_wire ?m"] by simp
  have 2: "UDPSocket_Send h (read_wire ?m) (int_of_u64 ReadMsg_GetBufferSize) = Inr (Some (read_wire ?m))"
    using assms by (intro UDPSocket_Send_whole) (simp_all add: size_t_small)
  show ?thesis by (simp add: MinionProxy_ReadRequest_def Let_def 1 2 MinionProxy_send_def)
qed

lemma write_wf_WriteMsg [simp]: "write_wf (WriteMsg off n (Some d) uid) \<longleftrightarrow> length d = unat n"
  by (simp add: msg_ctor_defs)

lemma WriteRequest_sends:
  assumes d: "length d = unat n" and n: "unat n < 2 ^ 31 - 41" and udp: "41 + unat n \<le> h_udp_max h"
  shows "MinionProxy_WriteRequest h proxy off n (Some d) uid ms =
    Inr (send_to proxy (write_wire (WriteMsg off n (Some d) uid)) ms)"
proof -
  let ?m = "WriteMsg off n (Some d) uid"
  have wf: "write_wf ?m" using d by simp
  have size: "m_size ?m = n" by (simp add: msg_ctor_defs)
  have len: "length (write_wire ?m) = 41 + unat n" using length_write_wire[OF wf] size by simp
  let ?buf = "new_char (h_garbage h 2) (unat (WriteMsg_GetBufferSize ?m))"
  have "length ?buf = length (write_wire ?m)" by (simp add: len unat_WriteMsg_GetBufferSize size)
  then have 1: "WriteMsg_ToBuffer ?m (?buf, 0) = Inr (write_wire ?m, length (write_wire ?m))"
    unfolding WriteMsg_ToBuffer_puts[OF wf] by (rule puts_whole)
  have 2: "UDPSocket_Send h (write_wire ?m) (int_of_u64 (WriteMsg_GetBufferSize ?m)) =
      Inr (Some (write_wire ?m))"
    using n udp len
    by (intro UDPSocket_Send_whole) (simp_all add: size_t_small unat_WriteMsg_GetBufferSize size)
  show ?thesis by (simp add: MinionProxy_WriteRequest_def Let_def 1 2 MinionProxy_send_def)
qed

text \<open>The two datagrams of a write, and the one of a read, with their addressees.\<close>

definition write_datagrams :: "host \<Rightarrow> u32 \<Rightarrow> u64 \<Rightarrow> u32 \<Rightarrow> byte list \<Rightarrow> (minion_proxy \<times> datagram) list" where
  "write_datagrams h c off n d =
     [(Raid01_ctor ! fst (raid_primary (unat off)),
       write_wire (WriteMsg (of_nat (snd (raid_primary (unat off)))) n (Some d) (uid_of h c))),
      (Raid01_ctor ! fst (raid_backup (unat off)),
       write_wire (WriteMsg (of_nat (snd (raid_backup (unat off)))) n (Some d) (uid_of h (c + 1))))]"

definition read_datagrams :: "host \<Rightarrow> u32 \<Rightarrow> u64 \<Rightarrow> u32 \<Rightarrow> (minion_proxy \<times> datagram) list" where
  "read_datagrams h c off n =
     [(Raid01_ctor ! fst (raid_primary (unat off)),
       read_wire (ReadMsg (of_nat (snd (raid_primary (unat off)))) n (uid_of h c)))]"

lemma WriteCommand_sends:
  assumes off: "unat off < raid_capacity" and d: "length d = unat n" and n: "unat n < 2 ^ 31 - 41"
    and udp: "41 + unat n \<le> h_udp_max h" and clock: "time_ok h"
  shows "WriteCommand_Execute h (WriteArgsKey k off n (Some d)) ms =
    (let c = ms_counter ms
     in Inr ((Some (WriteAIFunc (uid_of h c) (uid_of h (c + 1))), 500),
       ms\<lparr>ms_counter := c + 2,
          ms_watch := (ms_watch ms)(c \<mapsto> PROCESSING_REQUEST, c + 1 \<mapsto> PROCESSING_REQUEST),
          ms_udp_tx := ms_udp_tx ms @ write_datagrams h c off n d\<rparr>))"
  by (simp add: WriteCommand_Execute_def Let_def OffsetToProxy_in[OF off] RegisterCommand_def
      ThreadSafeUID_time_ok[OF clock] WriteRequest_sends[OF d n udp] write_datagrams_def)

lemma ReadCommand_sends:
  assumes off: "unat off < raid_capacity" and udp: "41 \<le> h_udp_max h" and clock: "time_ok h"
  shows "ReadCommand_Execute h (ReadArgsKey k off n) ms =
    (let c = ms_counter ms
     in Inr ((Some (ReadAIFunc (uid_of h c)), 5000),
       ms\<lparr>ms_counter := c + 1, ms_watch := (ms_watch ms)(c \<mapsto> PROCESSING_REQUEST),
          ms_udp_tx := ms_udp_tx ms @ read_datagrams h c off n\<rparr>))"
  by (simp add: ReadCommand_Execute_def Let_def OffsetToProxy_in[OF off] RegisterCommand_def
      ThreadSafeUID_time_ok[OF clock] ReadRequest_sends[OF udp] read_datagrams_def)

subsection \<open>Responses of the minions\<close>

lemma take8_responses:
  "take 8 (minion_write_wire m) = le_bytes 4 (m_key m) @ le_bytes 4 (m_size m)"
  "take 8 (minion_read_wire m') = le_bytes 4 (m_key m') @ le_bytes 4 (m_size m')"
  by (simp_all add: minion_write_wire_def minion_read_wire_def amessage_wire_def)

lemma ResponseProxy_write:
  assumes rx: "ms_udp_rx ms = minion_write_wire m # queue" and key: "m_key m = WRITE_MINION_MSG_KEY"
    and clock: "time_ok h"
  shows "ResponseProxy_GetArgsKey h ms =
    Inr (None, ms\<lparr>ms_counter := ms_counter ms + 1, ms_udp_rx := queue,
      ms_watch := (if mw_is_success m then RegisterResponse (m_uid m) (ms_watch ms) else ms_watch ms)\<rparr>)"
proof -
  from creators_ok[OF clock] obtain m0 where
    m0: "CreateMinionWriteMsg h (ms_counter ms) = Inr (m0, ms_counter ms + 1)" by metis
  have 1: "UDPSocket_Recive (new_char (h_garbage h 0) (4 + 4)) (4 + 4) True (ms_udp_rx ms) =
      Inr (le_bytes 4 (m_key m) @ le_bytes 4 (m_size m), minion_write_wire m # queue)"
    unfolding rx take8_responses(1)[symmetric] by (rule peek8) simp
  have 2: "UDPSocket_Recive (new_char (h_garbage h 1) (unat MinionWriteMsg_GetBufferSize))
      (int_of_u64 MinionWriteMsg_GetBufferSize) False (minion_write_wire m # queue) =
      Inr (minion_write_wire m, queue)"
    by (rule UDPSocket_Recive_whole) (simp_all add: size_t_small)
  have 3: "MinionWriteMsg_FromBuffer m0 (minion_write_wire m) 0 = Inr (m, length (minion_write_wire m))"
    using minion_write_codec.from_wire by simp
  show ?thesis
    unfolding ResponseProxy_GetArgsKey_def Let_def 1 bindE_Inr prod.case
    using 2 3
    by (simp add: get_key get_size key master_key_int master_factories m0
        MinionWriteMsg_SupplyArgs_def GetUID_def)
qed

lemma size_t_sint:
  assumes "unat (n :: u32) < 2 ^ 31"
  shows "size_t_of_int (sint n) = unat n"
proof -
  have "(ucast (ucast n :: u64) :: u32) = n"
    by (rule bit_word_eqI) (simp add: bit_ucast_iff)
  then have "int_of_u64 (ucast n) = sint n" by (simp only: int_of_u64_def)
  moreover have "unat (ucast n :: u64) = unat n" using unat_add_ucast32[of 0 n] by simp
  ultimately show ?thesis using size_t_small[of "ucast n :: u64"] assms by simp
qed

lemma NotifySucces_prefix:
  assumes "unat n \<le> length d" and "unat n < 2 ^ 31"
  shows "NotifySucces d n ms = Inr (ms\<lparr>ms_nbd_tx := ms_nbd_tx ms @ take (unat n) d\<rparr>)"
  using assms by (simp add: NotifySucces_def TCPSocket_Response_def size_t_sint load_def)

lemma NotifySucces_whole:
  assumes "length d = unat n" and "unat n < 2 ^ 31"
  shows "NotifySucces d n ms = Inr (ms\<lparr>ms_nbd_tx := ms_nbd_tx ms @ d\<rparr>)"
  using NotifySucces_prefix[of n d ms] assms by simp

lemma ResponseProxy_read:
  assumes rx: "ms_udp_rx ms = minion_read_wire m # queue" and key: "m_key m = READ_MINION_MSG_KEY"
    and d: "mr_data m = Some d" "length d = unat (m_size m)" and n: "unat (m_size m) < 2 ^ 31 - 41"
    and clock: "time_ok h"
  shows "ResponseProxy_GetArgsKey h ms =
    Inr (None, ms\<lparr>ms_counter := ms_counter ms + 1, ms_udp_rx := queue,
      ms_watch := (if mr_is_success m then RegisterResponse (m_uid m) (ms_watch ms) else ms_watch ms),
      ms_nbd_tx := (if mr_is_success m then ms_nbd_tx ms @ d else ms_nbd_tx ms)\<rparr>)"
proof -
  have wf: "minion_read_wf m" using d by simp
  from creators_ok[OF clock] obtain m0 where
    m0: "CreateMinionReadMsg h (ms_counter ms) = Inr (m0, ms_counter ms + 1)" by metis
  let ?n = "MinionReadMsg_GetBufferSize + ucast (m_size m)"
  have len: "unat ?n = length (minion_read_wire m)"
    using unat_add_ucast32[of 33 "m_size m"] length_minion_read_wire[OF wf]
    by (simp add: MinionReadMsg_GetBufferSize_def AMessage_GetBufferSize_def UID_GetBufferSize_def)
  have 1: "UDPSocket_Recive (new_char (h_garbage h 0) (4 + 4)) (4 + 4) True (ms_udp_rx ms) =
      Inr (le_bytes 4 (m_key m) @ le_bytes 4 (m_size m), minion_read_wire m # queue)"
    unfolding rx take8_responses(2)[symmetric] by (rule peek8) (simp add: length_minion_read_wire[OF wf])
  have 2: "UDPSocket_Recive (new_char (h_garbage h 1) (unat ?n)) (int_of_u64 ?n) False
      (minion_read_wire m # queue) = Inr (minion_read_wire m, queue)"
    using n len length_minion_read_wire[OF wf]
    by (intro UDPSocket_Recive_whole) (simp_all add: size_t_small)
  have 3: "MinionReadMsg_FromBuffer m0 (minion_read_wire m) 0 = Inr (m, length (minion_read_wire m))"
    using minion_read_codec.from_wire[OF wf] .
  have 4: "NotifySucces d (m_size m) ms' = Inr (ms'\<lparr>ms_nbd_tx := ms_nbd_tx ms' @ d\<rparr>)" for ms'
    using n by (intro NotifySucces_whole d(2)) simp
  show ?thesis
    unfolding ResponseProxy_GetArgsKey_def Let_def 1 bindE_Inr prod.case
    using 2 3
    by (simp add: get_key get_size key master_key_int master_factories m0 d(1) memcpy_src_Some[OF d(2)]
        MinionReadMsg_SupplyArgs_def MinionReadMsg_GetIsSuccess_def GetSize_def GetUID_def 4)
qed

lemma ResponseProxy_other:
  assumes rx: "ms_udp_rx ms = d # queue" and len: "8 \<le> length d"
    and key: "le_word (take 4 d) \<noteq> WRITE_MINION_MSG_KEY" "le_word (take 4 d) \<noteq> READ_MINION_MSG_KEY"
  shows "ResponseProxy_GetArgsKey h ms = Inr (None, ms)"
proof -
  have hd: "get_u32 (take 8 d) 0 = Inr (le_word (take 4 d), 4)"
    "get_u32 (take 8 d) 4 = Inr (le_word (take 4 (drop 4 d)), 8)"
    using len by (simp_all add: get_u32_in drop_take min_def)
  show ?thesis
    unfolding ResponseProxy_GetArgsKey_def Let_def rx peek8[OF len] bindE_Inr prod.case hd
    using key by simp
qed

subsection \<open>Polling\<close>

lemma c_str_lengths [simp]:
  "length (c_str ''Success'') = 8" "length (c_str ''couldnt write og'') = 17"
  "length (c_str ''couldnt write backup'') = 21"
  by (simp_all add: c_str_def)

lemma notify_texts:
  "NotifySucces_default ms = Inr (ms\<lparr>ms_nbd_tx := ms_nbd_tx ms @ c_str ''Success''\<rparr>)"
  "NotifySucces (c_str ''couldnt write og'') 15 ms =
     Inr (ms\<lparr>ms_nbd_tx := ms_nbd_tx ms @ take 15 (c_str ''couldnt write og'')\<rparr>)"
  "NotifySucces (c_str ''couldnt write backup'') 20 ms =
     Inr (ms\<lparr>ms_nbd_tx := ms_nbd_tx ms @ take 20 (c_str ''couldnt write backup'')\<rparr>)"
  by (simp_all add: NotifySucces_default_def NotifySucces_prefix)

text \<open>The watch list after a poll of two identifiers, and what it does to the answered set.\<close>

definition polled :: "uid \<Rightarrow> uid \<Rightarrow> watchlist \<Rightarrow> watchlist" where
  "polled og bk w = snd (HasResponseRecived bk (snd (HasResponseRecived og w)))"

lemma answered_polled:
  "answered (polled og bk w) = answered w - {GetUniqueCounter og, GetUniqueCounter bk}"
  by (auto simp: polled_def rm.view_ask)

text \<open>
  A poll of a write in terms of the set of answered identifiers: which outcome, which text
  goes to the block device, and what becomes of the two shared counters.
\<close>

definition give_up_text :: "int \<Rightarrow> byte list" where
  "give_up_text og_count =
     (if og_count = 50 then take 15 (c_str ''couldnt write og'') else take 20 (c_str ''couldnt write backup''))"

definition write_poll_spec :: "uid \<Rightarrow> uid \<Rightarrow> master \<Rightarrow> bool \<times> master" where
  "write_poll_spec og bk ms =
     (let has = (\<lambda>u. GetUniqueCounter u \<in> answered (ms_watch ms));
          ms' = ms\<lparr>ms_watch := polled og bk (ms_watch ms)\<rparr>;
          oc = ms_og_counter ms + (if has og then 0 else 1);
          bc = ms_backup_counter ms + (if has bk then 0 else 1)
      in if has og \<and> has bk then (True, ms'\<lparr>ms_nbd_tx := ms_nbd_tx ms @ c_str ''Success''\<rparr>)
         else if oc = 50 \<or> bc = 50 then
           (True, ms'\<lparr>ms_nbd_tx := ms_nbd_tx ms @ give_up_text oc,
                      ms_og_counter := 0, ms_backup_counter := 0\<rparr>)
         else (False, ms'\<lparr>ms_og_counter := oc, ms_backup_counter := bc\<rparr>))"

lemma WriteAIFunc_call_spec:
  assumes "GetUniqueCounter og \<noteq> GetUniqueCounter bk"
  shows "WriteAIFunc_call og bk ms = Inr (write_poll_spec og bk ms)"
proof -
  let ?w = "ms_watch ms"
  obtain r1 w1 r2 w2 where h: "HasResponseRecived og ?w = (r1, w1)" "HasResponseRecived bk w1 = (r2, w2)"
    by fastforce
  have r: "r1 = (GetUniqueCounter og \<in> answered ?w)" "r2 = (GetUniqueCounter bk \<in> answered ?w)"
    and w2: "polled og bk ?w = w2"
    using h assms rm.ask_result[of og ?w] rm.ask_result[of bk w1] rm.view_ask[of og ?w]
    by (simp_all add: polled_def)
  show ?thesis
    unfolding WriteAIFunc_call_def Let_def h prod.case
    by (auto simp: write_poll_spec_def Let_def notify_texts give_up_text_def r w2)
qed

lemma ReadAIFunc_call_spec:
  "ReadAIFunc_call uid ms =
     Inr (GetUniqueCounter uid \<in> answered (ms_watch ms), ms\<lparr>ms_watch := snd (HasResponseRecived uid (ms_watch ms))\<rparr>)"
  using rm.ask_result[of uid "ms_watch ms"] by (simp add: ReadAIFunc_call_def Let_def split_beta)

text \<open>The counters stay below 50 between polls.\<close>

definition counters_ok :: "master \<Rightarrow> bool" where
  "counters_ok ms \<longleftrightarrow> ms_og_counter ms \<in> {0..<50} \<and> ms_backup_counter ms \<in> {0..<50}"

lemma counters_ok_poll:
  "counters_ok ms \<Longrightarrow> counters_ok (snd (write_poll_spec og bk ms))"
  by (auto simp: counters_ok_def write_poll_spec_def Let_def)

lemma counters_ok_ai_call:
  assumes "counters_ok ms" and "ai_call func ms = Inr (r, ms')"
    and "\<And>og bk. func = WriteAIFunc og bk \<Longrightarrow> GetUniqueCounter og \<noteq> GetUniqueCounter bk"
  shows "counters_ok ms'"
proof (cases func)
  case (ReadAIFunc u)
  with assms(1,2) show ?thesis by (auto simp: ai_call_def ReadAIFunc_call_spec counters_ok_def)
next
  case (WriteAIFunc og bk)
  from assms(2) assms(3)[OF WriteAIFunc] WriteAIFunc
  have "write_poll_spec og bk ms = (r, ms')"
    by (simp add: ai_call_def WriteAIFunc_call_spec)
  with counters_ok_poll[OF assms(1), of og bk] show ?thesis by simp
qed

subsection \<open>A write and its polls\<close>

text \<open>
  The polls of one write, with the watch list changing in between as the responses that
  arrive make it: each entry of the list is the set of identifiers answered since the last
  poll. The run stops at the poll that reports an outcome.
\<close>

definition respond_all :: "uid list \<Rightarrow> master \<Rightarrow> master" where
  "respond_all us ms = ms\<lparr>ms_watch := fold RegisterResponse us (ms_watch ms)\<rparr>"

lemma answered_respond_all:
  "answered (ms_watch (respond_all us ms)) = answered (ms_watch ms) \<union> GetUniqueCounter ` set us"
proof -
  have "answered (fold RegisterResponse us w) = answered w \<union> GetUniqueCounter ` set us" for w
    by (induction us arbitrary: w) (auto simp: rm.view_respond)
  then show ?thesis by (simp add: respond_all_def)
qed

fun write_polls :: "uid \<Rightarrow> uid \<Rightarrow> uid list list \<Rightarrow> master \<Rightarrow> (bool \<times> master) result" where
  "write_polls og bk [] ms = Inr (False, ms)"
| "write_polls og bk (us # rest) ms =
     bindE (WriteAIFunc_call og bk (respond_all us ms)) (\<lambda>(r, ms).
       if r then Inr (True, ms) else write_polls og bk rest ms)"

lemma write_polls_Cons:
  assumes "GetUniqueCounter og \<noteq> GetUniqueCounter bk"
  shows "write_polls og bk (us # rest) ms =
    (case write_poll_spec og bk (respond_all us ms) of (r, ms') \<Rightarrow>
       if r then Inr (True, ms') else write_polls og bk rest ms')"
  by (simp add: WriteAIFunc_call_spec[OF assms])

lemma respond_all_frame [simp]:
  "ms_nbd_tx (respond_all us ms) = ms_nbd_tx ms"
  "ms_og_counter (respond_all us ms) = ms_og_counter ms"
  "ms_backup_counter (respond_all us ms) = ms_backup_counter ms"
  by (simp_all add: respond_all_def)

lemma answered_after_poll:
  "answered (ms_watch (snd (write_poll_spec og bk ms))) =
     answered (ms_watch ms) - {GetUniqueCounter og, GetUniqueCounter bk}"
  by (simp add: write_poll_spec_def Let_def answered_polled)

text \<open>
  While one of the two identifiers is not answered, the run cannot end with the text of
  success, and it ends at the latest at its 50th poll.
\<close>

definition poll_counter :: "uid \<Rightarrow> uid \<Rightarrow> master \<Rightarrow> int" where
  "poll_counter og u ms = (if GetUniqueCounter u = GetUniqueCounter og then ms_og_counter ms else ms_backup_counter ms)"

lemma write_polls_missing:
  assumes ne: "GetUniqueCounter og \<noteq> GetUniqueCounter bk" and u: "u \<in> {og, bk}"
    and miss: "GetUniqueCounter u \<notin> answered (ms_watch ms)"
    and no: "\<forall>us \<in> set uss. GetUniqueCounter u \<notin> GetUniqueCounter ` set us"
    and ok: "counters_ok ms"
  shows "\<exists>r ms'. write_polls og bk uss ms = Inr (r, ms') \<and>
    (if r then \<exists>oc. ms_nbd_tx ms' = ms_nbd_tx ms @ give_up_text oc else ms_nbd_tx ms' = ms_nbd_tx ms) \<and>
    (50 \<le> poll_counter og u ms + int (length uss) \<longrightarrow> r) \<and>
    (\<not> r \<longrightarrow> counters_ok ms' \<and> GetUniqueCounter u \<notin> answered (ms_watch ms') \<and>
      poll_counter og u ms' = poll_counter og u ms + int (length uss))"
  using miss no ok
proof (induction uss arbitrary: ms)
  case Nil
  then show ?case by (intro exI[of _ False]) (simp add: counters_ok_def poll_counter_def)
next
  case (Cons us uss)
  let ?ms = "respond_all us ms"
  obtain r ms1 where p: "write_poll_spec og bk ?ms = (r, ms1)" by fastforce
  from Cons.prems have o: "GetUniqueCounter u \<notin> answered (ms_watch ?ms)"
    by (simp add: answered_respond_all)
  show ?case
  proof (cases r)
    case True
    then have "\<exists>oc. ms_nbd_tx ms1 = ms_nbd_tx ms @ give_up_text oc"
      using p o u by (auto simp: write_poll_spec_def Let_def split: if_splits)
    with True p show ?thesis
      by (intro exI[of _ True]) (simp add: write_polls_Cons[OF ne] del: write_polls.simps(2))
  next
    case False
    with p o u ne have nbd: "ms_nbd_tx ms1 = ms_nbd_tx ms" and c: "poll_counter og u ms1 = poll_counter og u ms + 1"
      by (auto simp: write_poll_spec_def poll_counter_def Let_def split: if_splits)
    have a: "GetUniqueCounter u \<notin> answered (ms_watch ms1)"
      using answered_after_poll[of og bk ?ms] p u by auto
    have "counters_ok ?ms" using Cons.prems(3) by (simp add: counters_ok_def)
    from counters_ok_poll[OF this, of og bk] p have ok1: "counters_ok ms1" by simp
    from Cons.IH[OF a _ ok1] Cons.prems(2) obtain r' ms' where
      w: "write_polls og bk uss ms1 = Inr (r', ms')"
      and t: "if r' then \<exists>oc. ms_nbd_tx ms' = ms_nbd_tx ms1 @ give_up_text oc
              else ms_nbd_tx ms' = ms_nbd_tx ms1"
      and f: "50 \<le> poll_counter og u ms1 + int (length uss) \<longrightarrow> r'"
        "\<not> r' \<longrightarrow> counters_ok ms' \<and> GetUniqueCounter u \<notin> answered (ms_watch ms') \<and>
          poll_counter og u ms' = poll_counter og u ms1 + int (length uss)" by auto
    have "write_polls og bk (us # uss) ms = Inr (r', ms')"
      using p False w by (simp add: write_polls_Cons[OF ne] del: write_polls.simps(2))
    with t f nbd c show ?thesis by auto
  qed
qed

lemma write_polls_append:
  "write_polls og bk (xs @ ys) ms =
    bindE (write_polls og bk xs ms) (\<lambda>(r, ms). if r then Inr (True, ms) else write_polls og bk ys ms)"
proof (induction xs arbitrary: ms)
  case (Cons us xs)
  show ?case
  proof (cases "WriteAIFunc_call og bk (respond_all us ms)")
    case (Inr p)
    then show ?thesis by (cases p) (simp add: Cons)
  qed simp
qed simp

text \<open>
  Two answers in different intervals: nothing before the first, the first one alone in its
  interval, and no other copy of it after that.
\<close>

lemma write_polls_split:
  assumes ne: "GetUniqueCounter og \<noteq> GetUniqueCounter bk" and uv: "{u, v} = {og, bk}"
    and fresh: "GetUniqueCounter u \<notin> answered (ms_watch ms)" "GetUniqueCounter v \<notin> answered (ms_watch ms)"
    and pre: "\<forall>us \<in> set pre. GetUniqueCounter u \<notin> GetUniqueCounter ` set us"
      "\<forall>us \<in> set pre. GetUniqueCounter v \<notin> GetUniqueCounter ` set us"
    and first: "GetUniqueCounter v \<notin> GetUniqueCounter ` set us1"
    and post: "\<forall>us \<in> set post. GetUniqueCounter u \<notin> GetUniqueCounter ` set us"
    and ok: "counters_ok ms"
  shows "\<exists>r ms'. write_polls og bk (pre @ us1 # post) ms = Inr (r, ms') \<and>
    (if r then \<exists>oc. ms_nbd_tx ms' = ms_nbd_tx ms @ give_up_text oc else ms_nbd_tx ms' = ms_nbd_tx ms) \<and>
    (51 \<le> length (pre @ us1 # post) \<longrightarrow> r)"
proof -
  have u: "u \<in> {og, bk}" and v: "v \<in> {og, bk}" using uv by auto
  from write_polls_missing[OF ne u fresh(1) pre(1) ok] obtain r ms1 where
    w: "write_polls og bk pre ms = Inr (r, ms1)"
      "if r then \<exists>oc. ms_nbd_tx ms1 = ms_nbd_tx ms @ give_up_text oc else ms_nbd_tx ms1 = ms_nbd_tx ms"
      "\<not> r \<longrightarrow> counters_ok ms1 \<and> GetUniqueCounter u \<notin> answered (ms_watch ms1) \<and>
        poll_counter og u ms1 = poll_counter og u ms + int (length pre)" by blast
  from write_polls_missing[OF ne v fresh(2) pre(2) ok] w(1) have av: "\<not> r \<longrightarrow> GetUniqueCounter v \<notin> answered (ms_watch ms1)"
    by auto
  show ?thesis
  proof (cases r)
    case True
    with w show ?thesis by (auto simp: write_polls_append)
  next
    case False
    with w av have s1: "ms_nbd_tx ms1 = ms_nbd_tx ms" "counters_ok ms1" "GetUniqueCounter v \<notin> answered (ms_watch ms1)"
      "poll_counter og u ms1 = poll_counter og u ms + int (length pre)" by auto
    let ?ms = "respond_all us1 ms1"
    obtain r2 ms2 where p: "write_poll_spec og bk ?ms = (r2, ms2)" by fastforce
    have a: "GetUniqueCounter v \<notin> answered (ms_watch ?ms)" using s1(3) first by (simp add: answered_respond_all)
    have all: "write_polls og bk (pre @ us1 # post) ms = (if r2 then Inr (True, ms2) else write_polls og bk post ms2)"
      using w(1) False p by (simp add: write_polls_append write_polls_Cons[OF ne] del: write_polls.simps(2))
    show ?thesis
    proof (cases r2)
      case True
      then have "\<exists>oc. ms_nbd_tx ms2 = ms_nbd_tx ms1 @ give_up_text oc"
        using p a v by (auto simp: write_poll_spec_def Let_def split: if_splits)
      with True all s1(1) show ?thesis by auto
    next
      case False
      have n2: "ms_nbd_tx ms2 = ms_nbd_tx ms" and c2: "poll_counter og u ms1 \<le> poll_counter og u ms2"
        using False p a v s1(1) by (auto simp: write_poll_spec_def poll_counter_def Let_def split: if_splits)
      have "counters_ok ?ms" using s1(2) by (simp add: counters_ok_def)
      from counters_ok_poll[OF this, of og bk] p have ok2: "counters_ok ms2" by simp
      have "GetUniqueCounter u \<notin> answered (ms_watch ms2)" using answered_after_poll[of og bk ?ms] p u by auto
      from write_polls_missing[OF ne u this post ok2] obtain r3 ms3 where
        w3: "write_polls og bk post ms2 = Inr (r3, ms3)"
          "if r3 then \<exists>oc. ms_nbd_tx ms3 = ms_nbd_tx ms2 @ give_up_text oc else ms_nbd_tx ms3 = ms_nbd_tx ms2"
          "50 \<le> poll_counter og u ms2 + int (length post) \<longrightarrow> r3" by blast
      have "0 \<le> poll_counter og u ms" using ok by (simp add: counters_ok_def poll_counter_def)
      with w3(3) c2 s1(4) have "51 \<le> length (pre @ us1 # post) \<longrightarrow> r3" by auto
      with all False w3(1,2) n2 show ?thesis by auto
    qed
  qed
qed

text \<open>Both responses in the same interval, after fewer polls without any than the limit.\<close>

lemma write_polls_together:
  assumes ne: "GetUniqueCounter og \<noteq> GetUniqueCounter bk"
    and limit: "ms_og_counter ms + int k < 50" "ms_backup_counter ms + int k < 50"
    and unanswered: "GetUniqueCounter og \<notin> answered (ms_watch ms)" "GetUniqueCounter bk \<notin> answered (ms_watch ms)"
    and both: "og \<in> set us" "bk \<in> set us"
  shows "\<exists>ms'. write_polls og bk (replicate k [] @ us # rest) ms = Inr (True, ms') \<and>
    ms_nbd_tx ms' = ms_nbd_tx ms @ c_str ''Success'' \<and>
    ms_og_counter ms' = ms_og_counter ms + int k \<and> ms_backup_counter ms' = ms_backup_counter ms + int k"
  using limit unanswered
proof (induction k arbitrary: ms)
  case 0
  from both have "GetUniqueCounter og \<in> answered (ms_watch (respond_all us ms))"
    "GetUniqueCounter bk \<in> answered (ms_watch (respond_all us ms))"
    by (simp_all add: answered_respond_all)
  then show ?case
    by (simp add: write_polls_Cons[OF ne] write_poll_spec_def Let_def del: write_polls.simps(2))
next
  case (Suc k)
  obtain r ms1 where p: "write_poll_spec og bk (respond_all [] ms) = (r, ms1)" by fastforce
  from Suc.prems p have "\<not> r" and
    c: "ms_og_counter ms1 = ms_og_counter ms + 1" "ms_backup_counter ms1 = ms_backup_counter ms + 1"
      "ms_nbd_tx ms1 = ms_nbd_tx ms"
    by (auto simp: write_poll_spec_def Let_def answered_respond_all)
  have a: "GetUniqueCounter og \<notin> answered (ms_watch ms1)" "GetUniqueCounter bk \<notin> answered (ms_watch ms1)"
    using answered_after_poll[of og bk "respond_all [] ms"] p by simp_all
  from Suc.IH[of ms1] Suc.prems(1,2) a c obtain ms' where
    w: "write_polls og bk (replicate k [] @ us # rest) ms1 = Inr (True, ms')"
      "ms_nbd_tx ms' = ms_nbd_tx ms1 @ c_str ''Success''"
      "ms_og_counter ms' = ms_og_counter ms1 + int k" "ms_backup_counter ms' = ms_backup_counter ms1 + int k"
    by auto
  with \<open>\<not> r\<close> p c show ?case by (simp add: write_polls_Cons[OF ne] del: write_polls.simps(2))
qed

subsection \<open>Properties\<close>

text \<open>
  C12: a poll of a write reports success exactly when both minions have answered by then, and
  consumes whatever answers it finds; failing that it adds one to the counter of each missing
  answer and stores both, and when one reaches 50 it gives up with one of two texts and resets
  them. It never fails and never blocks.
\<close>

theorem write_poll_outcome:
  assumes "GetUniqueCounter og \<noteq> GetUniqueCounter bk"
  shows "\<exists>r ms'. WriteAIFunc_call og bk ms = Inr (r, ms') \<and>
    answered (ms_watch ms') = answered (ms_watch ms) - {GetUniqueCounter og, GetUniqueCounter bk} \<and>
    (if {GetUniqueCounter og, GetUniqueCounter bk} \<subseteq> answered (ms_watch ms)
     then r \<and> ms_nbd_tx ms' = ms_nbd_tx ms @ c_str ''Success'' \<and> ms_og_counter ms' = ms_og_counter ms \<and>
       ms_backup_counter ms' = ms_backup_counter ms
     else if ms_og_counter ms + of_bool (GetUniqueCounter og \<notin> answered (ms_watch ms)) = 50 \<or>
             ms_backup_counter ms + of_bool (GetUniqueCounter bk \<notin> answered (ms_watch ms)) = 50
     then r \<and> ms_og_counter ms' = 0 \<and> ms_backup_counter ms' = 0 \<and>
       ms_nbd_tx ms' \<in> {ms_nbd_tx ms @ take 15 (c_str ''couldnt write og''),
                        ms_nbd_tx ms @ take 20 (c_str ''couldnt write backup'')}
     else \<not> r \<and> ms_nbd_tx ms' = ms_nbd_tx ms \<and>
       ms_og_counter ms' = ms_og_counter ms + of_bool (GetUniqueCounter og \<notin> answered (ms_watch ms)) \<and>
       ms_backup_counter ms' = ms_backup_counter ms + of_bool (GetUniqueCounter bk \<notin> answered (ms_watch ms)))"
proof -
  let ?p = "write_poll_spec og bk ms"
  have "WriteAIFunc_call og bk ms = Inr (fst ?p, snd ?p)"
    by (simp add: WriteAIFunc_call_spec[OF assms])
  then show ?thesis
    by (intro exI[of _ "fst ?p"] exI[of _ "snd ?p"])
       (simp add: answered_after_poll, simp add: write_poll_spec_def Let_def give_up_text_def of_bool_def)
qed

theorem write_poll_outcome_witness:
  "\<exists>ms'. WriteAIFunc_call (uid_of demo_host 1) (uid_of demo_host 2)
      (master_init\<lparr>ms_watch := [1 \<mapsto> DONE, 2 \<mapsto> DONE]\<rparr>) = Inr (True, ms') \<and>
    ms_nbd_tx ms' = c_str ''Success''"
  using write_poll_outcome[of "uid_of demo_host 1" "uid_of demo_host 2"
      "master_init\<lparr>ms_watch := [1 \<mapsto> DONE, 2 \<mapsto> DONE]\<rparr>"]
  by (auto simp: answered_def master_init_def)

text \<open>
  C13: a write whose two answers arrive in different polling intervals, in either order and any
  number of polls apart, is never reported as successful: the block device is told nothing or
  that the write failed, and at the latest at the 51st poll that it failed, although both minions
  have stored the data.
\<close>

theorem split_answers_never_succeed:
  assumes "GetUniqueCounter og \<noteq> GetUniqueCounter bk" and "counters_ok ms"
    and "GetUniqueCounter og \<notin> answered (ms_watch ms)" and "GetUniqueCounter bk \<notin> answered (ms_watch ms)"
    and "i < length intervals" and "j < length intervals" and "i \<noteq> j"
    and "\<forall>k < length intervals. GetUniqueCounter og \<in> GetUniqueCounter ` set (intervals ! k) \<longleftrightarrow> k = i"
    and "\<forall>k < length intervals. GetUniqueCounter bk \<in> GetUniqueCounter ` set (intervals ! k) \<longleftrightarrow> k = j"
  shows "\<exists>r ms'. write_polls og bk intervals ms = Inr (r, ms') \<and>
    (\<forall>bs. ms_nbd_tx ms' \<noteq> ms_nbd_tx ms @ c_str ''Success'' @ bs) \<and>
    (51 \<le> length intervals \<longrightarrow> r) \<and> (r \<longrightarrow> (\<exists>oc. ms_nbd_tx ms' = ms_nbd_tx ms @ give_up_text oc))"
proof -
  have texts: "give_up_text oc \<noteq> c_str ''Success'' @ bs" "c_str ''Success'' @ bs \<noteq> []" for oc bs
    by (simp_all add: give_up_text_def c_str_def)
  have split: "\<exists>r ms'. write_polls og bk intervals ms = Inr (r, ms') \<and>
      (if r then \<exists>oc. ms_nbd_tx ms' = ms_nbd_tx ms @ give_up_text oc else ms_nbd_tx ms' = ms_nbd_tx ms) \<and>
      (51 \<le> length intervals \<longrightarrow> r)"
    if uv: "{u, v} = {og, bk}" and m: "m < m'" "m' < length intervals"
      and at: "\<forall>k < length intervals. GetUniqueCounter u \<in> GetUniqueCounter ` set (intervals ! k) \<longleftrightarrow> k = m"
        "\<forall>k < length intervals. GetUniqueCounter v \<in> GetUniqueCounter ` set (intervals ! k) \<longleftrightarrow> k = m'" for u v m m'
  proof -
    have l: "m < length intervals" using m by simp
    have "u \<in> {og, bk}" "v \<in> {og, bk}" using uv by auto
    then have f: "GetUniqueCounter u \<notin> answered (ms_watch ms)" "GetUniqueCounter v \<notin> answered (ms_watch ms)"
      using assms(3,4) by auto
    have early: "\<exists>k < length intervals. k < m \<and> us = intervals ! k" if "us \<in> set (take m intervals)" for us
      using that by (auto simp: in_set_conv_nth)
    have late: "\<exists>k < length intervals. m < k \<and> us = intervals ! k" if "us \<in> set (drop (Suc m) intervals)" for us
    proof -
      from that obtain k where "k < length intervals - Suc m" "us = intervals ! (Suc m + k)"
        unfolding in_set_conv_nth by (auto simp: nth_drop)
      then show ?thesis by (intro exI[of _ "Suc m + k"]) simp
    qed
    have pre: "\<forall>us \<in> set (take m intervals). GetUniqueCounter u \<notin> GetUniqueCounter ` set us"
      "\<forall>us \<in> set (take m intervals). GetUniqueCounter v \<notin> GetUniqueCounter ` set us"
      using early at m(1) by (metis less_irrefl, metis less_asym)
    have post: "\<forall>us \<in> set (drop (Suc m) intervals). GetUniqueCounter u \<notin> GetUniqueCounter ` set us"
      using late at(1) by (metis less_irrefl)
    have "GetUniqueCounter v \<notin> GetUniqueCounter ` set (intervals ! m)" using at(2) l m by auto
    from write_polls_split[OF assms(1) uv f pre this post assms(2)] show ?thesis
      unfolding id_take_nth_drop[OF l, symmetric] .
  qed
  have "\<exists>r ms'. write_polls og bk intervals ms = Inr (r, ms') \<and>
      (if r then \<exists>oc. ms_nbd_tx ms' = ms_nbd_tx ms @ give_up_text oc else ms_nbd_tx ms' = ms_nbd_tx ms) \<and>
      (51 \<le> length intervals \<longrightarrow> r)"
  proof (cases "i < j")
    case True
    show ?thesis by (rule split[OF refl True assms(6,8,9)])
  next
    case False
    then have "j < i" using assms(7) by simp
    show ?thesis by (rule split[OF insert_commute \<open>j < i\<close> assms(5,9,8)])
  qed
  then obtain r ms' where w: "write_polls og bk intervals ms = Inr (r, ms')"
    "if r then \<exists>oc. ms_nbd_tx ms' = ms_nbd_tx ms @ give_up_text oc else ms_nbd_tx ms' = ms_nbd_tx ms"
    "51 \<le> length intervals \<longrightarrow> r" by blast
  then show ?thesis using texts texts[symmetric] by (intro exI[of _ r] exI[of _ ms']) (auto split: if_splits)
qed

text \<open>The backup answers first, the primary two polls later.\<close>

theorem split_answers_never_succeed_witness:
  "\<exists>ms'. write_polls (uid_of demo_host 1) (uid_of demo_host 2)
      ([[], [uid_of demo_host 2], [], [uid_of demo_host 1]] @ replicate 47 []) master_init = Inr (True, ms') \<and>
    (\<forall>bs. ms_nbd_tx ms' \<noteq> c_str ''Success'' @ bs)"
proof -
  let ?is = "[[], [uid_of demo_host 2], [], [uid_of demo_host 1]] @ replicate 47 []"
  have at: "?is ! k = (if k = 1 then [uid_of demo_host 2] else if k = 3 then [uid_of demo_host 1] else [])" if "k < 51" for k
    using that by (auto simp: nth_append nth_Cons split: nat.splits)
  have o: "\<forall>k < length ?is. GetUniqueCounter (uid_of demo_host 1) \<in> GetUniqueCounter ` set (?is ! k) \<longleftrightarrow> k = 3"
    and b: "\<forall>k < length ?is. GetUniqueCounter (uid_of demo_host 2) \<in> GetUniqueCounter ` set (?is ! k) \<longleftrightarrow> k = 1"
    by (auto simp: at simp del: append.simps replicate.simps)
  have m: "counters_ok master_init" "answered (ms_watch master_init) = {}" "ms_nbd_tx master_init = []"
    by (simp_all add: counters_ok_def master_init_def answered_def)
  have intervals: "51 \<le> length ?is" by simp
  from m have "\<exists>r ms'. write_polls (uid_of demo_host 1) (uid_of demo_host 2) ?is master_init = Inr (r, ms') \<and>
      (\<forall>bs. ms_nbd_tx ms' \<noteq> ms_nbd_tx master_init @ c_str ''Success'' @ bs) \<and>
      (51 \<le> length ?is \<longrightarrow> r) \<and> (r \<longrightarrow> (\<exists>oc. ms_nbd_tx ms' = ms_nbd_tx master_init @ give_up_text oc))"
    by (intro split_answers_never_succeed[OF _ _ _ _ _ _ _ o b]) simp_all
  then obtain r ms' where w: "write_polls (uid_of demo_host 1) (uid_of demo_host 2) ?is master_init = Inr (r, ms')"
    "\<forall>bs. ms_nbd_tx ms' \<noteq> ms_nbd_tx master_init @ c_str ''Success'' @ bs" "51 \<le> length ?is \<longrightarrow> r" by blast
  have "r" by (rule mp[OF w(3) intervals])
  with w(1,2) show ?thesis by (intro exI[of _ ms']) (simp only: m(3) append_Nil simp_thms)
qed

text \<open>
  C14: a write whose two answers arrive in the same polling interval, with fewer than 50 polls
  counted before by any write since the last failure, is reported as successful; but the polls
  that came too early stay counted, against every later write.
\<close>

theorem joint_answers_succeed:
  assumes "GetUniqueCounter og \<noteq> GetUniqueCounter bk"
    and "ms_og_counter ms + int k < 50" and "ms_backup_counter ms + int k < 50"
    and "GetUniqueCounter og \<notin> answered (ms_watch ms)" and "GetUniqueCounter bk \<notin> answered (ms_watch ms)"
    and "og \<in> set us" and "bk \<in> set us"
  shows "\<exists>ms'. write_polls og bk (replicate k [] @ us # later) ms = Inr (True, ms') \<and>
    ms_nbd_tx ms' = ms_nbd_tx ms @ c_str ''Success'' \<and>
    ms_og_counter ms' = ms_og_counter ms + int k \<and> ms_backup_counter ms' = ms_backup_counter ms + int k"
  by (rule write_polls_together[OF assms])

theorem joint_answers_succeed_witness:
  "\<exists>ms'. write_polls (uid_of demo_host 1) (uid_of demo_host 2)
      (replicate 3 [] @ [uid_of demo_host 2, uid_of demo_host 1] # []) master_init = Inr (True, ms') \<and>
    ms_og_counter ms' = 3"
  using joint_answers_succeed[of "uid_of demo_host 1" "uid_of demo_host 2" master_init 3
      "[uid_of demo_host 2, uid_of demo_host 1]" "[]"]
  by (force simp: master_init_def answered_def simp del: write_polls.simps replicate.simps)

text \<open>
  The two polling counters stay in 0..49 from one poll to the next, whatever functor runs,
  so a poll that runs alone cannot jump over the test for exactly 50. Polls at the same time can (\<open>Poll_Threads\<close>).
\<close>

lemma poll_counters_bounded:
  assumes "counters_ok ms" and "ai_call func ms = Inr (r, ms')"
    and "case func of ReadAIFunc _ \<Rightarrow> True | WriteAIFunc og bk \<Rightarrow> GetUniqueCounter og \<noteq> GetUniqueCounter bk"
  shows "counters_ok ms'"
  using counters_ok_ai_call[OF assms(1,2)] assms(3) by (auto split: ai_func.splits)

text \<open>
  C39: a write command inside the device sends the same data in two datagrams to two different
  minions under two fresh identifiers, watches for both answers, and asks for polls every
  500 ms; a read command sends one request, to one minion, and its poll every 5 s: the backup
  is never asked.
\<close>

theorem commands_address_replicas:
  assumes "unat off < raid_capacity" and "length d = unat n" and "unat n < 2 ^ 31 - 41"
    and "41 + unat n \<le> h_udp_max h" and "time_ok h"
  shows "(\<exists>ms' p q a b. p \<noteq> q \<and>
      WriteCommand_Execute h (WriteArgsKey k off n (Some d)) ms =
        Inr ((Some (WriteAIFunc (uid_of h (ms_counter ms)) (uid_of h (ms_counter ms + 1))), 500), ms') \<and>
      ms_udp_tx ms' = ms_udp_tx ms @
        [(p, write_wire (WriteMsg a n (Some d) (uid_of h (ms_counter ms)))),
         (q, write_wire (WriteMsg b n (Some d) (uid_of h (ms_counter ms + 1))))] \<and>
      ms_watch ms' (ms_counter ms) = Some PROCESSING_REQUEST \<and>
      ms_watch ms' (ms_counter ms + 1) = Some PROCESSING_REQUEST) \<and>
    (\<exists>ms' p a. ReadCommand_Execute h (ReadArgsKey k off n) ms =
        Inr ((Some (ReadAIFunc (uid_of h (ms_counter ms))), 5000), ms') \<and>
      ms_udp_tx ms' = ms_udp_tx ms @ [(p, read_wire (ReadMsg a n (uid_of h (ms_counter ms))))])"
proof -
  have d: "distinct Raid01_ctor" and l: "length Raid01_ctor = 3"
    by (simp_all add: Raid01_ctor_def port_defs)
  have "Raid01_ctor ! fst (raid_primary (unat off)) \<noteq> Raid01_ctor ! fst (raid_backup (unat off))"
    using raid.nodes_differ[OF assms(1)] raid_node_bound[OF assms(1)] l
    by (subst nth_eq_iff_index_eq[OF d]) (simp_all add: raid_primary_def raid_backup_def)
  moreover have "41 \<le> h_udp_max h" using assms(4) by simp
  ultimately show ?thesis
    using WriteCommand_sends[OF assms, of k ms] ReadCommand_sends[OF assms(1) _ assms(5), of k n ms]
    by (auto simp: Let_def write_datagrams_def read_datagrams_def)
qed

theorem commands_address_replicas_witness:
  "\<exists>ms' p q x y. p \<noteq> q \<and> master_Execute demo_host WriteCommand (WriteArgsKey WRITE_CMD_KEY 4194304 2 (Some [1, 2])) master_init =
     Inr ((Some (WriteAIFunc (uid_of demo_host 1) (uid_of demo_host 2)), 500), ms') \<and> ms_udp_tx ms' = [(p, x), (q, y)]"
  using commands_address_replicas[of 4194304 "[1, 2]" 2 demo_host WRITE_CMD_KEY master_init]
  by (auto simp: raid_capacity_val master_init_def m_static_counter_init_def master_Execute_def)

text \<open>
  A datagram with a key the master does not know is peeked at and never consumed: the
  handler returns in an unchanged state however often it runs, and the responses queued behind
  it are never seen.
\<close>

theorem unknown_response_blocks_queue:
  assumes "ms_udp_rx ms = d # queue" and "8 \<le> length d"
    and "le_word (take 4 d) \<noteq> WRITE_MINION_MSG_KEY" and "le_word (take 4 d) \<noteq> READ_MINION_MSG_KEY"
  shows "((\<lambda>s. bindE s (master_udp_ready h)) ^^ k) (Inr ms) = Inr ms"
proof (induction k)
  case (Suc k)
  then show ?case using ResponseProxy_other[OF assms] by (simp add: master_udp_ready_def)
qed simp

theorem unknown_response_blocks_queue_witness:
  "((\<lambda>s. bindE s (master_udp_ready demo_host)) ^^ 3)
     (Inr (master_init\<lparr>ms_udp_rx := [[0, 0, 0, 0, 0, 0, 0, 0], minion_write_wire (MinionWriteMsg demo_uid True)]\<rparr>)) =
   Inr (master_init\<lparr>ms_udp_rx := [[0, 0, 0, 0, 0, 0, 0, 0], minion_write_wire (MinionWriteMsg demo_uid True)]\<rparr>)"
  by (rule unknown_response_blocks_queue[where d = "[0, 0, 0, 0, 0, 0, 0, 0]"]) (simp_all add: key_defs)

text \<open>
  The answer to a read is forwarded to the block device whoever asked for it: even when its
  identifier was never registered, and again for every duplicate.
\<close>

theorem unsolicited_data_forwarded:
  assumes "ms_udp_rx ms = [minion_read_wire m, minion_read_wire m]" and "m_key m = READ_MINION_MSG_KEY"
    and "mr_data m = Some d" and "length d = unat (m_size m)" and "unat (m_size m) < 2 ^ 31 - 41"
    and "mr_is_success m" and "time_ok h"
  shows "\<exists>ms'. bindE (master_udp_ready h ms) (master_udp_ready h) = Inr ms' \<and>
    ms_nbd_tx ms' = ms_nbd_tx ms @ d @ d"
proof -
  obtain ms1 where 1: "master_udp_ready h ms = Inr ms1" "ms_udp_rx ms1 = [minion_read_wire m]"
    "ms_nbd_tx ms1 = ms_nbd_tx ms @ d"
    using ResponseProxy_read[OF assms(1-5,7)] assms(6) by (simp add: master_udp_ready_def)
  show ?thesis
    using ResponseProxy_read[OF 1(2) assms(2-5,7)] assms(6) 1 by (simp add: master_udp_ready_def)
qed

theorem unsolicited_data_forwarded_witness:
  "\<exists>ms'. bindE (master_udp_ready demo_host (master_init\<lparr>ms_udp_rx :=
        [minion_read_wire (MinionReadMsg demo_uid True (Some [7]) 1),
         minion_read_wire (MinionReadMsg demo_uid True (Some [7]) 1)]\<rparr>)) (master_udp_ready demo_host) = Inr ms' \<and>
    ms_nbd_tx ms' = [7, 7]"
  using unsolicited_data_forwarded[of "master_init\<lparr>ms_udp_rx :=
        [minion_read_wire (MinionReadMsg demo_uid True (Some [7]) 1),
         minion_read_wire (MinionReadMsg demo_uid True (Some [7]) 1)]\<rparr>" "MinionReadMsg demo_uid True (Some [7]) 1" "[7]" demo_host]
  by (simp add: msg_ctor_defs master_init_def)

text \<open>
  A command given the arguments of another kind throws in the master; a minion's command
  uses the null pointer of the failed cast.
\<close>

lemma wrong_arguments:
  "(\<forall>k off n d. \<exists>s. ReadCommand_Execute h (WriteArgsKey k off n d) ms = Inl (Runtime_error s)) \<and>
   (\<forall>k off n. \<exists>s. WriteCommand_Execute h (ReadArgsKey k off n) ms = Inl (Runtime_error s)) \<and>
   (\<forall>k off n d u. MinionReadCmd_Execute h (MinionWriteArgsKey k off n d u) mn = Inl Undefined) \<and>
   (\<forall>k off n u. MinionWriteCmd_Execute h (MinionReadArgsKey k off n u) mn = Inl Undefined)"
  by (simp add: ReadCommand_Execute_def WriteCommand_Execute_def MinionReadCmd_Execute_def
      MinionWriteCmd_Execute_def Let_def EqualToCheck_def)

end
