(* ===== verification/System.thy ===== *)
theory System
  imports Master_Correct
begin

text \<open>
  The running system: one master, three minions and the network between them, in rounds in
  which the network delivers everything. A round starts with a callback of the block device,
  goes through every handler of \<open>Master\<close> and \<open>Minion\<close> in the order the messages cause, and
  ends with the callback's return. The result: the 12 MB device is a flat array of bytes,
  implemented by the cells of the three files (\<open>raid.device\<close>), and stays mirrored.
\<close>

record system =
  sy_master :: master
  sy_minions :: "minion list"

subsection \<open>The rounds\<close>

definition deliver :: "(minion_proxy \<times> datagram) list \<Rightarrow> minion list \<Rightarrow> minion list" where
  "deliver tx mns =
     map (\<lambda>i. (mns ! i)\<lparr>mn_rx := mn_rx (mns ! i) @ map snd (filter (\<lambda>x. fst x = Raid01_ctor ! i) tx)\<rparr>)
       [0..<length mns]"

fun serve :: "host \<Rightarrow> nat \<Rightarrow> minion \<Rightarrow> minion result" where
  "serve h 0 mn = Inr mn"
| "serve h (Suc n) mn = bindE (minion_handle h mn) (serve h n)"

fun serve_all :: "(nat \<Rightarrow> host) \<Rightarrow> nat \<Rightarrow> minion list \<Rightarrow> minion list result" where
  "serve_all hm i [] = Inr []"
| "serve_all hm i (mn # mns) =
     bindE (serve (hm i) (length (mn_rx mn)) mn) (\<lambda>mn.
     bindE (serve_all hm (Suc i) mns) (\<lambda>mns. Inr (mn # mns)))"

fun drain :: "host \<Rightarrow> nat \<Rightarrow> master \<Rightarrow> master result" where
  "drain h 0 ms = Inr ms"
| "drain h (Suc n) ms = bindE (master_udp_ready h ms) (drain h n)"

definition network_round :: "host \<Rightarrow> (nat \<Rightarrow> host) \<Rightarrow> system \<Rightarrow> system result" where
  "network_round h hm sys =
     bindE (serve_all hm 0 (deliver (ms_udp_tx (sy_master sys)) (sy_minions sys))) (\<lambda>mns.
     let responses = concat (map mn_tx mns)
     in bindE (drain h (length responses)
                 ((sy_master sys)\<lparr>ms_udp_tx := [], ms_udp_rx := responses\<rparr>)) (\<lambda>ms.
          Inr \<lparr>sy_master = ms, sy_minions = map (\<lambda>mn. mn\<lparr>mn_tx := []\<rparr>) mns\<rparr>))"

definition run_poll :: "(ai_func \<times> nat) option \<Rightarrow> master \<Rightarrow> master result" where
  "run_poll poll ms =
     (case poll of None \<Rightarrow> Inr ms | Some (f, _) \<Rightarrow> bindE (ai_call f ms) (\<lambda>(_, ms). Inr ms))"

definition write_round ::
    "host \<Rightarrow> (nat \<Rightarrow> host) \<Rightarrow> byte list \<Rightarrow> u32 \<Rightarrow> u64 \<Rightarrow> system \<Rightarrow> (int \<times> system) result" where
  "write_round h hm buf len off sys =
     bindE (NBDWrite_request h buf len off (sy_master sys)) (\<lambda>ms.
     bindE (master_nbd_ready h ms) (\<lambda>(poll, ms).
     bindE (network_round h hm (sys\<lparr>sy_master := ms\<rparr>)) (\<lambda>sys.
     bindE (run_poll poll (sy_master sys)) (\<lambda>ms.
     bindE (NBDWrite_reply h len ms) (\<lambda>(r, ms).
       Inr (r, sys\<lparr>sy_master := ms\<rparr>))))))"

definition read_round ::
    "host \<Rightarrow> (nat \<Rightarrow> host) \<Rightarrow> byte list \<Rightarrow> u32 \<Rightarrow> u64 \<Rightarrow> system \<Rightarrow> (byte list \<times> system) result" where
  "read_round h hm buf len off sys =
     bindE (NBDRead_request h len off (sy_master sys)) (\<lambda>ms.
     bindE (master_nbd_ready h ms) (\<lambda>(poll, ms).
     bindE (network_round h hm (sys\<lparr>sy_master := ms\<rparr>)) (\<lambda>sys.
     bindE (run_poll poll (sy_master sys)) (\<lambda>ms.
     bindE (NBDRead_reply buf len ms) (\<lambda>(buf, ms).
       Inr (buf, sys\<lparr>sy_master := ms\<rparr>))))))"

subsection \<open>Abstraction, invariant, environment\<close>

definition cells :: "system \<Rightarrow> nat \<times> nat \<Rightarrow> byte" where
  "cells sys = (\<lambda>(i, a). if i < 3 then bf_data (mn_store (sy_minions sys ! i)) a else 0)"

definition idle :: "system \<Rightarrow> bool" where
  "idle sys \<longleftrightarrow> length (sy_minions sys) = 3 \<and>
     (\<forall>mn \<in> set (sy_minions sys). minion_wf mn \<and> mn_rx mn = [] \<and> mn_tx mn = []) \<and>
     ms_nbd_rx (sy_master sys) = [] \<and> ms_nbd_tx (sy_master sys) = [] \<and>
     ms_udp_rx (sy_master sys) = [] \<and> ms_udp_tx (sy_master sys) = []"

text \<open>
  Hosts whose clocks pass the check of \<open>ThreadSafeUID\<close>, whose sockets take datagrams with
  \<open>n\<close> bytes of data, and whose \<open>send\<close> takes all it is offered.
\<close>

definition hosts_ok :: "host \<Rightarrow> (nat \<Rightarrow> host) \<Rightarrow> nat \<Rightarrow> bool" where
  "hosts_ok h hm n \<longleftrightarrow> time_ok h \<and> (\<forall>k. h_send h k = int k) \<and> 41 + n \<le> h_udp_max h \<and>
     (\<forall>i. time_ok (hm i) \<and> 41 + n \<le> h_udp_max (hm i))"

subsection \<open>Parts of a round\<close>

lemma serve_all_each:
  assumes "\<And>k. k < length mns \<Longrightarrow> serve (hm (i + k)) (length (mn_rx (mns ! k))) (mns ! k) = Inr (f (i + k))"
  shows "serve_all hm i mns = Inr (map f [i..<i + length mns])"
  using assms
proof (induction mns arbitrary: i)
  case Nil
  then show ?case by simp
next
  case (Cons mn mns)
  have 1: "serve (hm i) (length (mn_rx mn)) mn = Inr (f i)"
    using Cons.prems[of 0] by simp
  have 2: "serve_all hm (Suc i) mns = Inr (map f [Suc i..<Suc i + length mns])"
    using Cons.prems[of "Suc k" for k] by (intro Cons.IH) simp
  show ?case by (simp add: 1 2 upt_conv_Cons del: upt_Suc)
qed

abbreviation write_response :: "uid \<Rightarrow> datagram" where
  "write_response u \<equiv> minion_write_wire (MinionWriteMsg u True)"

lemma udp_ready_write_response:
  assumes "ms_udp_rx ms = write_response u # queue" and "time_ok h"
  shows "master_udp_ready h ms = Inr (ms\<lparr>ms_counter := ms_counter ms + 1, ms_udp_rx := queue,
    ms_watch := RegisterResponse u (ms_watch ms)\<rparr>)"
proof -
  have "m_key (MinionWriteMsg u True) = WRITE_MINION_MSG_KEY" "m_uid (MinionWriteMsg u True) = u"
    "mw_is_success (MinionWriteMsg u True)"
    by (simp_all add: msg_ctor_defs)
  then show ?thesis
    using ResponseProxy_write[OF assms(1) _ assms(2)] by (simp add: master_udp_ready_def)
qed

lemma drain_write_responses:
  assumes "time_ok h"
  shows "ms_udp_rx ms = map write_response us \<Longrightarrow>
    drain h (length us) ms = Inr (ms\<lparr>ms_counter := ms_counter ms + of_nat (length us), ms_udp_rx := [],
      ms_watch := fold RegisterResponse us (ms_watch ms)\<rparr>)"
proof (induction us arbitrary: ms)
  case Nil
  then show ?case by simp
next
  case (Cons u us)
  from Cons.prems have rx: "ms_udp_rx ms = write_response u # map write_response us" by simp
  show ?case
    using Cons.IH by (simp add: udp_ready_write_response[OF rx assms] ac_simps)
qed

lemma NBDWrite_request_sends:
  assumes d: "length buf = unat n" and n: "unat n < 2 ^ 31 - 41" and clock: "time_ok h"
    and send: "\<And>k. h_send h k = int k"
  obtains m where "NBDWrite_request h buf n off ms = Inr (ms\<lparr>ms_counter := ms_counter ms + 1,
      ms_nbd_rx := ms_nbd_rx ms @ nbd_write_wire m\<rparr>)"
    and "nbd_write_wf m" and "m_key m = NBD_WRITE_MSG" and "m_size m = n"
    and "nw_offset m = off" and "nw_data m = Some buf"
proof -
  obtain m where m: "NBDWriteMsg h (ms_counter ms) off n (Some buf) = Inr (m, ms_counter ms + 1)"
    and f: "m_key m = NBD_WRITE_MSG" "m_size m = n" "nw_offset m = off" "nw_data m = Some buf"
    using ThreadSafeUID_time_ok[OF clock, of "ms_counter ms"]
    by (simp add: msg_ctor_defs memcpy_src_Some[OF d])
  have wf: "nbd_write_wf m" using f d by simp
  let ?buf = "new_char (h_garbage h 0) (unat (NBDWriteMsg_GetBufferSize m))"
  have len: "length (nbd_write_wire m) = 40 + unat n" using length_nbd_write_wire[OF wf] f by simp
  have size: "unat (NBDWriteMsg_GetBufferSize m) = length (nbd_write_wire m)"
    using unat_NBDWriteMsg_GetBufferSize[of m] len f by simp
  have 1: "NBDWriteMsg_ToBuffer m (?buf, 0) = Inr (nbd_write_wire m, length (nbd_write_wire m))"
    unfolding NBDWriteMsg_ToBuffer_puts[OF wf] by (rule puts_whole) (simp add: size)
  have 2: "TCPSocket_Send h (nbd_write_wire m) (int_of_u64 (NBDWriteMsg_GetBufferSize m)) =
      Inr (nbd_write_wire m)"
    using n send size len by (intro TCPSocket_Send_whole) (simp_all add: size_t_small)
  have "NBDWrite_request h buf n off ms = Inr (ms\<lparr>ms_counter := ms_counter ms + 1,
      ms_nbd_rx := ms_nbd_rx ms @ nbd_write_wire m\<rparr>)"
    by (simp add: NBDWrite_request_def m Let_def 1 2)
  with that wf f show thesis by blast
qed

lemma NBDRead_request_sends:
  assumes clock: "time_ok h" and send: "\<And>k. h_send h k = int k"
  obtains m where "NBDRead_request h n off ms = Inr (ms\<lparr>ms_counter := ms_counter ms + 1,
      ms_nbd_rx := ms_nbd_rx ms @ nbd_read_wire m\<rparr>)"
    and "m_key m = NBD_READ_MSG" and "m_size m = n" and "nr_offset m = off"
proof -
  obtain m where m: "NBDReadMsg h (ms_counter ms) off n = Inr (m, ms_counter ms + 1)"
    and f: "m_key m = NBD_READ_MSG" "m_size m = n" "nr_offset m = off"
    using ThreadSafeUID_time_ok[OF clock, of "ms_counter ms"] by (simp add: msg_ctor_defs)
  have 1: "NBDReadMsg_ToBuffer m (new_char (h_garbage h 0) 40, 0) = Inr (nbd_read_wire m, 40)"
    unfolding NBDReadMsg_ToBuffer_puts
    using puts_whole[of "new_char (h_garbage h 0) 40" "nbd_read_wire m"] by simp
  have 2: "TCPSocket_Send h (nbd_read_wire m) (int_of_u64 NBDReadMsg_GetBufferSize) = Inr (nbd_read_wire m)"
    using send by (intro TCPSocket_Send_whole) (simp_all add: size_t_small)
  have "NBDRead_request h n off ms = Inr (ms\<lparr>ms_counter := ms_counter ms + 1,
      ms_nbd_rx := ms_nbd_rx ms @ nbd_read_wire m\<rparr>)"
    by (simp add: NBDRead_request_def m Let_def 1 2)
  with that f show thesis by blast
qed

text \<open>A request of the block device up to the datagrams it causes.\<close>

lemma write_event:
  assumes rx: "ms_nbd_rx ms = []" and off: "unat off < raid_capacity" and d: "length buf = unat n"
    and n: "unat n < 2 ^ 31 - 41" and ok: "hosts_ok h hm (unat n)"
  obtains ms1 where "NBDWrite_request h buf n off ms = Inr ms1"
    and "master_nbd_ready h ms1 =
      (let c = ms_counter ms + 2
       in Inr (Some (WriteAIFunc (uid_of h c) (uid_of h (c + 1)), 500),
         ms\<lparr>ms_counter := c + 2,
            ms_watch := (ms_watch ms)(c \<mapsto> PROCESSING_REQUEST, c + 1 \<mapsto> PROCESSING_REQUEST),
            ms_udp_tx := ms_udp_tx ms @ write_datagrams h c off n buf\<rparr>))"
proof -
  from ok have clock: "time_ok h" and send: "\<And>k. h_send h k = int k" and udp: "41 + unat n \<le> h_udp_max h"
    by (auto simp: hosts_ok_def)
  obtain m where req: "NBDWrite_request h buf n off ms =
      Inr (ms\<lparr>ms_counter := ms_counter ms + 1, ms_nbd_rx := ms_nbd_rx ms @ nbd_write_wire m\<rparr>)"
    and m: "nbd_write_wf m" "m_key m = NBD_WRITE_MSG" "m_size m = n" "nw_offset m = off" "nw_data m = Some buf"
    using NBDWrite_request_sends[OF d n clock send] by blast
  let ?ms1 = "ms\<lparr>ms_counter := ms_counter ms + 1, ms_nbd_rx := ms_nbd_rx ms @ nbd_write_wire m\<rparr>"
  have r1: "ms_nbd_rx ?ms1 = nbd_write_wire m @ []" using rx by simp
  have n1: "unat (m_size m) < 2 ^ 31 - 41" using n m by simp
  have "master_nbd_ready h ?ms1 =
      (let c = ms_counter ms + 2
       in Inr (Some (WriteAIFunc (uid_of h c) (uid_of h (c + 1)), 500),
         ms\<lparr>ms_counter := c + 2,
            ms_watch := (ms_watch ms)(c \<mapsto> PROCESSING_REQUEST, c + 1 \<mapsto> PROCESSING_REQUEST),
            ms_udp_tx := ms_udp_tx ms @ write_datagrams h c off n buf\<rparr>))"
    unfolding master_nbd_ready_def NBD_GetArgsKey_write[OF r1 m(1,2) n1 clock] bindE_Inr prod.case
      TPTask_Run_def args_key.sel master_factory_Create master_Execute_def Let_def
    using WriteCommand_sends[OF off d n udp clock] m rx
    by (auto simp: Let_def ac_simps intro!: master.equality)
  with req show thesis by (rule that)
qed

lemma read_event:
  assumes rx: "ms_nbd_rx ms = []" and off: "unat off < raid_capacity" and ok: "hosts_ok h hm (unat n)"
  obtains ms1 where "NBDRead_request h n off ms = Inr ms1"
    and "master_nbd_ready h ms1 =
      (let c = ms_counter ms + 2
       in Inr (Some (ReadAIFunc (uid_of h c), 5000),
         ms\<lparr>ms_counter := c + 1, ms_watch := (ms_watch ms)(c \<mapsto> PROCESSING_REQUEST),
            ms_udp_tx := ms_udp_tx ms @ read_datagrams h c off n\<rparr>))"
proof -
  from ok have clock: "time_ok h" and send: "\<And>k. h_send h k = int k" and udp: "41 \<le> h_udp_max h"
    by (auto simp: hosts_ok_def)
  obtain m where req: "NBDRead_request h n off ms =
      Inr (ms\<lparr>ms_counter := ms_counter ms + 1, ms_nbd_rx := ms_nbd_rx ms @ nbd_read_wire m\<rparr>)"
    and m: "m_key m = NBD_READ_MSG" "m_size m = n" "nr_offset m = off"
    using NBDRead_request_sends[OF clock send] by blast
  let ?ms1 = "ms\<lparr>ms_counter := ms_counter ms + 1, ms_nbd_rx := ms_nbd_rx ms @ nbd_read_wire m\<rparr>"
  have r1: "ms_nbd_rx ?ms1 = nbd_read_wire m @ []" using rx by simp
  have "master_nbd_ready h ?ms1 =
      (let c = ms_counter ms + 2
       in Inr (Some (ReadAIFunc (uid_of h c), 5000),
         ms\<lparr>ms_counter := c + 1, ms_watch := (ms_watch ms)(c \<mapsto> PROCESSING_REQUEST),
            ms_udp_tx := ms_udp_tx ms @ read_datagrams h c off n\<rparr>))"
    unfolding master_nbd_ready_def NBD_GetArgsKey_read[OF r1 m(1) clock] bindE_Inr prod.case
      TPTask_Run_def args_key.sel master_factory_Create master_Execute_def Let_def
    using ReadCommand_sends[OF off udp clock] m rx
    by (auto simp: Let_def ac_simps intro!: master.equality)
  with req show thesis by (rule that)
qed

subsection \<open>What the minions do in a round\<close>

lemma proxy_inject: "i < 3 \<Longrightarrow> j < 3 \<Longrightarrow> Raid01_ctor ! i = Raid01_ctor ! j \<longleftrightarrow> i = j"
  by (auto simp: Raid01_ctor_def port_defs less_Suc_eq numeral_3_eq_3)

lemma placement_nodes:
  assumes "off < raid_capacity"
  shows "fst (raid_primary off) < 3" and "fst (raid_backup off) < 3"
    and "fst (raid_primary off) \<noteq> fst (raid_backup off)"
  using raid_node_bound[OF assms] raid.nodes_differ[OF assms]
  by (simp_all add: raid_primary_def raid_backup_def)

lemma in_stripe_off: "raid.in_stripe off n \<Longrightarrow> 0 < n \<Longrightarrow> off < raid_capacity"
  by (simp add: raid.in_stripe_def)

lemma placement_addresses:
  assumes "raid.in_stripe off n" and "0 < n"
  shows "snd (raid_primary off) + n \<le> 8 * MB" and "snd (raid_backup off) + n \<le> 8 * MB"
  using assms unfolding raid.in_stripe_def raid_primary_def raid_backup_def
  by (auto simp: size_consts)

definition wrote :: "uid \<Rightarrow> nat \<Rightarrow> byte list \<Rightarrow> minion \<Rightarrow> minion" where
  "wrote u a d mn = mn\<lparr>mn_counter := mn_counter mn + 1, mn_is_init := False,
     mn_file := bin_write (of_nat a) d (mn_store mn), mn_rx := [], mn_tx := [write_response u]\<rparr>"

definition have_read :: "uid \<Rightarrow> nat \<Rightarrow> u32 \<Rightarrow> minion \<Rightarrow> minion" where
  "have_read u a n mn = mn\<lparr>mn_counter := mn_counter mn + 1, mn_is_init := False,
     mn_file := (mn_store mn)\<lparr>bf_pos := 0\<rparr>, mn_rx := [],
     mn_tx := [minion_read_wire (MinionReadMsg u True
       (Some (map (bf_data (mn_store mn)) [a..<a + unat n])) n)]\<rparr>"

lemma serve_write:
  assumes wf: "minion_wf mn" and tx: "mn_tx mn = []" and d: "length d = unat n"
    and n: "unat n < 2 ^ 31 - 41" and a: "a < 2 ^ 63" and ok: "hosts_ok h0 hm (unat n)"
  shows "serve (hm i) 1 (mn\<lparr>mn_rx := [write_wire (WriteMsg (of_nat a) n (Some d) u)]\<rparr>) = Inr (wrote u a d mn)"
proof -
  let ?m = "WriteMsg (of_nat a) n (Some d) u"
  let ?mn = "mn\<lparr>mn_rx := [write_wire ?m]\<rparr>"
  have m: "write_wf ?m" "m_key ?m = WRITE_MSG_KEY" "unat (m_size ?m) < 2 ^ 31 - 41"
    and f: "wr_offset ?m = of_nat a" "wr_data ?m = Some d" "m_uid ?m = u"
    using d n by (simp_all add: msg_ctor_defs)
  have wf1: "minion_wf ?mn" using wf by (simp add: minion_wf_frame)
  have clock: "\<not> bit (h_time (hm i) (mn_counter ?mn)) 31" and udp: "33 \<le> h_udp_max (hm i)"
    using ok add_leD1[of 41 "unat n" "h_udp_max (hm i)"] by (auto simp: hosts_ok_def time_ok_def)
  have "mn_rx ?mn = write_wire ?m # []" by simp
  from handle_write[OF this m clock udp] show ?thesis
    by (simp add: wrote_def f tx)
qed

lemma serve_read:
  assumes wf: "minion_wf mn" and tx: "mn_tx mn = []" and n: "unat n < 2 ^ 31 - 41"
    and a: "a + unat n \<le> 8 * MB" and ok: "hosts_ok h0 hm (unat n)"
  shows "serve (hm i) 1 (mn\<lparr>mn_rx := [read_wire (ReadMsg (of_nat a) n u)]\<rparr>) = Inr (have_read u a n mn)"
proof -
  let ?m = "ReadMsg (of_nat a) n u"
  let ?mn = "mn\<lparr>mn_rx := [read_wire ?m]\<rparr>"
  have a64: "unat (of_nat a :: u64) = a" using a by (simp add: unat_of_nat size_consts)
  have key: "m_key ?m = READ_MSG_KEY" and f: "rd_offset ?m = of_nat a" "m_size ?m = n" "m_uid ?m = u"
    by (simp_all add: msg_ctor_defs)
  have wf1: "minion_wf ?mn" using wf by (simp add: minion_wf_frame)
  have range: "unat (rd_offset ?m) + unat (m_size ?m) \<le> bf_len (mn_store ?mn)"
    using a minion_wf_store(2)[OF wf] by (simp add: f a64)
  have clock: "\<not> bit (h_time (hm i) (mn_counter ?mn)) 31" and udp: "33 + unat (m_size ?m) \<le> h_udp_max (hm i)"
    and size: "unat (m_size ?m) < 2 ^ 31 - 33"
    using ok n by (auto simp: hosts_ok_def time_ok_def f intro: order_trans[of _ "41 + unat n"])
  have "mn_rx ?mn = read_wire ?m # []" by simp
  from handle_read[OF wf1 this key range clock size udp] show ?thesis
    by (simp add: have_read_def f a64 tx)
qed

text \<open>Delivering to an idle system: each minion gets the datagrams with its address.\<close>

lemma deliver_two:
  assumes "length mns = 3" and "\<forall>mn \<in> set mns. mn_rx mn = []" and "p < 3" "b < 3" "p \<noteq> b" and "i < 3"
  shows "deliver [(Raid01_ctor ! p, x), (Raid01_ctor ! b, y)] mns ! i =
    (mns ! i)\<lparr>mn_rx := if i = p then [x] else if i = b then [y] else []\<rparr>"
  using assms by (simp add: deliver_def proxy_inject)

lemma deliver_one:
  assumes "length mns = 3" and "\<forall>mn \<in> set mns. mn_rx mn = []" and "p < 3" and "i < 3"
  shows "deliver [(Raid01_ctor ! p, x)] mns ! i = (mns ! i)\<lparr>mn_rx := if i = p then [x] else []\<rparr>"
  using assms by (simp add: deliver_def proxy_inject)

lemma length_deliver [simp]: "length (deliver tx mns) = length mns"
  by (simp add: deliver_def)

text \<open>Serving a list of minions that differ from an idle list only in what was delivered.\<close>

lemma serve_all_idle:
  assumes len: "length mns = 3" and idle: "\<forall>mn \<in> set mns. mn_rx mn = []"
    and ds: "\<And>i. i < 3 \<Longrightarrow> dmns ! i = (mns ! i)\<lparr>mn_rx := r i\<rparr>" "length dmns = 3"
    and sv: "\<And>i. i < 3 \<Longrightarrow> r i \<noteq> [] \<Longrightarrow>
       length (r i) = 1 \<and> serve (hm i) 1 ((mns ! i)\<lparr>mn_rx := r i\<rparr>) = Inr (f i)"
    and rest: "\<And>i. i < 3 \<Longrightarrow> r i = [] \<Longrightarrow> f i = mns ! i"
  shows "serve_all hm 0 dmns = Inr (map f [0..<3])"
proof -
  have "serve (hm i) (length (mn_rx (dmns ! i))) (dmns ! i) = Inr (f i)" if i: "i < 3" for i
  proof (cases "r i = []")
    case True
    have rx: "mn_rx (mns ! i) = []" using i len idle by simp
    then have "(mns ! i)\<lparr>mn_rx := []\<rparr> = mns ! i" by simp
    with True rest[OF i] rx show ?thesis by (simp add: ds(1)[OF i])
  next
    case False
    with sv[OF i] show ?thesis by (simp add: ds(1)[OF i])
  qed
  then show ?thesis
    using serve_all_each[of dmns hm 0 f] ds(2) by simp
qed

subsection \<open>A write round\<close>

definition after_write :: "system \<Rightarrow> nat \<Rightarrow> byte list \<Rightarrow> uid \<Rightarrow> uid \<Rightarrow> nat \<Rightarrow> minion" where
  "after_write sys off d u v i =
     (if i = fst (raid_primary off) then wrote u (snd (raid_primary off)) d (sy_minions sys ! i)
      else if i = fst (raid_backup off) then wrote v (snd (raid_backup off)) d (sy_minions sys ! i)
      else sy_minions sys ! i)"

lemma write_round_minions:
  assumes sys: "idle sys" and ok: "hosts_ok h hm (unat n)" and d: "length d = unat n"
    and n: "unat n < 2 ^ 31 - 41" "0 < unat n" and s: "raid.in_stripe (unat off) (unat n)"
  shows "serve_all hm 0 (deliver (write_datagrams h c off n d) (sy_minions sys)) =
    Inr (map (after_write sys (unat off) d (uid_of h c) (uid_of h (c + 1))) [0..<3])"
proof -
  let ?p = "raid_primary (unat off)" and ?b = "raid_backup (unat off)" and ?mns = "sy_minions sys"
  let ?m = "\<lambda>at u. write_wire (WriteMsg (of_nat (snd at)) n (Some d) u)"
  let ?r = "\<lambda>i. if i = fst ?p then [?m ?p (uid_of h c)]
      else if i = fst ?b then [?m ?b (uid_of h (c + 1))] else []"
  have off: "unat off < raid_capacity" using s n(2) by (rule in_stripe_off)
  note nodes = placement_nodes[OF off]
  from placement_addresses[OF s n(2)] have a: "snd ?p < 2 ^ 63" "snd ?b < 2 ^ 63"
    by (simp_all add: size_consts)
  from sys have len: "length ?mns = 3" and rx: "\<forall>mn \<in> set ?mns. mn_rx mn = []"
    and wf: "\<forall>mn \<in> set ?mns. minion_wf mn \<and> mn_tx mn = []"
    by (auto simp: idle_def)
  have mn: "minion_wf (?mns ! i)" "mn_tx (?mns ! i) = []" if "i < 3" for i
    using wf len that by simp_all
  show ?thesis
  proof (rule serve_all_idle[OF len rx, where r = ?r])
    fix i :: nat assume i: "i < 3"
    show "deliver (write_datagrams h c off n d) ?mns ! i = (?mns ! i)\<lparr>mn_rx := ?r i\<rparr>"
      unfolding write_datagrams_def by (rule deliver_two[OF len rx nodes i])
    show "length (?r i) = 1 \<and> serve (hm i) 1 ((?mns ! i)\<lparr>mn_rx := ?r i\<rparr>) =
        Inr (after_write sys (unat off) d (uid_of h c) (uid_of h (c + 1)) i)" if "?r i \<noteq> []"
      using that serve_write[OF mn[OF i] d n(1) a(1) ok] serve_write[OF mn[OF i] d n(1) a(2) ok]
      by (auto simp: after_write_def split: if_splits)
  qed (use len in \<open>auto simp: after_write_def split: if_splits\<close>)
qed

lemma write_round_responses:
  assumes sys: "idle sys" and off: "off < raid_capacity"
  obtains us where "concat (map mn_tx (map (after_write sys off d u v) [0..<3])) = map write_response us"
    and "set us = {u, v}"
proof -
  let ?us = "concat (map (\<lambda>i. if i = fst (raid_primary off) then [u]
      else if i = fst (raid_backup off) then [v] else []) [0..<3])"
  have tx: "mn_tx (sy_minions sys ! i) = []" if "i < 3" for i
    using sys that by (simp add: idle_def)
  have "concat (map mn_tx (map (after_write sys off d u v) [0..<3])) = map write_response ?us"
    unfolding map_concat map_map
    by (rule arg_cong[where f = concat], rule map_cong[OF refl]) (auto simp: after_write_def wrote_def tx)
  moreover have "set ?us = {u, v}"
    using placement_nodes[OF off] by auto
  ultimately show thesis by (rule that)
qed

lemma idle_after_write:
  assumes sys: "idle sys" and d: "0 < length d" and s: "raid.in_stripe off (length d)"
  shows "\<forall>mn \<in> set (map (\<lambda>mn. mn\<lparr>mn_tx := []\<rparr>) (map (after_write sys off d u v) [0..<3])).
    minion_wf mn \<and> mn_rx mn = [] \<and> mn_tx mn = []"
proof -
  have mn: "minion_wf (sy_minions sys ! i)" "mn_rx (sy_minions sys ! i) = []" if "i < 3" for i
    using sys that by (simp_all add: idle_def)
  have "minion_wf ((wrote u a d mn)\<lparr>mn_tx := []\<rparr>)" if "minion_wf mn" "a + length d \<le> 8 * MB" for u a mn
    using minion_wf_write[OF that] by (simp add: minion_wf_def wrote_def)
  then show ?thesis
    using mn placement_addresses[OF s d]
    by (auto simp: after_write_def minion_wf_frame) (auto simp: wrote_def)
qed

text \<open>The cells after the round are those of a mirrored write.\<close>

lemma cells_after_write:
  assumes sys: "idle sys" and d: "0 < length d" and s: "raid.in_stripe off (length d)"
  shows "cells \<lparr>sy_master = ms, sy_minions = map (\<lambda>mn. mn\<lparr>mn_tx := []\<rparr>) (map (after_write sys off d u v) [0..<3])\<rparr> =
    raid.mirror_write (cells sys) off d"
proof -
  have off: "off < raid_capacity" using s d by (rule in_stripe_off)
  have cell: "bf_data (mn_store ((wrote w a d mn)\<lparr>mn_tx := []\<rparr>)) =
      (\<lambda>x. if a \<le> x \<and> x < a + length d then d ! (x - a) else bf_data (mn_store mn) x)"
    if "minion_wf mn" "a + length d \<le> 8 * MB" for w a mn
    using minion_wf_store[OF that(1)] that(2)
    by (simp add: wrote_def store.wr_cell fun_eq_iff)
  have wf: "minion_wf (sy_minions sys ! i)" if "i < 3" for i
    using sys that by (simp add: idle_def)
  show ?thesis
  proof (rule ext, clarify)
    fix i x
    show "cells \<lparr>sy_master = ms, sy_minions = map (\<lambda>mn. mn\<lparr>mn_tx := []\<rparr>)
        (map (after_write sys off d u v) [0..<3])\<rparr> (i, x) = raid.mirror_write (cells sys) off d (i, x)"
    proof (cases "i < 3")
      case False
      then show ?thesis
        using placement_nodes[OF off] by (auto simp: cells_def raid.mirror_write_def raid.put_run_def)
    next
      case True
      then show ?thesis
        using placement_nodes[OF off] cell[OF wf[OF True] placement_addresses(1)[OF s d]]
          cell[OF wf[OF True] placement_addresses(2)[OF s d]]
        by (auto simp: cells_def raid.mirror_write_def raid.put_run_def after_write_def)
    qed
  qed
qed

lemma NBDWrite_reply_success:
  assumes "ms_nbd_tx ms = c_str ''Success''" and "8 \<le> unat n" and "unat n < 2 ^ 31"
  shows "NBDWrite_reply h n ms = Inr (0, ms\<lparr>ms_nbd_tx := []\<rparr>)"
proof -
  let ?t = "c_str ''Success''"
  have "?t \<noteq> []" by (simp add: c_str_def)
  moreover have "store (new_char (h_garbage h 1) (unat n)) 0 ?t \<noteq> Inl e" for e
    using assms(2) by (simp add: store_def)
  ultimately show ?thesis
    using assms by (auto simp: NBDWrite_reply_def TCPSocket_Recive_def size_t_sint store_def Let_def NegativeCheck_ok)
qed

lemma network_round_write:
  assumes sys: "idle sys" and ok: "hosts_ok h hm (unat n)" and d: "length d = unat n"
    and n: "unat n < 2 ^ 31 - 41" "0 < unat n" and s: "raid.in_stripe (unat off) (unat n)"
    and tx: "ms_udp_tx ms = write_datagrams h c off n d"
  obtains us where "set us = {uid_of h c, uid_of h (c + 1)}"
    and "network_round h hm (sys\<lparr>sy_master := ms\<rparr>) =
      Inr \<lparr>sy_master = ms\<lparr>ms_counter := ms_counter ms + of_nat (length us), ms_udp_rx := [], ms_udp_tx := [],
             ms_watch := fold RegisterResponse us (ms_watch ms)\<rparr>,
           sy_minions = map (\<lambda>mn. mn\<lparr>mn_tx := []\<rparr>)
             (map (after_write sys (unat off) d (uid_of h c) (uid_of h (c + 1))) [0..<3])\<rparr>"
proof -
  from ok have clock: "time_ok h" by (simp add: hosts_ok_def)
  from write_round_responses[OF sys in_stripe_off[OF s n(2)]] obtain us where
    us: "concat (map mn_tx (map (after_write sys (unat off) d (uid_of h c) (uid_of h (c + 1))) [0..<3])) =
      map write_response us" "set us = {uid_of h c, uid_of h (c + 1)}" .
  have dr: "drain h (length us) (ms\<lparr>ms_udp_tx := [], ms_udp_rx := map write_response us\<rparr>) =
      Inr (ms\<lparr>ms_counter := ms_counter ms + of_nat (length us), ms_udp_rx := [], ms_udp_tx := [],
        ms_watch := fold RegisterResponse us (ms_watch ms)\<rparr>)"
    using drain_write_responses[OF clock, of "ms\<lparr>ms_udp_tx := [], ms_udp_rx := map write_response us\<rparr>" us]
    by simp
  have "network_round h hm (sys\<lparr>sy_master := ms\<rparr>) =
      Inr \<lparr>sy_master = ms\<lparr>ms_counter := ms_counter ms + of_nat (length us), ms_udp_rx := [], ms_udp_tx := [],
             ms_watch := fold RegisterResponse us (ms_watch ms)\<rparr>,
           sy_minions = map (\<lambda>mn. mn\<lparr>mn_tx := []\<rparr>)
             (map (after_write sys (unat off) d (uid_of h c) (uid_of h (c + 1))) [0..<3])\<rparr>"
    using write_round_minions[OF sys ok d n s, of c] tx dr us(1)
    by (simp add: network_round_def Let_def del: upt_Suc upt_conv_Cons)
  with us(2) show thesis by (rule that)
qed

lemma run_poll_success:
  assumes ne: "GetUniqueCounter og \<noteq> GetUniqueCounter bk"
    and ans: "GetUniqueCounter og \<in> answered (ms_watch ms)" "GetUniqueCounter bk \<in> answered (ms_watch ms)"
  obtains w where "run_poll (Some (WriteAIFunc og bk, t)) ms =
    Inr (ms\<lparr>ms_watch := w, ms_nbd_tx := ms_nbd_tx ms @ c_str ''Success''\<rparr>)"
  using ans by (simp add: run_poll_def ai_call_def WriteAIFunc_call_spec[OF ne] write_poll_spec_def Let_def)

theorem write_round_correct:
  assumes sys: "idle sys" and ok: "hosts_ok h hm (unat n)" and d: "length d = unat n"
    and n: "unat n < 2 ^ 31 - 41" "8 \<le> unat n" and s: "raid.in_stripe (unat off) (unat n)"
  shows "\<exists>sys'. write_round h hm d n off sys = Inr (0, sys') \<and> idle sys' \<and>
    cells sys' = raid.mirror_write (cells sys) (unat off) d"
proof -
  from n(2) d have n0: "0 < unat n" "0 < length d" by simp_all
  let ?ms = "sy_master sys" and ?c = "ms_counter (sy_master sys) + 2"
  let ?u = "uid_of h ?c" and ?v = "uid_of h (?c + 1)"
  from sys have m: "ms_nbd_rx ?ms = []" "ms_nbd_tx ?ms = []" "ms_udp_tx ?ms = []" by (auto simp: idle_def)
  define ms2 where "ms2 = ?ms\<lparr>ms_counter := ?c + 2,
    ms_watch := (ms_watch ?ms)(?c \<mapsto> PROCESSING_REQUEST, ?c + 1 \<mapsto> PROCESSING_REQUEST),
    ms_udp_tx := write_datagrams h ?c off n d\<rparr>"
  from write_event[OF m(1) in_stripe_off[OF s n0(1)] d n(1) ok] obtain ms1 where
    1: "NBDWrite_request h d n off ?ms = Inr ms1"
       "master_nbd_ready h ms1 = Inr (Some (WriteAIFunc ?u ?v, 500), ms2)"
    using m(3) by (auto simp: Let_def ms2_def)
  have tx: "ms_udp_tx ms2 = write_datagrams h ?c off n d" by (simp add: ms2_def)
  from network_round_write[OF sys ok d n(1) n0(1) s tx] obtain us where us: "set us = {?u, ?v}" and
    2: "network_round h hm (sys\<lparr>sy_master := ms2\<rparr>) =
      Inr \<lparr>sy_master = ms2\<lparr>ms_counter := ms_counter ms2 + of_nat (length us), ms_udp_rx := [], ms_udp_tx := [],
             ms_watch := fold RegisterResponse us (ms_watch ms2)\<rparr>,
           sy_minions = map (\<lambda>mn. mn\<lparr>mn_tx := []\<rparr>) (map (after_write sys (unat off) d ?u ?v) [0..<3])\<rparr>"
    (is "_ = Inr ?sys2") .
  let ?ms3 = "sy_master ?sys2"
  have ne: "GetUniqueCounter ?u \<noteq> GetUniqueCounter ?v" by simp
  have ans: "GetUniqueCounter ?u \<in> answered (ms_watch ?ms3)" "GetUniqueCounter ?v \<in> answered (ms_watch ?ms3)"
    using answered_respond_all[of us ms2] us by (simp_all add: respond_all_def)
  obtain w where 3: "run_poll (Some (WriteAIFunc ?u ?v, 500)) ?ms3 =
      Inr (?ms3\<lparr>ms_watch := w, ms_nbd_tx := ms_nbd_tx ?ms3 @ c_str ''Success''\<rparr>)"
    using run_poll_success[OF ne ans] .
  have nbd3: "ms_nbd_tx ?ms3 = []" using m(2) by (simp add: ms2_def)
  let ?ms4 = "?ms3\<lparr>ms_watch := w, ms_nbd_tx := ms_nbd_tx ?ms3 @ c_str ''Success''\<rparr>"
  have 4: "NBDWrite_reply h n ?ms4 = Inr (0, ?ms4\<lparr>ms_nbd_tx := []\<rparr>)"
    using n nbd3 by (intro NBDWrite_reply_success) simp_all
  let ?sys' = "?sys2\<lparr>sy_master := ?ms4\<lparr>ms_nbd_tx := []\<rparr>\<rparr>"
  have "write_round h hm d n off sys = Inr (0, ?sys')"
    by (simp only: write_round_def 1 2 3 4 bindE_Inr prod.case)
  moreover have "idle ?sys'"
    using idle_after_write[OF sys n0(2), of "unat off" ?u ?v] s d m by (simp add: idle_def ms2_def)
  moreover have "cells ?sys' = raid.mirror_write (cells sys) (unat off) d"
    using cells_after_write[OF sys n0(2), of "unat off"] s d by simp
  ultimately show ?thesis by blast
qed

subsection \<open>A read round\<close>

definition after_read :: "system \<Rightarrow> nat \<Rightarrow> u32 \<Rightarrow> uid \<Rightarrow> nat \<Rightarrow> minion" where
  "after_read sys off n u i =
     (if i = fst (raid_primary off) then have_read u (snd (raid_primary off)) n (sy_minions sys ! i)
      else sy_minions sys ! i)"

definition read_bytes :: "system \<Rightarrow> nat \<Rightarrow> nat \<Rightarrow> byte list" where
  "read_bytes sys off n =
     map (bf_data (mn_store (sy_minions sys ! fst (raid_primary off))))
       [snd (raid_primary off)..<snd (raid_primary off) + n]"

lemma read_bytes_device:
  assumes s: "raid.in_stripe off n" and n: "0 < n"
  shows "read_bytes sys off n = map (raid.device (cells sys)) [off..<off + n]"
proof (rule nth_equalityI)
  fix i assume "i < length (read_bytes sys off n)"
  then have i: "i < n" by (simp add: read_bytes_def)
  show "read_bytes sys off n ! i = map (raid.device (cells sys)) [off..<off + n] ! i"
    using raid.run_placements(1)[OF s i] i placement_nodes(1)[OF in_stripe_off[OF s n]]
    by (simp add: read_bytes_def raid.device_def cells_def)
qed (simp add: read_bytes_def)

lemma read_round_minions:
  assumes sys: "idle sys" and ok: "hosts_ok h hm (unat n)"
    and n: "unat n < 2 ^ 31 - 41" "0 < unat n" and s: "raid.in_stripe (unat off) (unat n)"
  shows "serve_all hm 0 (deliver (read_datagrams h c off n) (sy_minions sys)) =
    Inr (map (after_read sys (unat off) n (uid_of h c)) [0..<3])"
proof -
  let ?p = "raid_primary (unat off)" and ?mns = "sy_minions sys"
  let ?r = "\<lambda>i. if i = fst ?p then [read_wire (ReadMsg (of_nat (snd ?p)) n (uid_of h c))] else []"
  note nodes = placement_nodes[OF in_stripe_off[OF s n(2)]]
  from sys have len: "length ?mns = 3" and rx: "\<forall>mn \<in> set ?mns. mn_rx mn = []"
    and wf: "\<forall>mn \<in> set ?mns. minion_wf mn \<and> mn_tx mn = []"
    by (auto simp: idle_def)
  have mn: "minion_wf (?mns ! i)" "mn_tx (?mns ! i) = []" if "i < 3" for i
    using wf len that by simp_all
  show ?thesis
  proof (rule serve_all_idle[OF len rx, where r = ?r])
    fix i :: nat assume i: "i < 3"
    show "deliver (read_datagrams h c off n) ?mns ! i = (?mns ! i)\<lparr>mn_rx := ?r i\<rparr>"
      unfolding read_datagrams_def by (rule deliver_one[OF len rx nodes(1) i])
    show "length (?r i) = 1 \<and> serve (hm i) 1 ((?mns ! i)\<lparr>mn_rx := ?r i\<rparr>) =
        Inr (after_read sys (unat off) n (uid_of h c) i)" if "?r i \<noteq> []"
      using that serve_read[OF mn[OF i] n(1) placement_addresses(1)[OF s n(2)] ok]
      by (auto simp: after_read_def split: if_splits)
  qed (use len in \<open>auto simp: after_read_def split: if_splits\<close>)
qed

lemma read_round_responses:
  assumes sys: "idle sys" and off: "off < raid_capacity"
  shows "concat (map mn_tx (map (after_read sys off n u) [0..<3])) =
    [minion_read_wire (MinionReadMsg u True (Some (read_bytes sys off (unat n))) n)]"
proof -
  let ?p = "fst (raid_primary off)"
  have tx: "mn_tx (sy_minions sys ! i) = []" if "i < 3" for i
    using sys that by (simp add: idle_def)
  have "concat (map mn_tx (map (after_read sys off n u) [0..<3])) =
      concat (map (\<lambda>i. if i = ?p then [minion_read_wire (MinionReadMsg u True
        (Some (read_bytes sys off (unat n))) n)] else []) [0..<3])"
    unfolding map_concat map_map
    by (rule arg_cong[where f = concat], rule map_cong[OF refl])
       (auto simp: after_read_def have_read_def read_bytes_def tx)
  also have "\<dots> = [minion_read_wire (MinionReadMsg u True (Some (read_bytes sys off (unat n))) n)]"
    using placement_nodes(1)[OF off] by (auto simp: numeral_3_eq_3 less_Suc_eq)
  finally show ?thesis .
qed

lemma idle_after_read:
  assumes sys: "idle sys"
  shows "\<forall>mn \<in> set (map (\<lambda>mn. mn\<lparr>mn_tx := []\<rparr>) (map (after_read sys off n u) [0..<3])).
    minion_wf mn \<and> mn_rx mn = [] \<and> mn_tx mn = []"
proof -
  have mn: "minion_wf (sy_minions sys ! i)" "mn_rx (sy_minions sys ! i) = []" if "i < 3" for i
    using sys that by (simp_all add: idle_def)
  have "minion_wf ((have_read u a n mn)\<lparr>mn_tx := []\<rparr>)" if "minion_wf mn" for a mn
    using minion_wf_read[OF that] by (simp add: minion_wf_def have_read_def)
  then show ?thesis
    using mn by (auto simp: after_read_def minion_wf_frame) (auto simp: have_read_def)
qed

lemma cells_after_read:
  assumes sys: "idle sys"
  shows "cells \<lparr>sy_master = ms, sy_minions = map (\<lambda>mn. mn\<lparr>mn_tx := []\<rparr>) (map (after_read sys off n u) [0..<3])\<rparr> =
    cells sys"
  by (auto simp: cells_def fun_eq_iff after_read_def have_read_def)

lemma udp_ready_read_response:
  assumes rx: "ms_udp_rx ms = [minion_read_wire (MinionReadMsg u True (Some d) n)]"
    and d: "length d = unat n" and n: "unat n < 2 ^ 31 - 41" and clock: "time_ok h"
  shows "master_udp_ready h ms = Inr (ms\<lparr>ms_counter := ms_counter ms + 1, ms_udp_rx := [],
    ms_watch := RegisterResponse u (ms_watch ms), ms_nbd_tx := ms_nbd_tx ms @ d\<rparr>)"
proof -
  let ?m = "MinionReadMsg u True (Some d) n"
  have f: "m_key ?m = READ_MINION_MSG_KEY" "mr_data ?m = Some d" "m_size ?m = n" "m_uid ?m = u"
    "mr_is_success ?m"
    by (simp_all add: msg_ctor_defs)
  have d1: "length d = unat (m_size ?m)" and n1: "unat (m_size ?m) < 2 ^ 31 - 41"
    using d n by (simp_all add: f)
  show ?thesis
    using ResponseProxy_read[OF rx f(1,2) d1 n1 clock] by (simp add: master_udp_ready_def f)
qed

theorem read_round_correct:
  assumes sys: "idle sys" and ok: "hosts_ok h hm (unat n)" and buf: "length buf = unat n"
    and n: "unat n < 2 ^ 31 - 41" "0 < unat n" and s: "raid.in_stripe (unat off) (unat n)"
  shows "\<exists>sys'. read_round h hm buf n off sys =
      Inr (map (raid.device (cells sys)) [unat off..<unat off + unat n], sys') \<and>
    idle sys' \<and> cells sys' = cells sys"
proof -
  let ?ms = "sy_master sys" and ?c = "ms_counter (sy_master sys) + 2"
  let ?u = "uid_of h ?c" and ?d = "read_bytes sys (unat off) (unat n)"
  note off = in_stripe_off[OF s n(2)]
  from ok have clock: "time_ok h" by (simp add: hosts_ok_def)
  from sys have m: "ms_nbd_rx ?ms = []" "ms_nbd_tx ?ms = []" "ms_udp_tx ?ms = []" by (auto simp: idle_def)
  define ms2 where "ms2 = ?ms\<lparr>ms_counter := ?c + 1,
    ms_watch := (ms_watch ?ms)(?c \<mapsto> PROCESSING_REQUEST), ms_udp_tx := read_datagrams h ?c off n\<rparr>"
  from read_event[OF m(1) off ok] obtain ms1 where
    1: "NBDRead_request h n off ?ms = Inr ms1"
       "master_nbd_ready h ms1 = Inr (Some (ReadAIFunc ?u, 5000), ms2)"
    using m(3) by (auto simp: Let_def ms2_def)
  have len: "length ?d = unat n" by (simp add: read_bytes_def)
  let ?mns = "map (\<lambda>mn. mn\<lparr>mn_tx := []\<rparr>) (map (after_read sys (unat off) n ?u) [0..<3])"
  let ?ms3 = "ms2\<lparr>ms_counter := ms_counter ms2 + 1, ms_udp_rx := [], ms_udp_tx := [],
    ms_watch := RegisterResponse ?u (ms_watch ms2), ms_nbd_tx := ?d\<rparr>"
  have "drain h (length [minion_read_wire (MinionReadMsg ?u True (Some ?d) n)])
      (ms2\<lparr>ms_udp_tx := [], ms_udp_rx := [minion_read_wire (MinionReadMsg ?u True (Some ?d) n)]\<rparr>) = Inr ?ms3"
    using udp_ready_read_response[of "ms2\<lparr>ms_udp_tx := [], ms_udp_rx := [minion_read_wire
        (MinionReadMsg ?u True (Some ?d) n)]\<rparr>" ?u ?d n, OF _ len n(1) clock] m(2)
    by (simp add: ms2_def)
  then have 2: "network_round h hm (sys\<lparr>sy_master := ms2\<rparr>) = Inr \<lparr>sy_master = ?ms3, sy_minions = ?mns\<rparr>"
    using read_round_minions[OF sys ok n s, of ?c] read_round_responses[OF sys off, of n ?u]
    by (simp add: network_round_def Let_def ms2_def del: upt_Suc upt_conv_Cons)
  obtain w where 3: "run_poll (Some (ReadAIFunc ?u, 5000)) ?ms3 = Inr (?ms3\<lparr>ms_watch := w\<rparr>)"
    by (simp add: run_poll_def ai_call_def ReadAIFunc_call_spec)
  let ?ms4 = "?ms3\<lparr>ms_watch := w\<rparr>"
  have "buf \<noteq> []" using buf n(2) by auto
  then have 4: "NBDRead_reply buf n ?ms4 = Inr (?d, ?ms4\<lparr>ms_nbd_tx := []\<rparr>)"
    using TCPSocket_Recive_whole[of "sint n" buf ?d "[]"] buf len n(1)
    by (simp add: NBDRead_reply_def size_t_sint)
  let ?sys' = "\<lparr>sy_master = ?ms4\<lparr>ms_nbd_tx := []\<rparr>, sy_minions = ?mns\<rparr>"
  have "read_round h hm buf n off sys = Inr (?d, ?sys')"
    by (simp only: read_round_def 1 2 3 4 bindE_Inr prod.case system.simps)
  moreover have "idle ?sys'"
    using idle_after_read[OF sys, of "unat off" n ?u] m by (simp add: idle_def ms2_def)
  moreover have "cells ?sys' = cells sys" by (rule cells_after_read[OF sys])
  ultimately show ?thesis unfolding read_bytes_device[OF s n(2)] by blast
qed

end
