(* ===== verification/Device.thy ===== *)
theory Device
  imports System
begin

text \<open>
  The contract of the whole program: a block device is a function from offsets to bytes. Any
  sequence of requests, run through the system of \<open>System\<close> from its start, answers as that
  device would, and leaves every byte on two minions.
\<close>

subsection \<open>The abstract device\<close>

type_synonym device = "nat \<Rightarrow> byte"

datatype request = Read_req u64 u32 | Write_req u64 "byte list"

definition dev_write :: "nat \<Rightarrow> byte list \<Rightarrow> device \<Rightarrow> device" where
  "dev_write off d dev = (\<lambda>a. if off \<le> a \<and> a < off + length d then d ! (a - off) else dev a)"

definition dev_read :: "nat \<Rightarrow> nat \<Rightarrow> device \<Rightarrow> byte list" where
  "dev_read off n dev = map dev [off..<off + n]"

fun dev_run :: "request list \<Rightarrow> device \<Rightarrow> byte list list \<times> device" where
  "dev_run [] dev = ([], dev)"
| "dev_run (Read_req off n # rs) dev =
     (let (outs, dev') = dev_run rs dev in (dev_read (unat off) (unat n) dev # outs, dev'))"
| "dev_run (Write_req off d # rs) dev = dev_run rs (dev_write (unat off) d dev)"

subsection \<open>The system\<close>

text \<open>
  A request of the kernel: its length is 32 bits wide. A read passes the buffer \<open>serve_nbd\<close>
  allocated, whose content does not matter.
\<close>

fun sys_run :: "host \<Rightarrow> (nat \<Rightarrow> host) \<Rightarrow> request list \<Rightarrow> system \<Rightarrow> (byte list list \<times> system) result" where
  "sys_run h hm [] sys = Inr ([], sys)"
| "sys_run h hm (Read_req off n # rs) sys =
     bindE (read_round h hm (new_char (h_garbage h 4) (unat n)) n off sys) (\<lambda>(buf, sys).
     bindE (sys_run h hm rs sys) (\<lambda>(outs, sys). Inr (buf # outs, sys)))"
| "sys_run h hm (Write_req off d # rs) sys =
     bindE (write_round h hm d (of_nat (length d)) off sys) (\<lambda>(_, sys). sys_run h hm rs sys)"

text \<open>A request inside one stripe, long enough for the answer, short enough for a datagram.\<close>

fun fits :: "nat \<Rightarrow> request \<Rightarrow> bool" where
  "fits limit (Read_req off n) \<longleftrightarrow>
     raid.in_stripe (unat off) (unat n) \<and> 0 < unat n \<and> unat n \<le> limit"
| "fits limit (Write_req off d) \<longleftrightarrow>
     raid.in_stripe (unat off) (length d) \<and> 8 \<le> length d \<and> length d \<le> limit"

definition abs_device :: "system \<Rightarrow> device" where
  "abs_device sys = (\<lambda>a. if a < raid_capacity then raid.device (cells sys) a else 0)"

lemma hosts_ok_mono: "hosts_ok h hm n \<Longrightarrow> m \<le> n \<Longrightarrow> hosts_ok h hm m"
  by (auto simp: hosts_ok_def intro: order_trans[of _ "41 + n"])

lemma abs_device_write:
  assumes "raid.in_stripe off (length d)" and "cells sys' = raid.mirror_write (cells sys) off d"
  shows "abs_device sys' = dev_write off d (abs_device sys)"
  unfolding abs_device_def assms(2) dev_write_def
  by (rule ext) (use assms(1) raid.mirror_write_device[OF assms(1)] in \<open>auto simp: raid.in_stripe_def\<close>)

lemma abs_device_read:
  assumes "raid.in_stripe off n"
  shows "map (raid.device (cells sys)) [off..<off + n] = dev_read off n (abs_device sys)"
  using assms by (simp add: dev_read_def abs_device_def raid.in_stripe_def)

lemma write_step:
  assumes "idle sys" and ok: "hosts_ok h hm limit" and "limit < 2 ^ 31 - 41" and f: "fits limit (Write_req off d)"
  obtains r sys' where "write_round h hm d (of_nat (length d)) off sys = Inr (r, sys')" and "idle sys'"
    and "cells sys' = raid.mirror_write (cells sys) (unat off) d"
proof -
  from assms have l: "length d < 2 ^ 31 - 41" and len: "length d = unat (of_nat (length d) :: u32)"
    by (simp_all add: unat_of_nat)
  have n: "unat (of_nat (length d) :: u32) < 2 ^ 31 - 41" "8 \<le> unat (of_nat (length d) :: u32)"
    using l f len by simp_all
  have s: "raid.in_stripe (unat off) (unat (of_nat (length d) :: u32))"
    using f len by simp
  have "hosts_ok h hm (unat (of_nat (length d) :: u32))"
    using f len by (intro hosts_ok_mono[OF ok]) simp
  from write_round_correct[OF assms(1) this len n s] that show thesis by blast
qed

lemma read_step:
  assumes "idle sys" and ok: "hosts_ok h hm limit" and "limit < 2 ^ 31 - 41" and f: "fits limit (Read_req off n)"
    and "length buf = unat n"
  obtains sys' where
    "read_round h hm buf n off sys = Inr (dev_read (unat off) (unat n) (abs_device sys), sys')"
    and "idle sys'" and "cells sys' = cells sys"
proof -
  from f assms(3) have n: "unat n < 2 ^ 31 - 41" "0 < unat n" and s: "raid.in_stripe (unat off) (unat n)"
    by simp_all
  have "hosts_ok h hm (unat n)" using f by (intro hosts_ok_mono[OF ok]) simp
  from read_round_correct[OF assms(1) this assms(5) n s] that show thesis
    unfolding abs_device_read[OF s] by blast
qed

lemma sys_run_simulates:
  assumes "hosts_ok h hm limit" and "limit < 2 ^ 31 - 41"
  shows "idle sys \<Longrightarrow> raid.mirrored (cells sys) \<Longrightarrow> list_all (fits limit) rs \<Longrightarrow>
    \<exists>sys'. sys_run h hm rs sys = Inr (fst (dev_run rs (abs_device sys)), sys') \<and> idle sys' \<and>
      raid.mirrored (cells sys') \<and> abs_device sys' = snd (dev_run rs (abs_device sys))"
proof (induction rs arbitrary: sys)
  case Nil
  then show ?case by simp
next
  case (Cons r rs)
  show ?case
  proof (cases r)
    case (Read_req off n)
    obtain sys1 where
      1: "read_round h hm (new_char (h_garbage h 4) (unat n)) n off sys =
           Inr (dev_read (unat off) (unat n) (abs_device sys), sys1)"
         "idle sys1" "cells sys1 = cells sys"
      using read_step[OF Cons.prems(1) assms, of off n "new_char (h_garbage h 4) (unat n)"]
        Cons.prems(3) Read_req by auto
    then have "abs_device sys1 = abs_device sys" by (simp only: abs_device_def)
    with Cons.IH[OF 1(2)] Cons.prems 1(3) obtain sys' where
      "sys_run h hm rs sys1 = Inr (fst (dev_run rs (abs_device sys)), sys')" "idle sys'"
      "raid.mirrored (cells sys')" "abs_device sys' = snd (dev_run rs (abs_device sys))"
      by auto
    then show ?thesis by (simp add: Read_req 1(1) split_beta)
  next
    case (Write_req off d)
    obtain a sys1 where
      1: "write_round h hm d (of_nat (length d)) off sys = Inr (a, sys1)" "idle sys1"
         "cells sys1 = raid.mirror_write (cells sys) (unat off) d"
      using write_step[OF Cons.prems(1) assms, of off d] Cons.prems(3) Write_req by auto
    have s: "raid.in_stripe (unat off) (length d)" using Cons.prems(3) Write_req by simp
    have "raid.mirrored (cells sys1)"
      using raid.mirror_write_mirrored[OF Cons.prems(2) s] 1(3) by simp
    from Cons.IH[OF 1(2) this] Cons.prems(3) abs_device_write[OF s 1(3)] show ?thesis
      by (simp add: Write_req 1(1))
  qed
qed

subsection \<open>The start\<close>

definition start :: "(string \<rightharpoonup> byte list) \<Rightarrow> system" where
  "start fs = \<lparr>sy_master = master_init,
     sy_minions = map (\<lambda>proxy. MasterProxy fs (mp_port proxy)) Raid01_ctor\<rparr>"

lemma start_minion: "mn \<in> set (sy_minions (start fs)) \<Longrightarrow> \<exists>port. mn = MasterProxy fs port"
  by (auto simp: start_def)

lemma idle_start:
  assumes "\<forall>name bytes. fs name = Some bytes \<longrightarrow> length bytes < 2 ^ 63"
  shows "idle (start fs)"
proof -
  have "minion_wf mn \<and> mn_rx mn = [] \<and> mn_tx mn = []" if "mn \<in> set (sy_minions (start fs))" for mn
    using start_minion[OF that] minion_wf_MasterProxy[OF assms] by (auto simp: MasterProxy_def)
  then show ?thesis by (simp add: idle_def) (simp add: start_def master_init_def Raid01_ctor_def)
qed

lemma start_store_zero:
  assumes fs: "\<forall>name bytes. fs name = Some bytes \<longrightarrow> length bytes < 2 ^ 63" and "a < 8 * MB"
  shows "bf_data (mn_store (MasterProxy fs port)) a = 0"
proof -
  have wf: "minion_wf (MasterProxy fs port)" by (rule minion_wf_MasterProxy[OF fs])
  have init: "mn_is_init (MasterProxy fs port)" by (simp add: MasterProxy_def)
  have "mn_store (MasterProxy fs port) = snd (GetBinFile True (mn_file (MasterProxy fs port)))"
    using init by (simp add: mn_store_def)
  moreover have "bf_ok (mn_file (MasterProxy fs port))" "bf_pos (mn_file (MasterProxy fs port)) = 0"
    using wf init by (simp_all add: minion_wf_def)
  ultimately show ?thesis using GetBinFile_first assms(2) by simp
qed

lemma start_cells:
  assumes fs: "\<forall>name bytes. fs name = Some bytes \<longrightarrow> length bytes < 2 ^ 63" and "a < 8 * MB"
  shows "cells (start fs) (i, a) = 0"
proof (cases "i < 3")
  case True
  moreover have "length (sy_minions (start fs)) = 3" by (simp add: start_def Raid01_ctor_def)
  ultimately have "sy_minions (start fs) ! i \<in> set (sy_minions (start fs))" by simp
  from start_minion[OF this] True start_store_zero[OF assms] show ?thesis
    by (auto simp: cells_def)
qed (simp add: cells_def)

lemma placement_in_file:
  "off < raid_capacity \<Longrightarrow> snd (raid_primary off) < 8 * MB \<and> snd (raid_backup off) < 8 * MB"
  using mod_less_divisor[of MINION_SIZE off] unfolding raid_primary_def raid_backup_def
  by (simp add: size_consts)

lemma mirrored_start:
  assumes "\<forall>name bytes. fs name = Some bytes \<longrightarrow> length bytes < 2 ^ 63"
  shows "raid.mirrored (cells (start fs))" and "abs_device (start fs) = (\<lambda>_. 0)"
  using placement_in_file start_cells[OF assms]
  by (auto simp: raid.mirrored_def abs_device_def raid.device_def fun_eq_iff intro: prod.exhaust[of "raid_primary _"])
     (metis prod.collapse)+

subsection \<open>Properties\<close>

text \<open>
  C4: from the start of the master and its three minions, on any files, every sequence of
  reads and writes that stay inside a stripe is answered as a 12 MB device of zeros would
  answer it, none of the requests fails, and the system ends idle with every byte stored on
  two minions.
\<close>

theorem system_is_a_block_device:
  assumes "\<forall>name bytes. fs name = Some bytes \<longrightarrow> length bytes < 2 ^ 63"
    and "hosts_ok h hm limit" and "limit < 2 ^ 31 - 41" and "list_all (fits limit) rs"
  shows "\<exists>sys. sys_run h hm rs (start fs) = Inr (fst (dev_run rs (\<lambda>_. 0)), sys) \<and>
    idle sys \<and> raid.mirrored (cells sys) \<and> abs_device sys = snd (dev_run rs (\<lambda>_. 0))"
  using sys_run_simulates[OF assms(2,3) idle_start[OF assms(1)] mirrored_start(1)[OF assms(1)] assms(4)]
  by (simp only: mirrored_start(2)[OF assms(1)])

lemma hosts_ok_demo: "n \<le> 65466 \<Longrightarrow> hosts_ok demo_host (\<lambda>_. demo_host) n"
  by (simp add: hosts_ok_def)

theorem system_is_a_block_device_witness:
  "\<exists>sys. sys_run demo_host (\<lambda>_. demo_host)
      [Write_req 4096 [1, 2, 3, 4, 5, 6, 7, 8], Read_req 4100 3] (start Map.empty) = Inr ([[5, 6, 7]], sys) \<and>
    raid.mirrored (cells sys)"
proof -
  let ?rs = "[Write_req 4096 [1, 2, 3, 4, 5, 6, 7, 8], Read_req 4100 3]"
  have fs: "\<forall>name bytes. (Map.empty :: string \<rightharpoonup> byte list) name = Some bytes \<longrightarrow> length bytes < 2 ^ 63" by simp
  have f: "list_all (fits 4096) ?rs"
    by (simp add: raid.in_stripe_def) (simp add: raid_capacity_val MINION_SIZE_val)
  have out: "fst (dev_run ?rs (\<lambda>_. 0)) = [[5, 6, 7]]"
    by (simp add: dev_read_def dev_write_def upt_conv_Cons nth_Cons')
  show ?thesis
    using system_is_a_block_device[OF fs hosts_ok_demo[of 4096] _ f] unfolding out by auto
qed

text \<open>
  C5: after any such sequence the loss of any one minion loses no data: every byte of the
  device is also in the file of a minion other than the lost one, at the place the program
  computes for it.
\<close>

theorem one_minion_can_be_lost:
  assumes "\<forall>name bytes. fs name = Some bytes \<longrightarrow> length bytes < 2 ^ 63"
    and "hosts_ok h hm limit" and "limit < 2 ^ 31 - 41" and "list_all (fits limit) rs"
    and "a < raid_capacity"
  shows "\<exists>outs sys. sys_run h hm rs (start fs) = Inr (outs, sys) \<and>
    (\<exists>i < 3. i \<noteq> lost \<and> (\<exists>x < 8 * MB. bf_data (mn_store (sy_minions sys ! i)) x = snd (dev_run rs (\<lambda>_. 0)) a))"
proof -
  obtain sys where s: "sys_run h hm rs (start fs) = Inr (fst (dev_run rs (\<lambda>_. 0)), sys)"
    and m: "raid.mirrored (cells sys)" and d: "abs_device sys = snd (dev_run rs (\<lambda>_. 0))"
    using sys_run_simulates[OF assms(2,3) idle_start[OF assms(1)] mirrored_start(1)[OF assms(1)] assms(4)]
    by (auto simp only: mirrored_start(2)[OF assms(1)])
  let ?at = "\<lambda>c. bf_data (mn_store (sy_minions sys ! fst c)) (snd c)"
  note nodes = placement_nodes[OF assms(5)]
  have p: "?at (raid_primary a) = snd (dev_run rs (\<lambda>_. 0)) a"
    using nodes assms(5) by (simp add: d[symmetric] abs_device_def raid.device_def cells_def split_beta)
  moreover have "?at (raid_backup a) = ?at (raid_primary a)"
    using m[unfolded raid.mirrored_def, rule_format, OF assms(5)] nodes by (simp add: cells_def split_beta)
  ultimately have b: "?at (raid_backup a) = snd (dev_run rs (\<lambda>_. 0)) a" by simp
  have "\<exists>i < 3. i \<noteq> lost \<and> (\<exists>x < 8 * MB. bf_data (mn_store (sy_minions sys ! i)) x = snd (dev_run rs (\<lambda>_. 0)) a)"
  proof (cases "lost = fst (raid_primary a)")
    case True
    then show ?thesis
      using nodes b placement_in_file[OF assms(5)]
      by (intro exI[of _ "fst (raid_backup a)"]) auto
  next
    case False
    then show ?thesis
      using nodes p placement_in_file[OF assms(5)]
      by (intro exI[of _ "fst (raid_primary a)"]) auto
  qed
  with s show ?thesis by blast
qed

theorem one_minion_can_be_lost_witness:
  "\<exists>outs sys. sys_run demo_host (\<lambda>_. demo_host) [Write_req 4096 [1, 2, 3, 4, 5, 6, 7, 8]] (start Map.empty) = Inr (outs, sys) \<and>
    (\<exists>i < 3. i \<noteq> 0 \<and> (\<exists>x < 8 * MB. bf_data (mn_store (sy_minions sys ! i)) x = 5))"
proof -
  let ?rs = "[Write_req 4096 [1, 2, 3, 4, 5, 6, 7, 8]]"
  have fs: "\<forall>name bytes. (Map.empty :: string \<rightharpoonup> byte list) name = Some bytes \<longrightarrow> length bytes < 2 ^ 63" by simp
  have f: "list_all (fits 4096) ?rs"
    by (simp add: raid.in_stripe_def) (simp add: raid_capacity_val MINION_SIZE_val)
  have out: "snd (dev_run ?rs (\<lambda>_. 0)) 4100 = 5"
    by (simp add: dev_write_def nth_Cons')
  show ?thesis
    using one_minion_can_be_lost[OF fs hosts_ok_demo[of 4096] _ f, of 4100 0] unfolding out
    by (simp add: raid_capacity_val)
qed

end
