(* ===== verification/Buse.thy ===== *)
theory Buse
  imports Prelude
begin

text \<open>
  The server side of the kernel's NBD protocol (\<open>src/buse.cpp\<close>, \<open>include/buse.hpp\<close>) and the
  protocol's constants and packets (\<open>include/my_nbd.hpp\<close>): \<open>ntohll\<close>, \<open>read_all\<close>, \<open>write_all\<close> and
  \<open>serve_nbd\<close>. \<open>buse_main\<close>, which opens the device and forks the process that hands the
  socket to the kernel, is in \<open>Buse_Main\<close>.
\<close>

subsection \<open>Byte order\<close>

definition ntohl :: "u32 \<Rightarrow> u32" where
  "ntohl w = le_word (rev (le_bytes 4 w))"

definition ntohll :: "u64 \<Rightarrow> u64" where
  "ntohll a =
     (let lo = ucast (a AND 0xffffffff) :: u32;
          hi = ucast (drop_bit 32 a) :: u32;
          lo = ntohl lo;
          hi = ntohl hi
      in push_bit 32 (ucast lo) OR ucast hi)"

subsection \<open>Packets\<close>

definition NBD_CMD_READ :: u32 where "NBD_CMD_READ = 0"
definition NBD_CMD_WRITE :: u32 where "NBD_CMD_WRITE = 1"
definition NBD_CMD_DISC :: u32 where "NBD_CMD_DISC = 2"
definition NBD_CMD_FLUSH :: u32 where "NBD_CMD_FLUSH = 3"
definition NBD_CMD_TRIM :: u32 where "NBD_CMD_TRIM = 4"
definition NBD_REQUEST_MAGIC :: u32 where "NBD_REQUEST_MAGIC = 0x25609513"
definition NBD_REPLY_MAGIC :: u32 where "NBD_REPLY_MAGIC = 0x67446698"
definition EPERM :: u32 where "EPERM = 1"

lemmas nbd_consts = NBD_CMD_READ_def NBD_CMD_WRITE_def NBD_CMD_DISC_def NBD_CMD_FLUSH_def NBD_CMD_TRIM_def

text \<open>The fields as the host reads them from memory, before \<open>ntohl\<close> and \<open>ntohll\<close>.\<close>

record nbd_request =
  rq_magic :: u32
  rq_type :: u32
  rq_handle :: "byte list"
  rq_from :: u64
  rq_len :: u32

record nbd_reply =
  rp_magic :: u32
  rp_error :: u32
  rp_handle :: "byte list"

text \<open>The layout: a request is packed, 28 bytes; a reply has 16.\<close>

definition sizeof_request :: nat where "sizeof_request = 28"

definition request_at :: "byte list \<Rightarrow> nbd_request" where
  "request_at bs = \<lparr>rq_magic = le_word (take 4 bs), rq_type = le_word (take 4 (drop 4 bs)),
     rq_handle = take 8 (drop 8 bs), rq_from = le_word (take 8 (drop 16 bs)),
     rq_len = le_word (take 4 (drop 24 bs))\<rparr>"

definition reply_bytes :: "nbd_reply \<Rightarrow> byte list" where
  "reply_bytes r = le_bytes 4 (rp_magic r) @ le_bytes 4 (rp_error r) @ rp_handle r"

subsection \<open>The socket\<close>

text \<open>
  What is still to come from the peer is a byte list, and the end of it is the end of the
  stream. A call of \<open>read\<close> or \<open>write\<close> may transfer less than it is asked for or fail; the
  list of \<open>io\<close> outcomes says what each call does, in the order of the calls: \<open>Part k\<close> transfers
  at most \<open>k + 1\<close> bytes. When it is used up calls transfer all they can. No call transfers
  more than Linux's limit.
\<close>

datatype io = Part nat | Fail

definition MAX_RW_COUNT :: nat where "MAX_RW_COUNT = 0x7ffff000"

fun transfer :: "io list \<Rightarrow> nat \<Rightarrow> nat option \<times> io list" where
  "transfer [] n = (Some (min n MAX_RW_COUNT), [])"
| "transfer (Part k # ios) n = (Some (min n (min (Suc k) MAX_RW_COUNT)), ios)"
| "transfer (Fail # ios) n = (None, ios)"

definition sys_read :: "io list \<Rightarrow> byte list \<Rightarrow> nat \<Rightarrow> int \<times> byte list \<times> byte list \<times> io list" where
  "sys_read ios rx count =
     (case transfer ios (min count (length rx)) of
        (Some n, ios) \<Rightarrow> (int n, take n rx, drop n rx, ios)
      | (None, ios) \<Rightarrow> (-1, [], rx, ios))"

definition sys_write :: "io list \<Rightarrow> byte list \<Rightarrow> int \<times> byte list \<times> io list" where
  "sys_write ios buf =
     (case transfer ios (length buf) of
        (Some n, ios) \<Rightarrow> (int n, take n buf, ios)
      | (None, ios) \<Rightarrow> (-1, [], ios))"

lemma transfer_le: "transfer ios n = (Some m, ios') \<Longrightarrow> m \<le> n"
  by (cases "(ios, n)" rule: transfer.cases) auto

lemma transfer_pos: "transfer ios n = (Some m, ios') \<Longrightarrow> 0 < n \<Longrightarrow> 0 < m"
  by (cases "(ios, n)" rule: transfer.cases) (auto simp: MAX_RW_COUNT_def)

subsection \<open>read_all and write_all\<close>

text \<open>The bytes put into the caller's buffer, and the socket afterwards.\<close>

function read_all :: "io list \<Rightarrow> byte list \<Rightarrow> nat \<Rightarrow> (byte list \<times> byte list \<times> io list) result" where
  "read_all ios rx count =
     (if count > 0 then
        let (bytes_read, d, rx, ios) = sys_read ios rx count
        in if bytes_read > 0
           then bindE (read_all ios rx (count - nat bytes_read)) (\<lambda>(ds, rx, ios). Inr (d @ ds, rx, ios))
           else Inl Aborted
      else Inr ([], rx, ios))"
  by pat_completeness auto
termination by (relation "measure (\<lambda>(_, _, n). n)") auto

function write_all :: "io list \<Rightarrow> byte list \<Rightarrow> byte list \<Rightarrow> (byte list \<times> io list) result" where
  "write_all ios tx buf =
     (if length buf > 0 then
        let (bytes_written, d, ios) = sys_write ios buf
        in if bytes_written > 0
           then write_all ios (tx @ d) (drop (nat bytes_written) buf)
           else Inl Aborted
      else Inr (tx, ios))"
  by pat_completeness auto
termination by (relation "measure (\<lambda>(_, _, buf). length buf)") auto

declare read_all.simps [simp del] write_all.simps [simp del]

text \<open>However the stream is cut into pieces, \<open>read_all\<close> gets the next \<open>count\<close> bytes of it.\<close>

lemma read_all_gets:
  assumes "Fail \<notin> set ios" and "count \<le> length rx"
  shows "\<exists>ios'. read_all ios rx count = Inr (take count rx, drop count rx, ios') \<and> set ios' \<subseteq> set ios"
  using assms
proof (induction ios rx count rule: read_all.induct)
  case (1 ios rx count)
  show ?case
  proof (cases "count > 0")
    case False
    then show ?thesis by (subst read_all.simps) auto
  next
    case True
    obtain n ios1 where t: "transfer ios (min count (length rx)) = (Some n, ios1)" and s: "set ios1 \<subseteq> set ios"
      using 1(2) by (cases "(ios, min count (length rx))" rule: transfer.cases) auto
    have n: "0 < n" "n \<le> count" using transfer_pos[OF t] transfer_le[OF t] True 1(3) by auto
    have r: "sys_read ios rx count = (int n, take n rx, drop n rx, ios1)" by (simp add: sys_read_def t)
    have f: "Fail \<notin> set ios1" "count - n \<le> length rx - n" using s 1(2,3) by auto
    obtain ios2 where "read_all ios1 (drop n rx) (count - n) = Inr (take (count - n) (drop n rx), drop (count - n) (drop n rx), ios2)"
      "set ios2 \<subseteq> set ios1"
      using 1(1)[OF True r[symmetric] refl refl refl] f n by auto
    moreover have "take count rx = take n rx @ take (count - n) (drop n rx)"
      using n(2) take_add[of n "count - n" rx] by simp
    ultimately show ?thesis using s n True by (subst read_all.simps) (auto simp: r)
  qed
qed

lemma read_all_shorter: "read_all ios rx count = Inr (d, rx', ios') \<Longrightarrow> length rx' \<le> length rx"
proof (induction ios rx count arbitrary: d rx' ios' rule: read_all.induct)
  case (1 ios rx count)
  obtain r e rx1 ios1 where s: "sys_read ios rx count = (r, e, rx1, ios1)" by (metis prod_cases4)
  then have "length rx1 \<le> length rx" by (auto simp: sys_read_def split: prod.splits option.splits)
  moreover have "read_all ios1 rx1 (count - nat r) = Inr (d', rx', ios') \<Longrightarrow> length rx' \<le> length rx1" if "count > 0" "r > 0" for d'
    using 1(1)[OF that(1) s[symmetric] refl refl refl that(2)] by blast
  ultimately show ?case using 1(2)
    by (subst (asm) read_all.simps) (fastforce simp: s bindE_eq_Inr_iff split: if_splits)
qed

lemma write_all_puts:
  assumes "Fail \<notin> set ios"
  shows "\<exists>ios'. write_all ios tx buf = Inr (tx @ buf, ios') \<and> set ios' \<subseteq> set ios"
  using assms
proof (induction ios tx buf rule: write_all.induct)
  case (1 ios tx buf)
  show ?case
  proof (cases "length buf > 0")
    case False
    then show ?thesis by (subst write_all.simps) auto
  next
    case True
    obtain n ios1 where t: "transfer ios (length buf) = (Some n, ios1)" and s: "set ios1 \<subseteq> set ios"
      using 1(2) by (cases "(ios, length buf)" rule: transfer.cases) auto
    have n: "0 < n" using transfer_pos[OF t] True by auto
    have r: "sys_write ios buf = (int n, take n buf, ios1)" by (simp add: sys_write_def t)
    obtain ios2 where "write_all ios1 (tx @ take n buf) (drop n buf) = Inr ((tx @ take n buf) @ drop n buf, ios2)"
      "set ios2 \<subseteq> set ios1"
      using 1(1)[OF True r[symmetric] refl refl] s 1(2) n by auto
    with s n True show ?thesis by (subst write_all.simps) (auto simp: r)
  qed
qed

subsection \<open>serve\_nbd\<close>

text \<open>
  The operations of the device. A null function pointer is \<open>None\<close>. A read is given the chunk
  and returns it filled; an \<open>int\<close> result is stored into the error field as it is.
\<close>

record 's buse_operations =
  aop_read :: "(byte list \<Rightarrow> u32 \<Rightarrow> u64 \<Rightarrow> 's \<Rightarrow> (u32 \<times> byte list \<times> 's) result) option"
  aop_write :: "(byte list \<Rightarrow> u32 \<Rightarrow> u64 \<Rightarrow> 's \<Rightarrow> (u32 \<times> 's) result) option"
  aop_disc :: "('s \<Rightarrow> 's) option"
  aop_flush :: "('s \<Rightarrow> u32 \<times> 's) option"
  aop_trim :: "(u64 \<Rightarrow> u32 \<Rightarrow> 's \<Rightarrow> u32 \<times> 's) option"
  aop_size :: u64
  aop_blksize :: u32
  aop_size_blocks :: u64

text \<open>
  The body of the loop for one request: the \<open>switch\<close>. The first component of the result says
  whether the loop goes on. \<open>malloc\<close> succeeds with indeterminate content.
\<close>

definition serve_request ::
    "(nat \<Rightarrow> byte) \<Rightarrow> 's buse_operations \<Rightarrow> nbd_request \<Rightarrow> io list \<Rightarrow> byte list \<Rightarrow> byte list \<Rightarrow> 's \<Rightarrow>
      (bool \<times> io list \<times> byte list \<times> byte list \<times> 's) result" where
  "serve_request garbage aop request ios rx tx s =
     (let reply = \<lparr>rp_magic = ntohl NBD_REPLY_MAGIC, rp_error = ntohl 0, rp_handle = rq_handle request\<rparr>;
          len = ntohl (rq_len request);
          from = ntohll (rq_from request);
          type = ntohl (rq_type request)
      in if rq_magic request \<noteq> ntohl NBD_REQUEST_MAGIC then Inl Aborted
         else if type = NBD_CMD_READ then
           let chunk = new_char garbage (unat len)
           in bindE (case aop_read aop of
                       Some f \<Rightarrow> f chunk len from s
                     | None \<Rightarrow> Inr (ntohl EPERM, chunk, s)) (\<lambda>(err, chunk, s).
              bindE (write_all ios tx (reply_bytes (reply\<lparr>rp_error := err\<rparr>))) (\<lambda>(tx, ios).
              bindE (load chunk 0 (unat len)) (\<lambda>chunk.
              bindE (write_all ios tx chunk) (\<lambda>(tx, ios). Inr (True, ios, rx, tx, s)))))
         else if type = NBD_CMD_WRITE then
           bindE (read_all ios rx (unat len)) (\<lambda>(chunk, rx, ios).
           bindE (case aop_write aop of
                    Some f \<Rightarrow> f chunk len from s
                  | None \<Rightarrow> Inr (ntohl EPERM, s)) (\<lambda>(err, s).
           bindE (write_all ios tx (reply_bytes (reply\<lparr>rp_error := err\<rparr>))) (\<lambda>(tx, ios).
             Inr (True, ios, rx, tx, s))))
         else if type = NBD_CMD_DISC then
           Inr (False, ios, rx, tx, case aop_disc aop of Some f \<Rightarrow> f s | None \<Rightarrow> s)
         else if type = NBD_CMD_FLUSH then
           let (err, s) = (case aop_flush aop of Some f \<Rightarrow> f s | None \<Rightarrow> (rp_error reply, s))
           in bindE (write_all ios tx (reply_bytes (reply\<lparr>rp_error := err\<rparr>))) (\<lambda>(tx, ios).
                Inr (True, ios, rx, tx, s))
         else if type = NBD_CMD_TRIM then
           let (err, s) = (case aop_trim aop of Some f \<Rightarrow> f from len s | None \<Rightarrow> (rp_error reply, s))
           in bindE (write_all ios tx (reply_bytes (reply\<lparr>rp_error := err\<rparr>))) (\<lambda>(tx, ios).
                Inr (True, ios, rx, tx, s))
         else Inl Aborted)"

lemma serve_request_shorter:
  assumes "serve_request g aop r ios rx tx s = Inr (c, ios', rx', tx', s')"
  shows "length rx' \<le> length rx"
  using assms read_all_shorter
  by (fastforce simp: serve_request_def Let_def bindE_eq_Inr_iff split: if_splits prod.splits)

lemma sys_read_shorter: "sys_read ios rx n = (r, d, rx', ios') \<Longrightarrow> 0 < r \<Longrightarrow> length rx' < length rx"
  by (auto simp: sys_read_def dest!: transfer_le split: prod.splits option.splits)

text \<open>The loop: \<open>EXIT_SUCCESS\<close> is 0, \<open>EXIT_FAILURE\<close> is 1.\<close>

function serve_nbd ::
    "(nat \<Rightarrow> byte) \<Rightarrow> 's buse_operations \<Rightarrow> io list \<Rightarrow> byte list \<Rightarrow> byte list \<Rightarrow> 's \<Rightarrow> (int \<times> byte list \<times> 's) result" where
  "serve_nbd garbage aop ios rx tx s =
     (case sys_read ios rx sizeof_request of
        (bytes_read, request, rx1, ios) \<Rightarrow>
          if bytes_read > 0 then
            if bytes_read = int sizeof_request then
              bindE (serve_request garbage aop (request_at request) ios rx1 tx s)
                (\<lambda>(go_on, ios, rx2, tx, s).
                   if go_on then serve_nbd garbage aop ios rx2 tx s
                   else Inr (0, tx, s))
            else Inl Aborted
          else if bytes_read = -1 then Inr (1, tx, s)
          else Inr (0, tx, s))"
  by pat_completeness auto
termination
proof (relation "measure (\<lambda>(_, _, _, rx, _, _). length rx)", goal_cases)
  case (2 garbage aop ios rx tx s r y req z rx1 ios1 res go_on v ios2 w rx2 x tx2 s2)
  then show ?case
    using sys_read_shorter[of ios rx sizeof_request r req rx1 ios1]
      serve_request_shorter[of garbage aop "request_at req" ios1 rx1 tx s go_on ios2 rx2 tx2 s2] by auto
qed simp

declare serve_nbd.simps [simp del]

subsection \<open>Byte order is an involution\<close>

lemma le_bytes_ntohl: "le_bytes 4 (ntohl w) = rev (le_bytes 4 w)"
  using le_bytes_le_word[of "rev (le_bytes 4 w)", where 'a = 32] by (simp add: ntohl_def)

lemma ntohl_ntohl [simp]: "ntohl (ntohl w) = w"
  by (simp add: ntohl_def[of "ntohl w"] le_bytes_ntohl)

lemma ntohl_eq_iff [simp]: "ntohl v = ntohl w \<longleftrightarrow> v = w"
  by (metis ntohl_ntohl)

lemma le_bytes_8: "le_bytes 8 (a :: u64) = le_bytes 4 (ucast a :: u32) @ le_bytes 4 (ucast (drop_bit 32 a) :: u32)"
proof (rule nth_equalityI)
  fix i assume "i < length (le_bytes 8 a)"
  then show "le_bytes 8 a ! i = (le_bytes 4 (ucast a :: u32) @ le_bytes 4 (ucast (drop_bit 32 a) :: u32)) ! i"
    by (auto simp: le_bytes_def nth_append intro!: bit_word_eqI)
      (auto simp: bit_ucast_iff bit_drop_bit_eq algebra_simps)
qed simp

lemma le_bytes_join:
  "le_bytes 8 (push_bit 32 (ucast lo) OR ucast hi :: u64) = le_bytes 4 (hi :: u32) @ le_bytes 4 (lo :: u32)"
proof -
  have "ucast (push_bit 32 (ucast lo) OR ucast hi :: u64) = hi"
    by (rule bit_word_eqI) (auto simp: bit_ucast_iff bit_or_iff bit_push_bit_iff)
  moreover have "ucast (drop_bit 32 (push_bit 32 (ucast lo) OR ucast hi :: u64)) = lo"
    by (rule bit_word_eqI) (auto simp: bit_ucast_iff bit_or_iff bit_push_bit_iff bit_drop_bit_eq dest: bit_imp_le_length)
  ultimately show ?thesis by (simp add: le_bytes_8)
qed

lemma low_word: "ucast (a AND 0xffffffff :: u64) = (ucast a :: u32)"
proof -
  have m: "(0xffffffff :: u64) = mask 32" by (simp add: mask_eq_exp_minus_1)
  show ?thesis unfolding m
    by (intro bit_word_eqI) (auto simp: bit_ucast_iff bit_and_iff bit_mask_iff)
qed

lemma le_bytes_ntohll: "le_bytes 8 (ntohll a) = rev (le_bytes 8 a)"
  by (simp add: ntohll_def Let_def le_bytes_join le_bytes_ntohl low_word) (simp add: le_bytes_8[of a])

lemma ntohll_ntohll [simp]: "ntohll (ntohll a) = a"
  by (metis le_bytes_ntohll le_word_bytes64 rev_rev_ident)

text \<open>
  \<open>ntohll\<close> reverses the eight bytes of its argument; it is its own inverse, so it can
  also serve as \<open>htonll\<close>, as the macro of that name has it.
\<close>
lemma ntohll_reverses:
  "le_bytes 8 (ntohll a) = rev (le_bytes 8 a) \<and> ntohll (ntohll a) = a"
  by (simp add: le_bytes_ntohll)

text \<open>
  However \<open>read\<close> and \<open>write\<close> cut a transfer into pieces, as long as none fails and the peer
  sends enough, \<open>read_all\<close> delivers exactly the next \<open>count\<close> bytes and leaves the rest, and
  \<open>write_all\<close> appends exactly the buffer.
\<close>
theorem transfers_are_whole:
  assumes "Fail \<notin> set ios" and "count \<le> length rx"
  shows "(\<exists>ios'. read_all ios rx count = Inr (take count rx, drop count rx, ios')) \<and>
    (\<exists>ios'. write_all ios tx buf = Inr (tx @ buf, ios'))"
  using read_all_gets[OF assms] write_all_puts[OF assms(1)] by blast

theorem transfers_are_whole_witness:
  "(\<exists>ios'. read_all [Part 1, Part 0] [1, 2, 3, 4, 5, 6] 5 = Inr ([1, 2, 3, 4, 5], [6], ios')) \<and>
    (\<exists>ios'. write_all [Part 1, Part 0] [9] [1, 2, 3, 4, 5] = Inr ([9, 1, 2, 3, 4, 5], ios'))"
  using transfers_are_whole[of "[Part 1, Part 0]" 5 "[1, 2, 3, 4, 5, 6]" "[9]" "[1, 2, 3, 4, 5]"] by simp

end
