(* ===== verification/Nbd_Server.thy ===== *)
theory Nbd_Server
  imports Device Buse
begin

text \<open>
  The \<open>NBD\<close> class (\<open>include/raz_nbd.hpp\<close>, \<open>src/raz_nbd.cpp\<close>) as the device that \<open>serve_nbd\<close>
  serves: the table of operations, the parsing of the device's size, and the contract from the
  kernel's side of the socket: a stream of request packets is answered by the stream of reply
  packets of a block device.
\<close>

subsection \<open>The kernel's requests\<close>

text \<open>A command with the opaque handle that its reply has to carry.\<close>

datatype kernel_cmd = K_read u64 u32 | K_write u64 "byte list" | K_flush | K_trim u64 u32

definition request_bytes :: "u32 \<Rightarrow> byte list \<Rightarrow> u64 \<Rightarrow> u32 \<Rightarrow> byte list" where
  "request_bytes type handle from len =
     rev (le_bytes 4 NBD_REQUEST_MAGIC) @ rev (le_bytes 4 type) @ handle @ rev (le_bytes 8 from) @ rev (le_bytes 4 len)"

fun request_stream :: "(byte list \<times> kernel_cmd) list \<Rightarrow> byte list" where
  "request_stream [] = []"
| "request_stream ((handle, K_read off n) # cs) = request_bytes NBD_CMD_READ handle off n @ request_stream cs"
| "request_stream ((handle, K_write off d) # cs) =
     request_bytes NBD_CMD_WRITE handle off (of_nat (length d)) @ d @ request_stream cs"
| "request_stream ((handle, K_flush) # cs) = request_bytes NBD_CMD_FLUSH handle 0 0 @ request_stream cs"
| "request_stream ((handle, K_trim off n) # cs) = request_bytes NBD_CMD_TRIM handle off n @ request_stream cs"

definition ok_reply :: "byte list \<Rightarrow> byte list" where
  "ok_reply handle = rev (le_bytes 4 NBD_REPLY_MAGIC) @ [0, 0, 0, 0] @ handle"

text \<open>The replies of an abstract device; trimming changes nothing.\<close>

fun dev_serve :: "(byte list \<times> kernel_cmd) list \<Rightarrow> device \<Rightarrow> byte list \<times> device" where
  "dev_serve [] dev = ([], dev)"
| "dev_serve ((handle, K_read off n) # cs) dev =
     (let (out, dev') = dev_serve cs dev in (ok_reply handle @ dev_read (unat off) (unat n) dev @ out, dev'))"
| "dev_serve ((handle, K_write off d) # cs) dev =
     (let (out, dev') = dev_serve cs (dev_write (unat off) d dev) in (ok_reply handle @ out, dev'))"
| "dev_serve ((handle, K_flush) # cs) dev =
     (let (out, dev') = dev_serve cs dev in (ok_reply handle @ out, dev'))"
| "dev_serve ((handle, K_trim off n) # cs) dev =
     (let (out, dev') = dev_serve cs dev in (ok_reply handle @ out, dev'))"

fun cmd_ok :: "(request \<Rightarrow> bool) \<Rightarrow> byte list \<times> kernel_cmd \<Rightarrow> bool" where
  "cmd_ok ok (handle, K_read off n) \<longleftrightarrow> length handle = 8 \<and> ok (Read_req off n)"
| "cmd_ok ok (handle, K_write off d) \<longleftrightarrow> length handle = 8 \<and> length d < 2 ^ 32 \<and> ok (Write_req off d)"
| "cmd_ok ok (handle, _) \<longleftrightarrow> length handle = 8"

lemma length_request_bytes [simp]: "length h = 8 \<Longrightarrow> length (request_bytes t h f n) = sizeof_request"
  by (simp add: request_bytes_def sizeof_request_def)

lemma request_at_bytes:
  assumes "length h = 8"
  shows "request_at (request_bytes t h f n) =
    \<lparr>rq_magic = ntohl NBD_REQUEST_MAGIC, rq_type = ntohl t, rq_handle = h, rq_from = ntohll f, rq_len = ntohl n\<rparr>"
proof -
  have "le_word (rev (le_bytes 8 f)) = ntohll f" by (metis le_bytes_ntohll le_word_bytes64)
  then show ?thesis using assms by (simp add: request_at_def request_bytes_def ntohl_def)
qed

lemma ok_reply_bytes:
  "reply_bytes \<lparr>rp_magic = ntohl NBD_REPLY_MAGIC, rp_error = 0, rp_handle = h\<rparr> = ok_reply h"
  by (simp add: reply_bytes_def ok_reply_def le_bytes_ntohl) (simp add: le_bytes_def upt_conv_Cons)

lemma ntohl_0 [simp]: "ntohl 0 = 0"
  by (simp add: ntohl_def le_bytes_def upt_conv_Cons)

text \<open>The reads of the headers must not be cut: \<open>serve_nbd\<close> does not collect the pieces of a header.\<close>

definition whole_headers :: "io list \<Rightarrow> bool" where
  "whole_headers ios \<longleftrightarrow> (\<forall>x \<in> set ios. case x of Part k \<Rightarrow> sizeof_request \<le> Suc k | Fail \<Rightarrow> False)"

lemma whole_no_fail: "whole_headers ios \<Longrightarrow> Fail \<notin> set ios"
  by (auto simp: whole_headers_def)

lemma whole_subset: "whole_headers ios \<Longrightarrow> set ios' \<subseteq> set ios \<Longrightarrow> whole_headers ios'"
  by (auto simp: whole_headers_def)

lemma header_read:
  assumes "whole_headers ios" "length hdr = sizeof_request"
  shows "\<exists>ios'. sys_read ios (hdr @ rest) sizeof_request = (int sizeof_request, hdr, rest, ios') \<and> whole_headers ios'"
proof -
  have "\<exists>ios'. transfer ios sizeof_request = (Some sizeof_request, ios') \<and> whole_headers ios'"
    using assms(1) by (cases "(ios, sizeof_request)" rule: transfer.cases)
      (auto simp: whole_headers_def MAX_RW_COUNT_def sizeof_request_def)
  then show ?thesis using assms(2) by (auto simp: sys_read_def)
qed

subsection \<open>What \<open>serve_nbd\<close> needs of the operations, and what it makes of them\<close>

locale block_operations =
  fixes aop :: "'s buse_operations"
    and inv :: "'s \<Rightarrow> bool"
    and abs :: "'s \<Rightarrow> device"
    and ok :: "request \<Rightarrow> bool"
  assumes reads: "inv s \<Longrightarrow> ok (Read_req off n) \<Longrightarrow> length chunk = unat n \<Longrightarrow>
      \<exists>f s'. aop_read aop = Some f \<and> f chunk n off s = Inr (0, dev_read (unat off) (unat n) (abs s), s') \<and>
        inv s' \<and> abs s' = abs s"
    and writes: "inv s \<Longrightarrow> ok (Write_req off d) \<Longrightarrow> length d < 2 ^ 32 \<Longrightarrow>
      \<exists>f s'. aop_write aop = Some f \<and> f d (of_nat (length d)) off s = Inr (0, s') \<and>
        inv s' \<and> abs s' = dev_write (unat off) d (abs s)"
    and flushes: "inv s \<Longrightarrow> \<exists>f. aop_flush aop = Some f \<and> f s = (0, s)"
    and trims: "inv s \<Longrightarrow> \<exists>f. aop_trim aop = Some f \<and> f off n s = (0, s)"
begin

lemma serve_head:
  assumes "whole_headers ios" "length h = 8"
    and "\<And>ios1. whole_headers ios1 \<Longrightarrow> \<exists>ios2. whole_headers ios2 \<and>
      serve_request g aop (request_at (request_bytes t h f n)) ios1 (body @ rest) tx s = Inr (True, ios2, rest, tx @ out, s')"
  shows "\<exists>ios2. whole_headers ios2 \<and>
    serve_nbd g aop ios (request_bytes t h f n @ body @ rest) tx s = serve_nbd g aop ios2 rest (tx @ out) s'"
proof -
  obtain ios1 where r: "sys_read ios (request_bytes t h f n @ body @ rest) sizeof_request =
      (int sizeof_request, request_bytes t h f n, body @ rest, ios1)" and w: "whole_headers ios1"
    using header_read[OF assms(1), of "request_bytes t h f n"] assms(2) by auto
  from assms(3)[OF w] obtain ios2 where "whole_headers ios2"
    "serve_request g aop (request_at (request_bytes t h f n)) ios1 (body @ rest) tx s = Inr (True, ios2, rest, tx @ out, s')"
    by blast
  moreover have "0 < int sizeof_request" by (simp add: sizeof_request_def)
  ultimately show ?thesis by (subst serve_nbd.simps) (auto simp: r)
qed

lemma reply_written:
  assumes "whole_headers ios"
  shows "\<exists>ios'. write_all ios tx (reply_bytes \<lparr>rp_magic = ntohl NBD_REPLY_MAGIC, rp_error = 0, rp_handle = h\<rparr>) =
    Inr (tx @ ok_reply h, ios') \<and> whole_headers ios'"
  using write_all_puts[OF whole_no_fail[OF assms], of tx "ok_reply h"] whole_subset[OF assms]
  by (auto simp: ok_reply_bytes)

lemma answer_read:
  assumes "inv s" "ok (Read_req off n)" "length h = 8" "whole_headers ios"
  shows "\<exists>ios' s'. whole_headers ios' \<and> inv s' \<and> abs s' = abs s \<and>
    serve_nbd g aop ios (request_bytes NBD_CMD_READ h off n @ rest) tx s =
      serve_nbd g aop ios' rest (tx @ ok_reply h @ dev_read (unat off) (unat n) (abs s)) s'"
proof -
  let ?d = "dev_read (unat off) (unat n) (abs s)"
  obtain f s' where f: "aop_read aop = Some f" "f (new_char g (unat n)) n off s = Inr (0, ?d, s')" "inv s'" "abs s' = abs s"
    using reads[OF assms(1,2), of "new_char g (unat n)"] by auto
  have "\<exists>ios2. whole_headers ios2 \<and>
      serve_request g aop (request_at (request_bytes NBD_CMD_READ h off n)) ios1 ([] @ rest) tx s =
      Inr (True, ios2, rest, tx @ (ok_reply h @ ?d), s')" if w1: "whole_headers ios1" for ios1
  proof -
    obtain ios2 where w2: "write_all ios1 tx (reply_bytes \<lparr>rp_magic = ntohl NBD_REPLY_MAGIC, rp_error = 0, rp_handle = h\<rparr>) =
        Inr (tx @ ok_reply h, ios2)" "whole_headers ios2" using reply_written[OF w1] by blast
    obtain ios3 where w3: "write_all ios2 (tx @ ok_reply h) ?d = Inr (tx @ ok_reply h @ ?d, ios3)" "whole_headers ios3"
      using write_all_puts[OF whole_no_fail[OF w2(2)], of "tx @ ok_reply h" ?d] whole_subset[OF w2(2)] by auto
    show ?thesis using f w2 w3 by (simp add: serve_request_def request_at_bytes[OF assms(3)] nbd_consts Let_def dev_read_def)
  qed
  from serve_head[OF assms(4,3), of g NBD_CMD_READ off n "[]" rest tx s "ok_reply h @ ?d" s'] this f(3,4)
  show ?thesis by auto
qed

lemma answer_write:
  assumes "inv s" "ok (Write_req off d)" "length d < 2 ^ 32" "length h = 8" "whole_headers ios"
  shows "\<exists>ios' s'. whole_headers ios' \<and> inv s' \<and> abs s' = dev_write (unat off) d (abs s) \<and>
    serve_nbd g aop ios (request_bytes NBD_CMD_WRITE h off (of_nat (length d)) @ d @ rest) tx s =
      serve_nbd g aop ios' rest (tx @ ok_reply h) s'"
proof -
  have n: "unat (of_nat (length d) :: u32) = length d" using assms(3) by (simp add: unat_of_nat)
  obtain f s' where f: "aop_write aop = Some f" "f d (of_nat (length d)) off s = Inr (0, s')" "inv s'"
      "abs s' = dev_write (unat off) d (abs s)"
    using writes[OF assms(1,2,3)] by auto
  have "\<exists>ios2. whole_headers ios2 \<and>
      serve_request g aop (request_at (request_bytes NBD_CMD_WRITE h off (of_nat (length d)))) ios1 (d @ rest) tx s =
      Inr (True, ios2, rest, tx @ ok_reply h, s')" if w1: "whole_headers ios1" for ios1
  proof -
    obtain ios2 where w2: "read_all ios1 (d @ rest) (length d) = Inr (d, rest, ios2)" "whole_headers ios2"
      using read_all_gets[OF whole_no_fail[OF w1], of "length d" "d @ rest"] whole_subset[OF w1] by auto
    obtain ios3 where w3: "write_all ios2 tx (reply_bytes \<lparr>rp_magic = ntohl NBD_REPLY_MAGIC, rp_error = 0, rp_handle = h\<rparr>) =
        Inr (tx @ ok_reply h, ios3)" "whole_headers ios3" using reply_written[OF w2(2)] by blast
    show ?thesis using f w2 w3 n by (simp add: serve_request_def request_at_bytes[OF assms(4)] nbd_consts Let_def)
  qed
  from serve_head[OF assms(5,4), of g NBD_CMD_WRITE off "of_nat (length d)" d rest tx s "ok_reply h" s'] this f(3,4)
  show ?thesis by auto
qed

lemma serve_no_data:
  assumes "inv s" "length h = 8" "whole_headers ios" "t = NBD_CMD_FLUSH \<or> t = NBD_CMD_TRIM"
  shows "\<exists>ios'. whole_headers ios' \<and>
    serve_nbd g aop ios (request_bytes t h off n @ rest) tx s = serve_nbd g aop ios' rest (tx @ ok_reply h) s"
proof -
  have "\<exists>ios2. whole_headers ios2 \<and>
      serve_request g aop (request_at (request_bytes t h off n)) ios1 ([] @ rest) tx s =
      Inr (True, ios2, rest, tx @ ok_reply h, s)" if w1: "whole_headers ios1" for ios1
  proof -
    obtain ios2 where w2: "write_all ios1 tx (reply_bytes \<lparr>rp_magic = ntohl NBD_REPLY_MAGIC, rp_error = 0, rp_handle = h\<rparr>) =
        Inr (tx @ ok_reply h, ios2)" "whole_headers ios2" using reply_written[OF w1] by blast
    show ?thesis using flushes[OF assms(1)] trims[OF assms(1), of off n] w2 assms(4)
      by (auto simp: serve_request_def request_at_bytes[OF assms(2)] nbd_consts Let_def)
  qed
  from serve_head[OF assms(3,2), of g t off n "[]" rest tx s "ok_reply h" s] this show ?thesis by auto
qed

lemma serve_end: "serve_nbd g aop ios [] tx s = Inr (0, tx, s)" if "whole_headers ios"
proof -
  have "\<exists>ios'. sys_read ios [] sizeof_request = (0, [], [], ios')"
    using that by (cases "(ios, 0 :: nat)" rule: transfer.cases) (auto simp: sys_read_def whole_headers_def)
  then show ?thesis by (subst serve_nbd.simps) auto
qed

lemma serve_simulates:
  assumes "list_all (cmd_ok ok) cs" "inv s" "whole_headers ios"
  shows "\<exists>s'. serve_nbd g aop ios (request_stream cs) tx s = Inr (0, tx @ fst (dev_serve cs (abs s)), s') \<and>
    inv s' \<and> abs s' = snd (dev_serve cs (abs s))"
  using assms
proof (induction cs arbitrary: s ios tx)
  case Nil
  then show ?case by (simp add: serve_end)
next
  case (Cons hc cs)
  obtain h c where hc: "hc = (h, c)" by (cases hc)
  have step: ?case if "\<exists>ios' s'. whole_headers ios' \<and> inv s' \<and> abs s' = dev' \<and>
      serve_nbd g aop ios (request_stream (hc # cs)) tx s = serve_nbd g aop ios' (request_stream cs) (tx @ out) s'"
      "dev_serve (hc # cs) (abs s) = (out @ fst (dev_serve cs dev'), snd (dev_serve cs dev'))" for dev' out
  proof -
    from that(1) obtain ios' s' where *: "whole_headers ios'" "inv s'" "abs s' = dev'"
      "serve_nbd g aop ios (request_stream (hc # cs)) tx s = serve_nbd g aop ios' (request_stream cs) (tx @ out) s'"
      by blast
    with Cons.IH[OF _ *(2,1), of "tx @ out"] Cons.prems(1) that(2) show ?thesis by auto
  qed
  show ?case
  proof (cases c)
    case (K_read off n)
    then show ?thesis
      using answer_read[OF Cons.prems(2) _ _ Cons.prems(3), of off n h g "request_stream cs" tx] Cons.prems(1)
      by (intro step[of "abs s" "ok_reply h @ dev_read (unat off) (unat n) (abs s)"]) (auto simp: hc split_beta)
  next
    case (K_write off d)
    then show ?thesis
      using answer_write[OF Cons.prems(2) _ _ _ Cons.prems(3), of off d h g "request_stream cs" tx] Cons.prems(1)
      by (intro step[of "dev_write (unat off) d (abs s)" "ok_reply h"]) (auto simp: hc split_beta)
  next
    case K_flush
    then show ?thesis
      using serve_no_data[OF Cons.prems(2) _ Cons.prems(3), of h NBD_CMD_FLUSH g 0 0 "request_stream cs" tx] Cons.prems(1,2)
      by (intro step[of "abs s" "ok_reply h"]) (auto simp: hc split_beta)
  next
    case (K_trim off n)
    then show ?thesis
      using serve_no_data[OF Cons.prems(2) _ Cons.prems(3), of h NBD_CMD_TRIM g off n "request_stream cs" tx] Cons.prems(1,2)
      by (intro step[of "abs s" "ok_reply h"]) (auto simp: hc split_beta)
  qed
qed

end

end
