(* ===== verification/Raz_Nbd.thy ===== *)
theory Raz_Nbd
  imports Nbd_Server
begin

text \<open>
  The \<open>NBD\<close> class (\<open>include/raz_nbd.hpp\<close>, \<open>src/raz_nbd.cpp\<close>): the operations it hands to
  \<open>serve_nbd\<close>, and the parsing of its size argument. The reading and writing operations are the rounds of
  \<open>System\<close>: \<open>serve_nbd\<close> calls them and they return when the answer is there.
\<close>

subsection \<open>Operations\<close>

definition NBDRead :: "host \<Rightarrow> (nat \<Rightarrow> host) \<Rightarrow> byte list \<Rightarrow> u32 \<Rightarrow> u64 \<Rightarrow> system \<Rightarrow> (u32 \<times> byte list \<times> system) result" where
  "NBDRead h hm buf len offset sys =
     bindE (read_round h hm buf len offset sys) (\<lambda>(buf, sys). Inr (0, buf, sys))"

definition NBDWrite :: "host \<Rightarrow> (nat \<Rightarrow> host) \<Rightarrow> byte list \<Rightarrow> u32 \<Rightarrow> u64 \<Rightarrow> system \<Rightarrow> (u32 \<times> system) result" where
  "NBDWrite h hm buf len offset sys =
     bindE (write_round h hm buf len offset sys) (\<lambda>(r, sys). Inr (word_of_int r, sys))"

definition NBDDisc :: "system \<Rightarrow> system" where
  "NBDDisc sys = sys"

definition NBDFlush :: "system \<Rightarrow> u32 \<times> system" where
  "NBDFlush sys = (0, sys)"

definition NBDTrim :: "u64 \<Rightarrow> u32 \<Rightarrow> system \<Rightarrow> u32 \<times> system" where
  "NBDTrim from len sys = (0, sys)"

definition m_aop :: "host \<Rightarrow> (nat \<Rightarrow> host) \<Rightarrow> system buse_operations" where
  "m_aop h hm = \<lparr>aop_read = Some (NBDRead h hm), aop_write = Some (NBDWrite h hm),
     aop_disc = Some NBDDisc, aop_flush = Some NBDFlush, aop_trim = Some NBDTrim,
     aop_size = 0, aop_blksize = 0, aop_size_blocks = 0\<rparr>"

text \<open>The state between two requests, in an environment in which they succeed.\<close>

definition serving :: "host \<Rightarrow> (nat \<Rightarrow> host) \<Rightarrow> nat \<Rightarrow> system \<Rightarrow> bool" where
  "serving h hm limit sys \<longleftrightarrow> hosts_ok h hm limit \<and> limit < 2 ^ 31 - 41 \<and> idle sys \<and> raid.mirrored (cells sys)"

lemma write_round_zero: "write_round h hm d n off sys = Inr (r, sys') \<Longrightarrow> r = 0"
  by (auto simp: write_round_def NBDWrite_reply_def Let_def bindE_eq_Inr_iff split: prod.splits)

interpretation nbd: block_operations "m_aop h hm" "serving h hm limit" abs_device "fits limit"
  for h :: host and hm :: "nat \<Rightarrow> host" and limit :: nat
proof (unfold_locales, goal_cases)
  case (1 s off n chunk)
  then obtain s' where "read_round h hm chunk n off s = Inr (dev_read (unat off) (unat n) (abs_device s), s')"
      "idle s'" "cells s' = cells s"
    using read_step[of s h hm limit off n chunk] by (auto simp: serving_def)
  with 1 show ?case by (auto simp: m_aop_def NBDRead_def serving_def abs_device_def)
next
  case (2 s off d)
  then obtain r s' where w: "write_round h hm d (of_nat (length d)) off s = Inr (r, s')" "idle s'"
      "cells s' = raid.mirror_write (cells s) (unat off) d"
    using write_step[of s h hm limit off d] by (auto simp: serving_def)
  have "raid.in_stripe (unat off) (length d)" using 2 by simp
  with w 2 write_round_zero[OF w(1)] abs_device_write[of "unat off" d s' s] raid.mirror_write_mirrored[of "cells s" "unat off" d]
  show ?case by (simp add: m_aop_def NBDWrite_def serving_def)
qed (simp_all add: m_aop_def NBDFlush_def NBDTrim_def)

subsection \<open>The size argument\<close>

text \<open>\<open>strtoull\<close> with base 0, in the "C" locale: the value and what is left of the string.\<close>

definition isspace :: "char \<Rightarrow> bool" where
  "isspace c \<longleftrightarrow> of_char c = (32 :: nat) \<or> (9 \<le> (of_char c :: nat) \<and> (of_char c :: nat) \<le> 13)"

definition digit_value :: "char \<Rightarrow> nat option" where
  "digit_value c =
     (let n = of_char c :: nat
      in if 48 \<le> n \<and> n \<le> 57 then Some (n - 48)
         else if 65 \<le> n \<and> n \<le> 90 then Some (n - 55)
         else if 97 \<le> n \<and> n \<le> 122 then Some (n - 87) else None)"

fun strtoull_digits :: "nat \<Rightarrow> nat \<Rightarrow> string \<Rightarrow> nat \<times> string" where
  "strtoull_digits base acc [] = (acc, [])"
| "strtoull_digits base acc (c # cs) =
     (case digit_value c of
        Some d \<Rightarrow> if d < base then strtoull_digits base (acc * base + d) cs else (acc, c # cs)
      | None \<Rightarrow> (acc, c # cs))"

definition is_digit :: "nat \<Rightarrow> string \<Rightarrow> bool" where
  "is_digit base s = (case s of [] \<Rightarrow> False | c # _ \<Rightarrow> (case digit_value c of Some d \<Rightarrow> d < base | None \<Rightarrow> False))"

definition strtoull :: "string \<Rightarrow> u64 \<times> string" where
  "strtoull str =
     (let s = dropWhile isspace str;
          neg = (s \<noteq> [] \<and> hd s = CHR ''-'');
          s = (if s \<noteq> [] \<and> (hd s = CHR ''-'' \<or> hd s = CHR ''+'') then tl s else s);
          hex = (take 2 s = ''0x'' \<or> take 2 s = ''0X'') \<and> is_digit 16 (drop 2 s);
          base = (if hex then 16 else if take 1 s = ''0'' then 8 else 10);
          s = (if hex then drop 2 s else s)
      in if \<not> is_digit base s then (0, str)
         else
           let (n, rest) = strtoull_digits base 0 s;
               v = (if n < 2 ^ 64 then of_nat n else - 1 :: u64)
           in (if neg \<and> n < 2 ^ 64 then - v else v, rest))"

definition strtoull_with_prefix :: "string \<Rightarrow> u64 \<times> string" where
  "strtoull_with_prefix str =
     (let (v, end) = strtoull str
      in case end of
           [] \<Rightarrow> (v, end)
         | c # end' \<Rightarrow>
             if c = CHR ''K'' then (v * 1024, end')
             else if c = CHR ''M'' then (v * (1024 * 1024), end')
             else if c = CHR ''G'' then (v * (1024 * 1024 * 1024), end')
             else (v, end))"

text \<open>
  \<open>parse_opt\<close>, called by \<open>argp_parse\<close> with a key. The last line prints the size and the device;
  printing a null \<open>char*\<close> makes \<open>std::cout\<close> bad (libstdc++ sets \<open>badbit\<close>), and nothing is printed
  any more. \<open>argp_usage\<close> ends the process.
\<close>

datatype argp_key = Key_v | ARGP_KEY_ARG | ARGP_KEY_END | Key_other

record arguments =
  ar_size :: u64
  ar_device :: "string option"
  ar_verbose :: bool
  ar_cout_ok :: bool

definition ARGP_ERR_UNKNOWN :: int where "ARGP_ERR_UNKNOWN = 7"

definition print_parsed :: "arguments \<Rightarrow> arguments" where
  "print_parsed a = (if ar_device a = None then a\<lparr>ar_cout_ok := False\<rparr> else a)"

definition parse_opt :: "argp_key \<Rightarrow> string \<Rightarrow> nat \<Rightarrow> arguments \<Rightarrow> (int \<times> arguments) result" where
  "parse_opt key arg arg_num a =
     (case key of
        Key_v \<Rightarrow> Inr (0, print_parsed (a\<lparr>ar_verbose := True\<rparr>))
      | ARGP_KEY_ARG \<Rightarrow>
          (if arg_num = 0 then
             let (size, endptr) = strtoull_with_prefix arg
             in if endptr \<noteq> [] then Inl (Exit_failure ''SIZE must be an integer'')
                else Inr (0, print_parsed (a\<lparr>ar_size := size\<rparr>))
           else if arg_num = 1 then Inr (0, print_parsed (a\<lparr>ar_device := Some arg\<rparr>))
           else Inr (ARGP_ERR_UNKNOWN, a))
      | ARGP_KEY_END \<Rightarrow>
          if arg_num < 2 then Inl (Exit_failure ''not enough arguments'') else Inr (0, print_parsed a)
      | Key_other \<Rightarrow> Inr (ARGP_ERR_UNKNOWN, a))"

text \<open>\<open>argp_parse\<close> on arguments without options: one call for each, and one at the end.\<close>

fun argp_args :: "nat \<Rightarrow> string list \<Rightarrow> arguments \<Rightarrow> arguments result" where
  "argp_args i [] a = bindE (parse_opt ARGP_KEY_END [] i a) (\<lambda>(_, a). Inr a)"
| "argp_args i (arg # args) a =
     bindE (parse_opt ARGP_KEY_ARG arg i a) (\<lambda>(e, a).
       if e \<noteq> 0 then Inl (Exit_failure ''Too many arguments'') else argp_args (Suc i) args a)"

definition m_dev_file :: string where "m_dev_file = ''/dev/nbd0''"

text \<open>
  \<open>NBD::Run\<close> up to \<open>buse_main\<close>: the size that goes into \<open>m_aop\<close>, the device, and the state of
  \<open>std::cout\<close>; \<open>None\<close> when it returns -1.
\<close>

definition NBD_Run_arguments :: "(u64 \<times> string \<times> bool) option result" where
  "NBD_Run_arguments =
     bindE (argp_args 0 [''12M'', m_dev_file] \<lparr>ar_size = 0, ar_device = None, ar_verbose = False, ar_cout_ok = True\<rparr>) (\<lambda>a.
       if ar_size a = 0 then Inr None else Inr (Some (ar_size a, m_dev_file, ar_cout_ok a)))"

subsection \<open>Decimal sizes\<close>

lemma digit_value_char: "d < 10 \<Longrightarrow> digit_value (char_of (48 + d)) = Some d"
  by (simp add: digit_value_def Let_def)

lemma to_string_last: "n < 10 \<Longrightarrow> to_string n = [char_of (48 + n)]"
  by (subst to_string.simps) simp

lemma to_string_step: "10 \<le> n \<Longrightarrow> to_string n = to_string (n div 10) @ [char_of (48 + n mod 10)]"
  by (subst to_string.simps) simp

lemma digits_to_string:
  "strtoull_digits 10 0 (to_string n @ rest) = strtoull_digits 10 n rest"
proof (induction n arbitrary: rest rule: to_string.induct)
  case (1 n)
  show ?case
  proof (cases "n < 10")
    case True
    then show ?thesis by (simp add: to_string_last digit_value_char)
  next
    case False
    then have "strtoull_digits 10 0 (to_string n @ rest) = strtoull_digits 10 (n div 10) (char_of (48 + n mod 10) # rest)"
      using 1[OF False, of "char_of (48 + n mod 10) # rest"] by (simp add: to_string_step)
    also have "... = strtoull_digits 10 (n div 10 * 10 + n mod 10) rest" by (simp add: digit_value_char)
    finally show ?thesis by simp
  qed
qed

lemma to_string_head:
  "0 < n \<Longrightarrow> \<exists>(d :: nat) cs. to_string n = char_of (48 + d) # cs \<and> 0 < d \<and> d < 10"
proof (induction n rule: to_string.induct)
  case (1 n)
  show ?case
  proof (cases "n < 10")
    case True
    with 1(2) show ?thesis by (intro exI[of _ n]) (simp add: to_string_last)
  next
    case False
    then have "0 < n div 10" by auto
    from 1(1)[OF False this] obtain d :: nat and cs where "to_string (n div 10) = char_of (48 + d) # cs" "0 < d" "d < 10"
      by blast
    with False show ?thesis by (intro exI[of _ d]) (simp add: to_string_step)
  qed
qed

lemma strtoull_to_string:
  assumes "0 < n" "n < 2 ^ 64" "\<not> is_digit 10 rest"
  shows "strtoull (to_string n @ rest) = (of_nat n, rest)"
proof -
  obtain d :: nat and cs where t: "to_string n = char_of (48 + d) # cs" "0 < d" "d < 10" using to_string_head[OF assms(1)] by blast
  let ?c = "char_of (48 + d) :: char"
  have c: "of_char ?c = 48 + d" using t(3) by simp
  then have neq: "?c \<noteq> x" if "of_char x < (49 :: nat)" for x using that t(2) by auto
  from c have "\<not> isspace ?c" "is_digit 10 (?c # cs @ rest)"
    using t(2,3) by (auto simp: isspace_def is_digit_def digit_value_char)
  moreover have "?c \<noteq> CHR ''-''" "?c \<noteq> CHR ''+''" "?c \<noteq> CHR ''0''" by (rule neq, simp)+
  moreover have "strtoull_digits 10 0 (?c # cs @ rest) = (n, rest)"
    using digits_to_string[of n rest] assms(3) t(1)
    by (cases rest) (auto simp: is_digit_def split: option.splits)
  ultimately show ?thesis using assms(2) by (simp add: strtoull_def Let_def t(1))
qed

text \<open>The suffixes and their factors.\<close>

definition suffixes :: "(string \<times> nat) list" where
  "suffixes = [([], 1), (''K'', 2 ^ 10), (''M'', 2 ^ 20), (''G'', 2 ^ 30)]"

lemma NBD_Run_arguments_val: "NBD_Run_arguments = Inr (Some (12582912, ''/dev/nbd0'', False))"
proof -
  have "to_string 12 = ''12''" by (simp add: to_string_step to_string_last char_of_def bit_0)
  then have "strtoull_with_prefix ''12M'' = (12582912, [])"
    using strtoull_to_string[of 12 "''M''"] by (simp add: strtoull_with_prefix_def is_digit_def digit_value_def)
  then show ?thesis by (simp add: NBD_Run_arguments_def parse_opt_def print_parsed_def m_dev_file_def)
qed

subsection \<open>Properties\<close>



text \<open>
  The server does not survive a cut header: if a \<open>read\<close> returns the first bytes of a
  request only, it aborts, whatever the bytes and the operations.
\<close>
theorem cut_header_aborts:
  assumes "Suc k < sizeof_request" and "rx \<noteq> []"
  shows "serve_nbd g aop (Part k # ios) rx tx s = Inl Aborted"
proof -
  have "0 < min (min sizeof_request (length rx)) (min (Suc k) MAX_RW_COUNT)"
    "min (min sizeof_request (length rx)) (min (Suc k) MAX_RW_COUNT) \<noteq> sizeof_request"
    using assms by (auto simp: sizeof_request_def MAX_RW_COUNT_def)
  then show ?thesis by (subst serve_nbd.simps) (simp add: sys_read_def)
qed

theorem cut_header_aborts_witness:
  "serve_nbd (\<lambda>_. 0) (m_aop demo_host (\<lambda>_. demo_host)) [Part 11]
     (request_stream [([1, 1, 1, 1, 1, 1, 1, 1], K_flush)]) [] (start Map.empty) = Inl Aborted"
  by (rule cut_header_aborts) (simp_all add: sizeof_request_def request_bytes_def)

text \<open>
  The device is announced with the size of the array: \<open>NBD::Run\<close> parses 12M into exactly
  the capacity below which \<open>OffsetToProxy\<close> has an answer. On the way \<open>parse_opt\<close> prints the
  device name before it is set, which leaves \<open>std::cout\<close> unusable for the rest of the process.
\<close>
theorem announced_size_is_capacity:
  "\<exists>size. NBD_Run_arguments = Inr (Some (size, ''/dev/nbd0'', False)) \<and> unat size = raid_capacity \<and>
     (\<forall>off. unat off < unat size \<longleftrightarrow> (\<exists>r. OffsetToProxy Raid01_ctor off = Inr r))"
proof -
  have "unat (12582912 :: u64) = raid_capacity" by (simp add: raid_capacity_val)
  with NBD_Run_arguments_val show ?thesis by (intro exI[of _ 12582912] conjI) (simp_all only: OffsetToProxy_Inr_iff simp_thms)
qed

text \<open>
  A decimal size with one of the suffixes is parsed completely; its value is multiplied by
  the factor modulo \<open>2 ^ 64\<close>, without any check: a size that is too large wraps around.
\<close>
lemma size_suffixes:
  assumes "0 < n" and "n < 2 ^ 64" and "(suffix, factor) \<in> set suffixes"
  shows "strtoull_with_prefix (to_string n @ suffix) = (of_nat (n * factor), [])"
  using assms strtoull_to_string[OF assms(1,2), of suffix]
  by (auto simp: strtoull_with_prefix_def suffixes_def is_digit_def digit_value_def)

end
