(* ===== verification/Syscalls.thy ===== *)
theory Syscalls
  imports Error_Handler
begin

text \<open>
  Code that consists of system calls (sockets, \<open>buse_main\<close>, mounting) as programs over a trace:
  each call appends itself and its result to the trace of the process. What the kernel answers
  is a parameter, a function of the trace so far and the call, so that it may depend on
  everything that happened before. A program returns a result or throws; both ways the trace
  shows what it did to the system.
\<close>

text \<open>The requests of \<open>ioctl\<close> on a block device (\<open>linux/nbd.h\<close>, \<open>include/my_nbd.hpp\<close>).\<close>

datatype nbd_ioctl =
    NBD_SET_SOCK | NBD_SET_BLKSIZE | NBD_SET_SIZE | NBD_DO_IT | NBD_CLEAR_SOCK | NBD_CLEAR_QUE
  | NBD_PRINT_DEBUG | NBD_SET_SIZE_BLOCKS | NBD_DISCONNECT | NBD_SET_TIMEOUT | NBD_SET_FLAGS

datatype syscall =
    Socket int int int
  | Setsockopt int
  | Bind int
  | Listen int int
  | Connect int
  | Accept int
  | Close int
  | Socketpair
  | Open string
  | Ioctl int nbd_ioctl u64
  | Fork
  | Sigfillset
  | Sigprocmask
  | Sigemptyset
  | Sigaddset int
  | Sigaction int
  | Waitpid int
  | Access string
  | System string
  | Sleep nat
  | Spawn string

type_synonym trace = "(syscall \<times> int) list"
type_synonym kernel = "trace \<Rightarrow> syscall \<Rightarrow> int"
type_synonym 'a sys = "trace \<Rightarrow> 'a result \<times> trace"

definition sysret :: "'a \<Rightarrow> 'a sys" where
  "sysret x tr = (Inr x, tr)"

definition lift :: "'a result \<Rightarrow> 'a sys" where
  "lift r tr = (r, tr)"

definition sysbind :: "'a sys \<Rightarrow> ('a \<Rightarrow> 'b sys) \<Rightarrow> 'b sys" where
  "sysbind m f tr = (case m tr of (Inl e, tr) \<Rightarrow> (Inl e, tr) | (Inr x, tr) \<Rightarrow> f x tr)"

definition call :: "kernel \<Rightarrow> syscall \<Rightarrow> int sys" where
  "call k c tr = (Inr (k tr c), tr @ [(c, k tr c)])"

lemma sysbind_call [simp]: "sysbind (call k c) f tr = f (k tr c) (tr @ [(c, k tr c)])"
  by (simp add: sysbind_def call_def)

lemma sysbind_ret [simp]: "sysbind (sysret x) f tr = f x tr"
  by (simp add: sysbind_def sysret_def)

lemma sysbind_lift [simp]: "sysbind (lift (Inr x)) f tr = f x tr" "sysbind (lift (Inl e)) f tr = (Inl e, tr)"
  by (simp_all add: sysbind_def lift_def)

lemma sysbind_InrD:
  assumes "sysbind m f tr = (Inr y, tr')"
  obtains x tr1 where "m tr = (Inr x, tr1)" "f x tr1 = (Inr y, tr')"
  using assms by (auto simp: sysbind_def split: prod.splits sum.splits)

lemma sysbind_returns:
  assumes "\<And>tr. \<exists>x tr'. m tr = (Inr x, tr')" "\<And>x tr. \<exists>y tr'. f x tr = (Inr y, tr')"
  shows "\<exists>y tr'. sysbind m f tr = (Inr y, tr')"
proof -
  obtain x tr1 where "m tr = (Inr x, tr1)" using assms(1) by blast
  with assms(2)[of x tr1] show ?thesis by (simp add: sysbind_def)
qed

lemma sysbind_lift_InrD:
  assumes "sysbind (lift r) f tr = (Inr y, tr')"
  obtains x where "r = Inr x" "f x tr = (Inr y, tr')"
  using assms by (auto simp: sysbind_def lift_def split: sum.splits)

text \<open>The descriptors a trace leaves open.\<close>

fun fds_step :: "syscall \<times> int \<Rightarrow> int set \<Rightarrow> int set" where
  "fds_step (Socket f t p, r) S = (if r < 0 then S else insert r S)"
| "fds_step (Accept fd, r) S = (if r < 0 then S else insert r S)"
| "fds_step (Open f, r) S = (if r < 0 then S else insert r S)"
| "fds_step (Close fd, r) S = S - {fd}"
| "fds_step (_, r) S = S"

definition fds :: "trace \<Rightarrow> int set" where
  "fds tr = fold fds_step tr {}"

lemma fds_snoc [simp]: "fds (tr @ [e]) = fds_step e (fds tr)"
  by (simp add: fds_def)

text \<open>A kernel hands out descriptors that are not in use.\<close>

definition fresh_fds :: "kernel \<Rightarrow> bool" where
  "fresh_fds k \<longleftrightarrow> (\<forall>tr f t p. k tr (Socket f t p) \<notin> fds tr)"

lemma finite_fds: "finite (fds tr)"
proof (induction tr rule: rev_induct)
  case (snoc e tr)
  then show ?case by (cases "(e, fds tr)" rule: fds_step.cases) simp_all
qed (simp add: fds_def)

text \<open>A kernel on which every call succeeds, to run the programs on.\<close>

definition next_fd :: "trace \<Rightarrow> int" where
  "next_fd tr = (if fds tr = {} then 3 else Max (fds tr) + 1)"

fun good_kernel :: kernel where
  "good_kernel tr (Socket f t p) = next_fd tr"
| "good_kernel tr (Accept fd) = next_fd tr"
| "good_kernel tr (Open f) = next_fd tr"
| "good_kernel tr Fork = 77"
| "good_kernel tr (Waitpid p) = p"
| "good_kernel tr _ = 0"

lemma next_fd_fresh: "next_fd tr \<notin> fds tr"
  using Max_ge[OF finite_fds, of "Max (fds tr) + 1" tr] by (auto simp: next_fd_def)

lemma fresh_good_kernel: "fresh_fds good_kernel"
  by (simp add: fresh_fds_def next_fd_fresh)

end
