(* ===== verification/Socket_Setup.thy ===== *)
theory Socket_Setup
  imports Syscalls
begin

text \<open>
  Creating, binding, connecting and destroying sockets: the constructor and the destructor of
  \<open>ASocket\<close>, and \<open>TCPListen\<close>, \<open>TCPConnect\<close>, \<open>TCPAccept\<close> (\<open>src/socket.cpp\<close>, \<open>include/socket.hpp\<close>). The
  resolver and the two address parsers of the C library are the record \<open>net\<close>.
\<close>

subsection \<open>Data\<close>

datatype SOCKET_ROLE = SRVR | CLINT
datatype socket_type = SOCK_STREAM | SOCK_DGRAM

definition AF_UNSPEC :: int where "AF_UNSPEC = 0"
definition AF_INET :: int where "AF_INET = 2"

primrec socktype :: "socket_type \<Rightarrow> int" where
  "socktype SOCK_STREAM = 1"
| "socktype SOCK_DGRAM = 2"

record addrinfo =
  ai_family :: int
  ai_socktype :: int
  ai_protocol :: int

record hints =
  hi_family :: int
  hi_socktype :: int
  hi_passive :: bool

record net =
  getaddrinfo :: "string \<Rightarrow> string \<Rightarrow> hints \<Rightarrow> addrinfo list option"
  inet_addr :: "string \<Rightarrow> u32"
  inet_pton :: "string \<Rightarrow> u32 option"

record sockaddr_in =
  sin_family :: int
  sin_port :: "16 word"
  sin_addr :: u32

text \<open>
  \<open>m_addrinfo\<close> is the rest of the resolver's list from the entry in use on, empty for a null
  pointer, and \<open>None\<close> while it is indeterminate, as it is in a UDP socket.
\<close>

record asocket =
  sk_fd :: int
  sk_addrinfo :: "addrinfo list option"
  sk_addr :: "sockaddr_in option"
  sk_child :: int
  sk_role :: SOCKET_ROLE

subsection \<open>Ports\<close>

text \<open>\<open>std::stol\<close> on a string of decimal digits, possibly with other characters behind them.\<close>

definition is_dec :: "char \<Rightarrow> bool" where
  "is_dec c \<longleftrightarrow> 48 \<le> (of_char c :: nat) \<and> (of_char c :: nat) \<le> 57"

fun dec_value :: "nat \<Rightarrow> string \<Rightarrow> nat" where
  "dec_value acc [] = acc"
| "dec_value acc (c # cs) = dec_value (10 * acc + (of_char c - 48)) cs"

definition stol :: "string \<Rightarrow> int result" where
  "stol s =
     (let ds = takeWhile is_dec s
      in if ds = [] then Inl (Invalid_argument ''stol'')
         else if dec_value 0 ds \<ge> 2 ^ 63 then Inl (Out_of_range ''stol'')
         else Inr (int (dec_value 0 ds)))"

definition htons :: "16 word \<Rightarrow> 16 word" where
  "htons w = push_bit 8 w OR drop_bit 8 w"

subsection \<open>Construction\<close>

definition udp_opt_loc :: loc where
  "udp_opt_loc = Loc ''socket.cpp'' ''ASocket::ASocket(__socket_type, const char*, const char*, ASocket::SOCKET_ROLE, int)'' 23"

definition tcp_opt_loc :: loc where
  "tcp_opt_loc = Loc ''socket.cpp'' ''ASocket::ASocket(__socket_type, const char*, const char*, ASocket::SOCKET_ROLE, int)'' 67"

definition check :: "int \<Rightarrow> string \<Rightarrow> loc \<Rightarrow> unit sys" where
  "check v m l = lift (snd (NegativeCheck v m l))"

definition ASocket_udp :: "kernel \<Rightarrow> net \<Rightarrow> string \<Rightarrow> string \<Rightarrow> SOCKET_ROLE \<Rightarrow> asocket sys" where
  "ASocket_udp k net port ip role =
     sysbind (call k (Socket AF_INET (socktype SOCK_DGRAM) 0)) (\<lambda>fd.
     sysbind (call k (Setsockopt fd)) (\<lambda>r.
     sysbind (check r ''setsocket '' udp_opt_loc) (\<lambda>_.
     sysbind (lift (stol port)) (\<lambda>p.
     let addr = \<lparr>sin_family = AF_INET, sin_port = htons (word_of_int p), sin_addr = inet_addr net ip\<rparr>
     in case role of
          SRVR \<Rightarrow> sysbind (call k (Bind fd)) (\<lambda>x.
            sysret \<lparr>sk_fd = fd, sk_addrinfo = None, sk_addr = Some addr, sk_child = -1, sk_role = role\<rparr>)
        | CLINT \<Rightarrow>
            let addr = (case inet_pton net port of None \<Rightarrow> addr | Some a \<Rightarrow> addr\<lparr>sin_addr := a\<rparr>)
            in sysret \<lparr>sk_fd = fd, sk_addrinfo = None, sk_addr = Some addr, sk_child = -1, sk_role = role\<rparr>))))"

text \<open>The loop over the resolver's list: the last descriptor, and the rest of the list it stopped at.\<close>

fun addrinfo_loop :: "kernel \<Rightarrow> SOCKET_ROLE \<Rightarrow> int \<Rightarrow> addrinfo list \<Rightarrow> (int \<times> addrinfo list) sys" where
  "addrinfo_loop k role m_socket_fd [] tr = sysret (m_socket_fd, []) tr"
| "addrinfo_loop k role m_socket_fd (a # rest) tr =
     sysbind (call k (Socket (ai_family a) (ai_socktype a) (ai_protocol a))) (\<lambda>fd.
     if 0 > fd then addrinfo_loop k role fd rest
     else
       sysbind (call k (Setsockopt fd)) (\<lambda>r.
       sysbind (check r ''setsocket '' tcp_opt_loc) (\<lambda>_.
       if role = SRVR then
         sysbind (call k (Bind fd)) (\<lambda>b.
         if 0 > b then sysbind (call k (Close fd)) (\<lambda>_. addrinfo_loop k role fd rest)
         else sysret (fd, a # rest))
       else sysret (fd, a # rest)))) tr"

text \<open>
  With a stream socket, or with a role that is neither server nor client, the constructor asks
  the resolver. Its result is not looked at: when it fails, \<open>m_addrinfo\<close> is indeterminate and the
  loop follows it.
\<close>

definition ASocket_tcp :: "kernel \<Rightarrow> net \<Rightarrow> string \<Rightarrow> string \<Rightarrow> SOCKET_ROLE \<Rightarrow> int \<Rightarrow> asocket sys" where
  "ASocket_tcp k net port ip role socket_fd =
     (let hints = (if SRVR = role then \<lparr>hi_family = AF_UNSPEC, hi_socktype = socktype SOCK_STREAM, hi_passive = True\<rparr>
                   else \<lparr>hi_family = AF_INET, hi_socktype = socktype SOCK_STREAM, hi_passive = False\<rparr>)
      in case getaddrinfo net ip port hints of
           None \<Rightarrow> lift (Inl Undefined)
         | Some m_addrinfo \<Rightarrow>
             sysbind (addrinfo_loop k role socket_fd m_addrinfo) (\<lambda>(fd, m_addrinfo).
               sysret \<lparr>sk_fd = fd, sk_addrinfo = Some m_addrinfo, sk_addr = None, sk_child = -1, sk_role = role\<rparr>))"

definition ASocket_ctor :: "kernel \<Rightarrow> net \<Rightarrow> socket_type \<Rightarrow> string \<Rightarrow> string \<Rightarrow> SOCKET_ROLE \<Rightarrow> int \<Rightarrow> asocket sys" where
  "ASocket_ctor k net type port ip role socket_fd =
     (case type of
        SOCK_DGRAM \<Rightarrow> ASocket_udp k net port ip role
      | SOCK_STREAM \<Rightarrow> ASocket_tcp k net port ip role socket_fd)"

text \<open>The destructor, with the keys of the static \<open>m_open_sockets\<close>, into which nothing is ever inserted.\<close>

definition ASocket_dtor :: "kernel \<Rightarrow> asocket \<Rightarrow> int set \<Rightarrow> int set sys" where
  "ASocket_dtor k s m_open_sockets =
     (if sk_fd s \<in> m_open_sockets
      then sysbind (call k (Close (sk_fd s))) (\<lambda>_. sysret (m_open_sockets - {sk_fd s}))
      else sysret m_open_sockets)"

subsection \<open>Connections\<close>

definition listen_loc :: loc where "listen_loc = Loc ''socket.cpp'' ''void TCPSocket::TCPListen()'' 204"
definition accept_loc :: loc where "accept_loc = Loc ''socket.cpp'' ''int TCPSocket::TCPAccept()'' 256"

definition TCPListen :: "kernel \<Rightarrow> asocket \<Rightarrow> unit sys" where
  "TCPListen k s = sysbind (call k (Listen (sk_fd s) 5)) (\<lambda>r. check r ''TCP Listen'' listen_loc)"

text \<open>\<open>connect\<close> through a pointer that is null or indeterminate is undefined; its result is ignored.\<close>

definition TCPConnect :: "kernel \<Rightarrow> asocket \<Rightarrow> unit sys" where
  "TCPConnect k s =
     (case sk_addrinfo s of
        Some (a # _) \<Rightarrow> sysbind (call k (Connect (sk_fd s))) (\<lambda>_. sysret ())
      | _ \<Rightarrow> lift (Inl Undefined))"

definition TCPAccept :: "kernel \<Rightarrow> asocket \<Rightarrow> (int \<times> asocket) sys" where
  "TCPAccept k s =
     sysbind (call k (Accept (sk_fd s))) (\<lambda>child.
     sysbind (check child ''TCP accept'' accept_loc) (\<lambda>_. sysret (child, s\<lparr>sk_child := child\<rparr>)))"

definition ASocket_GetSocketFD :: "asocket \<Rightarrow> int" where
  "ASocket_GetSocketFD s = sk_fd s"

definition GetChildSocketFD :: "asocket \<Rightarrow> int" where
  "GetChildSocketFD s = sk_child s"

subsection \<open>Descriptors\<close>

lemma check_result: "check v m l tr = (if 0 > v then (Inl (Runtime_error (CheckAndLog_PhraseLine m l @ '' FAIL'')), tr) else (Inr (), tr))"
  by (simp add: check_def lift_def NegativeCheck_def Let_def)

lemma sysbind_check:
  "sysbind (check v m l) f tr =
     (if 0 > v then (Inl (Runtime_error (CheckAndLog_PhraseLine m l @ '' FAIL'')), tr) else f () tr)"
  by (simp add: sysbind_def check_result)

text \<open>
  What the loop leaves open beyond \<open>S\<close>: nothing when the list is exhausted, and otherwise the one
  descriptor it stopped at, bound when it is a server's; also when it throws.
\<close>

fun left_open :: "SOCKET_ROLE \<Rightarrow> int set \<Rightarrow> (int \<times> addrinfo list) result \<times> trace \<Rightarrow> bool" where
  "left_open role S (Inr (fd, []), tr) \<longleftrightarrow> fds tr = S"
| "left_open role S (Inr (fd, a # rest), tr) \<longleftrightarrow> 0 \<le> fd \<and> fd \<notin> S \<and> fds tr = insert fd S \<and>
     (role = SRVR \<longrightarrow> (\<exists>b \<ge> 0. last tr = (Bind fd, b)))"
| "left_open role S (Inl e, tr) \<longleftrightarrow> (\<exists>fd. 0 \<le> fd \<and> fd \<notin> S \<and> fds tr = insert fd S)"

lemma left_open_try:
  assumes "fds tr2 = insert fd S" "fds tr3 = insert fd S" "last tr3 = (Bind fd, b)" "0 \<le> fd" "fd \<notin> S" "left_open role S next"
  shows "left_open role S (if 0 > r then (Inl e, tr2)
    else if role = SRVR then if 0 > b then next else (Inr (fd, a # as), tr3) else (Inr (fd, a # as), tr2))"
  using assms by auto

lemma addrinfo_loop_fds:
  assumes "fresh_fds k"
  shows "left_open role (fds tr) (addrinfo_loop k role fd0 as tr)"
proof (induction as arbitrary: fd0 tr)
  case Nil
  then show ?case by (simp add: sysret_def)
next
  case (Cons a as)
  let ?c = "Socket (ai_family a) (ai_socktype a) (ai_protocol a)"
  let ?fd = "k tr ?c"
  let ?tr1 = "tr @ [(?c, ?fd)]"
  have fresh: "?fd \<notin> fds tr" using assms by (simp add: fresh_fds_def)
  show ?case
  proof (cases "0 > ?fd")
    case True
    then have "fds ?tr1 = fds tr" by simp
    then show ?thesis using Cons.IH[of ?tr1 ?fd] True by (simp del: fds_snoc)
  next
    case False
    let ?tr2 = "?tr1 @ [(Setsockopt ?fd, k ?tr1 (Setsockopt ?fd))]"
    let ?tr3 = "?tr2 @ [(Bind ?fd, k ?tr2 (Bind ?fd))]"
    let ?tr4 = "?tr3 @ [(Close ?fd, k ?tr3 (Close ?fd))]"
    have f: "fds ?tr2 = insert ?fd (fds tr)" "fds ?tr3 = insert ?fd (fds tr)" "fds ?tr4 = fds tr"
      "last ?tr3 = (Bind ?fd, k ?tr2 (Bind ?fd))"
      using False fresh unfolding fds_snoc by simp_all
    have loop: "addrinfo_loop k role fd0 (a # as) tr =
      (if 0 > k ?tr1 (Setsockopt ?fd) then (Inl (Runtime_error (CheckAndLog_PhraseLine ''setsocket '' tcp_opt_loc @ '' FAIL'')), ?tr2)
       else if role = SRVR then
         if 0 > k ?tr2 (Bind ?fd) then addrinfo_loop k role ?fd as ?tr4 else (Inr (?fd, a # as), ?tr3)
       else (Inr (?fd, a # as), ?tr2))"
      using False by (simp add: sysbind_check sysret_def)
    show ?thesis unfolding loop
      by (rule left_open_try) (use Cons.IH[of ?tr4 ?fd] f False fresh in \<open>simp_all del: fds_snoc append_assoc\<close>)
  qed
qed

text \<open>
  A stream socket that is constructed holds exactly one new descriptor, bound if it is a
  server's, and none of those tried before it stays open; when no address works the
  constructor returns as if it had succeeded, with no new descriptor, a null list of
  addresses, and \<open>TCPConnect\<close> on it undefined. When setting the option fails it throws, and the
  descriptor stays open.
\<close>
theorem tcp_socket_descriptors:
  assumes "fresh_fds k" and "getaddrinfo net ip port hints = Some as"
    and "hints = \<lparr>hi_family = if role = SRVR then AF_UNSPEC else AF_INET, hi_socktype = 1, hi_passive = (role = SRVR)\<rparr>"
    and "ASocket_ctor k net SOCK_STREAM port ip role (-1) tr = (r, tr')"
  shows "case r of
      Inl e \<Rightarrow> (\<exists>fd. 0 \<le> fd \<and> fd \<notin> fds tr \<and> fds tr' = insert fd (fds tr))
    | Inr s \<Rightarrow> if sk_addrinfo s = Some [] then fds tr' = fds tr \<and> TCPConnect k s tr' = (Inl Undefined, tr')
        else 0 \<le> sk_fd s \<and> sk_fd s \<notin> fds tr \<and> fds tr' = insert (sk_fd s) (fds tr) \<and>
          (role = SRVR \<longrightarrow> (\<exists>b \<ge> 0. last tr' = (Bind (sk_fd s), b))) \<and> (\<exists>c. TCPConnect k s tr' = (Inr (), tr' @ [(Connect (sk_fd s), c)]))"
proof -
  obtain res where l: "addrinfo_loop k role (-1) as tr = (res, tr')" and
    r: "r = bindE res (\<lambda>(fd, as). Inr \<lparr>sk_fd = fd, sk_addrinfo = Some as, sk_addr = None, sk_child = -1, sk_role = role\<rparr>)"
    using assms(2-4) by (cases role; cases "addrinfo_loop k role (-1) as tr")
      (auto simp: ASocket_ctor_def ASocket_tcp_def Let_def sysbind_def sysret_def bindE_def split: sum.splits)
  have "left_open role (fds tr) (res, tr')" using addrinfo_loop_fds[OF assms(1), of role tr "-1" as] l by simp
  then show ?thesis unfolding r
    by (cases "(role, fds tr, (res, tr'))" rule: left_open.cases) (auto simp: TCPConnect_def lift_def sysret_def)
qed

definition demo_net :: net where
  "demo_net = \<lparr>getaddrinfo = (\<lambda>ip port hints. Some [\<lparr>ai_family = AF_INET, ai_socktype = hi_socktype hints, ai_protocol = 6\<rparr>]),
     inet_addr = (\<lambda>ip. 0x0101007f), inet_pton = (\<lambda>s. None)\<rparr>"

theorem tcp_socket_descriptors_witness:
  "\<exists>s tr'. ASocket_ctor good_kernel demo_net SOCK_STREAM ''8080'' ''0.0.0.0'' SRVR (-1) [] = (Inr s, tr') \<and> fds tr' = {3} \<and> sk_fd s = 3"
proof -
  let ?h = "\<lparr>hi_family = AF_UNSPEC, hi_socktype = 1, hi_passive = True\<rparr>"
  obtain s tr' where c: "ASocket_ctor good_kernel demo_net SOCK_STREAM ''8080'' ''0.0.0.0'' SRVR (-1) [] = (Inr s, tr')"
      "sk_addrinfo s \<noteq> Some []" "sk_fd s = 3"
    by (simp add: ASocket_ctor_def ASocket_tcp_def demo_net_def check_result next_fd_def fds_def sysret_def sysbind_def call_def)
  have "getaddrinfo demo_net ''0.0.0.0'' ''8080'' ?h = Some [\<lparr>ai_family = AF_INET, ai_socktype = 1, ai_protocol = 6\<rparr>]"
    by (simp add: demo_net_def)
  from tcp_socket_descriptors[OF fresh_good_kernel this _ c(1)] c show ?thesis by (auto simp: fds_def)
qed

text \<open>The destructor closes nothing, since no socket is ever entered into \<open>m_open_sockets\<close>.\<close>

lemma sockets_are_never_closed: "ASocket_dtor k s {} tr = (Inr {}, tr)"
  by (simp add: ASocket_dtor_def sysret_def)

text \<open>A UDP socket is never resolved: its \<open>m_addrinfo\<close> stays indeterminate, and only its address is used.\<close>

lemma udp_ports: "stol ''8080'' = Inr 8080" "htons 8080 = 0x901F"
  by (simp_all add: stol_def is_dec_def htons_def)

end
