(* ===== verification/Buse_Main.thy ===== *)
theory Buse_Main
  imports Buse Syscalls
begin

text \<open>
  \<open>buse_main\<close>, the signal handler \<open>disconnect_nbd\<close> and \<open>set_sigaction\<close> (\<open>src/buse.cpp\<close>): the device is
  opened and sized, the process forks, the child gives one end of a socket pair to the kernel
  and stays in \<open>NBD_DO_IT\<close>, the parent serves the other end and then waits for the child.

  Both processes run the same program from the same trace; which one a run describes is the
  result of \<open>fork\<close>. The two ends of the socket pair and the status \<open>waitpid\<close> stores are
  parameters. Warnings on the standard error are left out.
\<close>

datatype proc_end = Returns int | Exits int

definition EXIT_SUCCESS :: int where "EXIT_SUCCESS = 0"
definition EXIT_FAILURE :: int where "EXIT_FAILURE = 1"
definition SIGINT :: int where "SIGINT = 2"
definition SIGTERM :: int where "SIGTERM = 15"
definition NBD_FLAG_SEND_FLUSH :: u64 where "NBD_FLAG_SEND_FLUSH = push_bit 2 1"
definition NBD_FLAG_SEND_TRIM :: u64 where "NBD_FLAG_SEND_TRIM = push_bit 5 1"

definition WEXITSTATUS :: "int \<Rightarrow> int" where
  "WEXITSTATUS status = (drop_bit 8 status) AND 0xff"

text \<open>\<open>err = ...; assert(err != -1)\<close>.\<close>

definition assert_call :: "kernel \<Rightarrow> syscall \<Rightarrow> unit sys" where
  "assert_call k c = sysbind (call k c) (\<lambda>err. if err \<noteq> -1 then sysret () else lift (Inl Aborted))"

definition disconnect_nbd :: "kernel \<Rightarrow> int \<Rightarrow> int sys" where
  "disconnect_nbd k nbd_dev_to_disconnect =
     (if nbd_dev_to_disconnect \<noteq> -1 then
        sysbind (call k (Ioctl nbd_dev_to_disconnect NBD_DISCONNECT 0)) (\<lambda>r.
          sysret (if r = -1 then nbd_dev_to_disconnect else -1))
      else sysret nbd_dev_to_disconnect)"

definition set_sigaction :: "kernel \<Rightarrow> int \<Rightarrow> int sys" where
  "set_sigaction k sig = call k (Sigaction sig)"

text \<open>The child: lines 241 to 292.\<close>

definition buse_child :: "kernel \<Rightarrow> int \<times> int \<Rightarrow> int \<Rightarrow> proc_end sys" where
  "buse_child k sp nbd =
     sysbind (call k Sigfillset) (\<lambda>a.
     if a \<noteq> 0 then sysret (Exits EXIT_FAILURE) else
     sysbind (call k Sigprocmask) (\<lambda>b.
     if b \<noteq> 0 then sysret (Exits EXIT_FAILURE) else
     sysbind (call k (Close (fst sp))) (\<lambda>_.
     let sk = snd sp in
     sysbind (call k (Ioctl nbd NBD_SET_SOCK (word_of_int sk))) (\<lambda>r.
     if r = -1 then sysret (Exits EXIT_FAILURE) else
     let flags = NBD_FLAG_SEND_TRIM OR NBD_FLAG_SEND_FLUSH in
     sysbind (call k (Ioctl nbd NBD_SET_FLAGS flags)) (\<lambda>r.
     if r = -1 then sysret (Exits EXIT_FAILURE) else
     sysbind (call k (Ioctl nbd NBD_DO_IT 0)) (\<lambda>err.
     if err = -1 then sysret (Exits EXIT_FAILURE) else
     sysbind (call k (Ioctl nbd NBD_CLEAR_QUE 0)) (\<lambda>r.
     if r = -1 then sysret (Exits EXIT_FAILURE) else
     sysbind (call k (Ioctl nbd NBD_CLEAR_SOCK 0)) (\<lambda>r.
     if r = -1 then sysret (Exits EXIT_FAILURE) else
       sysret (Exits 0)))))))))"

text \<open>What a call has stored through a pointer, as a function of the trace that ends with the call.\<close>

definition stored :: "(trace \<Rightarrow> int) \<Rightarrow> int sys" where
  "stored f tr = (Inr (f tr), tr)"

text \<open>
  The parent: lines 294 to 333. \<open>serve\<close> is \<open>serve_nbd\<close> on the server's end, from the state \<open>w\<close>; the
  result is how the function ends, \<open>nbd_dev_to_disconnect\<close>, and the state.
\<close>

definition buse_parent ::
    "kernel \<Rightarrow> (trace \<Rightarrow> int) \<Rightarrow> ('w \<Rightarrow> (int \<times> 'w) result) \<Rightarrow> int \<times> int \<Rightarrow> int \<Rightarrow> int \<Rightarrow> int \<Rightarrow> 'w \<Rightarrow>
      (proc_end \<times> int \<times> 'w) sys" where
  "buse_parent k wstatus serve sp nbd pid nbd_dev_to_disconnect w =
     (if nbd_dev_to_disconnect \<noteq> -1 then lift (Inl Aborted) else
      let dev = nbd in
      sysbind (call k Sigemptyset) (\<lambda>a.
      if a \<noteq> 0 then sysret (Returns EXIT_FAILURE, dev, w) else
      sysbind (call k (Sigaddset SIGINT)) (\<lambda>a.
      if a \<noteq> 0 then sysret (Returns EXIT_FAILURE, dev, w) else
      sysbind (call k (Sigaddset SIGTERM)) (\<lambda>a.
      if a \<noteq> 0 then sysret (Returns EXIT_FAILURE, dev, w) else
      sysbind (set_sigaction k SIGINT) (\<lambda>a.
      if a \<noteq> 0 then sysret (Returns EXIT_FAILURE, dev, w) else
      sysbind (set_sigaction k SIGTERM) (\<lambda>a.
      if a \<noteq> 0 then sysret (Returns EXIT_FAILURE, dev, w) else
      sysbind (call k (Close (snd sp))) (\<lambda>_.
      sysbind (lift (serve w)) (\<lambda>(status, w).
      sysbind (call k (Close (fst sp))) (\<lambda>_.
      if status \<noteq> 0 then sysret (Returns status, dev, w) else
      sysbind (call k (Waitpid pid)) (\<lambda>r.
      if r = -1 then sysret (Returns EXIT_FAILURE, dev, w) else
      sysbind (stored wstatus) (\<lambda>status.
      if WEXITSTATUS status \<noteq> 0 then sysret (Returns (WEXITSTATUS status), dev, w)
      else sysret (Returns EXIT_SUCCESS, dev, w))))))))))))"

definition set_sizes :: "kernel \<Rightarrow> 's buse_operations \<Rightarrow> int \<Rightarrow> unit sys" where
  "set_sizes k aop nbd =
     sysbind (if aop_blksize aop \<noteq> 0 then assert_call k (Ioctl nbd NBD_SET_BLKSIZE (ucast (aop_blksize aop))) else sysret ()) (\<lambda>_.
     sysbind (if aop_size aop \<noteq> 0 then assert_call k (Ioctl nbd NBD_SET_SIZE (aop_size aop)) else sysret ()) (\<lambda>_.
     if aop_size_blocks aop \<noteq> 0 then assert_call k (Ioctl nbd NBD_SET_SIZE_BLOCKS (aop_size_blocks aop)) else sysret ()))"

definition buse_main ::
    "kernel \<Rightarrow> (int \<times> int) \<Rightarrow> (trace \<Rightarrow> int) \<Rightarrow> ('w \<Rightarrow> (int \<times> 'w) result) \<Rightarrow> string \<Rightarrow> 's buse_operations \<Rightarrow> int \<Rightarrow> 'w \<Rightarrow>
      (proc_end \<times> int \<times> 'w) sys" where
  "buse_main k sp wstatus serve dev_file aop nbd_dev_to_disconnect w =
     sysbind (call k Socketpair) (\<lambda>err.
     if err \<noteq> 0 then lift (Inl Aborted) else
     sysbind (call k (Open dev_file)) (\<lambda>nbd.
     if nbd = -1 then sysret (Returns 1, nbd_dev_to_disconnect, w) else
     sysbind (set_sizes k aop nbd) (\<lambda>_.
     sysbind (assert_call k (Ioctl nbd NBD_CLEAR_SOCK 0)) (\<lambda>_.
     sysbind (call k Fork) (\<lambda>pid.
     if pid = 0 then
       sysbind (buse_child k sp nbd) (\<lambda>e. sysret (e, nbd_dev_to_disconnect, w))
     else buse_parent k wstatus serve sp nbd pid nbd_dev_to_disconnect w)))))"

subsection \<open>A kernel that does as asked\<close>

text \<open>Every call succeeds: \<open>open\<close> gives \<open>nbd\<close>, \<open>fork\<close> gives \<open>pid\<close>, and \<open>waitpid\<close> the process waited for.\<close>

definition obliging :: "int \<Rightarrow> int \<Rightarrow> kernel \<Rightarrow> bool" where
  "obliging nbd pid k \<longleftrightarrow>
     (\<forall>tr c. k tr c = (case c of Open f \<Rightarrow> nbd | Fork \<Rightarrow> pid | Waitpid p \<Rightarrow> p | _ \<Rightarrow> 0))"

definition size_calls :: "'s buse_operations \<Rightarrow> int \<Rightarrow> syscall list" where
  "size_calls aop nbd =
     (if aop_blksize aop \<noteq> 0 then [Ioctl nbd NBD_SET_BLKSIZE (ucast (aop_blksize aop))] else []) @
     (if aop_size aop \<noteq> 0 then [Ioctl nbd NBD_SET_SIZE (aop_size aop)] else []) @
     (if aop_size_blocks aop \<noteq> 0 then [Ioctl nbd NBD_SET_SIZE_BLOCKS (aop_size_blocks aop)] else [])"

definition setup_calls :: "string \<Rightarrow> 's buse_operations \<Rightarrow> int \<Rightarrow> syscall list" where
  "setup_calls dev_file aop nbd = [Socketpair, Open dev_file] @ size_calls aop nbd @ [Ioctl nbd NBD_CLEAR_SOCK 0, Fork]"

definition child_calls :: "int \<times> int \<Rightarrow> int \<Rightarrow> syscall list" where
  "child_calls sp nbd =
     [Sigfillset, Sigprocmask, Close (fst sp), Ioctl nbd NBD_SET_SOCK (word_of_int (snd sp)),
      Ioctl nbd NBD_SET_FLAGS 0x24, Ioctl nbd NBD_DO_IT 0, Ioctl nbd NBD_CLEAR_QUE 0, Ioctl nbd NBD_CLEAR_SOCK 0]"

definition parent_calls :: "int \<times> int \<Rightarrow> int \<Rightarrow> int \<Rightarrow> syscall list" where
  "parent_calls sp pid status =
     [Sigemptyset, Sigaddset SIGINT, Sigaddset SIGTERM, Sigaction SIGINT, Sigaction SIGTERM, Close (snd sp), Close (fst sp)] @
     (if status = 0 then [Waitpid pid] else [])"

lemma assert_call_obliging:
  "obliging nbd pid k \<Longrightarrow> assert_call k (Ioctl n q x) tr = (Inr (), tr @ [(Ioctl n q x, 0)])"
  by (simp add: assert_call_def obliging_def sysret_def)

lemma set_sizes_obliging:
  "obliging nbd pid k \<Longrightarrow> set_sizes k aop n tr = (Inr (), tr @ map (\<lambda>c. (c, 0)) (size_calls aop n))"
  by (simp add: set_sizes_def size_calls_def sysbind_def assert_call_obliging sysret_def)

lemma buse_main_setup:
  assumes "obliging nbd pid k" "nbd \<noteq> -1"
  shows "\<exists>tr1. map fst tr1 = map fst tr @ setup_calls dev_file aop nbd \<and>
    buse_main k sp wstatus serve dev_file aop d w tr =
      (if pid = 0 then sysbind (buse_child k sp nbd) (\<lambda>e. sysret (e, d, w)) tr1
       else buse_parent k wstatus serve sp nbd pid d w tr1)"
proof -
  let ?tr0 = "tr @ [(Socketpair, 0), (Open dev_file, nbd)]"
  let ?tr1 = "?tr0 @ map (\<lambda>c. (c, 0)) (size_calls aop nbd) @ [(Ioctl nbd NBD_CLEAR_SOCK 0, 0), (Fork, pid)]"
  have k: "k tr' Socketpair = 0" "k tr' (Open f) = nbd" "k tr' Fork = pid" for tr' f
    using assms(1) by (simp_all add: obliging_def)
  have "buse_main k sp wstatus serve dev_file aop d w tr =
      (if pid = 0 then sysbind (buse_child k sp nbd) (\<lambda>e. sysret (e, d, w)) ?tr1
       else buse_parent k wstatus serve sp nbd pid d w ?tr1)"
    using assms(2) by (simp add: buse_main_def k)
      (simp add: sysbind_def set_sizes_obliging[OF assms(1)] assert_call_obliging[OF assms(1)] call_def k)
  moreover have "map fst ?tr1 = map fst tr @ setup_calls dev_file aop nbd" by (simp add: setup_calls_def comp_def)
  ultimately show ?thesis by blast
qed

lemma buse_main_obliging:
  assumes "obliging nbd pid k" and "nbd \<noteq> -1" and "serve w = Inr (status, w')"
  shows "\<exists>tr'. map fst tr' = map fst tr @ setup_calls dev_file aop nbd @
      (if pid = 0 then child_calls sp nbd else parent_calls sp pid status) \<and>
    buse_main k sp wstatus serve dev_file aop (-1) w tr =
      (if pid = 0 then (Inr (Exits 0, -1, w), tr')
       else if pid = -1 then (Inr (Returns (if status \<noteq> 0 then status else EXIT_FAILURE), nbd, w'), tr')
       else (Inr (Returns (if status \<noteq> 0 then status else WEXITSTATUS (wstatus tr')), nbd, w'), tr'))"
proof -
  obtain tr1 where tr1: "map fst tr1 = map fst tr @ setup_calls dev_file aop nbd"
    and m: "buse_main k sp wstatus serve dev_file aop (-1) w tr =
      (if pid = 0 then sysbind (buse_child k sp nbd) (\<lambda>e. sysret (e, -1, w)) tr1
       else buse_parent k wstatus serve sp nbd pid (-1) w tr1)"
    using buse_main_setup[OF assms(1,2), of tr dev_file aop sp wstatus serve "-1" w] by auto
  note o = assms(1)[unfolded obliging_def, rule_format]
  show ?thesis
  proof (cases "pid = 0")
    case True
    then show ?thesis unfolding m
      by (simp add: tr1 buse_child_def child_calls_def sysbind_def call_def o sysret_def NBD_FLAG_SEND_TRIM_def NBD_FLAG_SEND_FLUSH_def)
  next
    case False
    then show ?thesis unfolding m
      by (simp add: tr1 buse_parent_def parent_calls_def o set_sigaction_def assms(3) sysret_def EXIT_SUCCESS_def
          stored_def sysbind_def[of "stored wstatus"])
  qed
qed

text \<open>
  On a kernel that does as asked the child announces the size, gives its end of the socket pair to
  the kernel with the flush and trim flags, stays in \<open>NBD_DO_IT\<close>, clears the device and exits with
  0; the parent installs its handlers, serves, closes both ends, and returns the
  status of the server if it is not 0, and otherwise the exit status of the child. These are
  all the calls the two make, in this order.
\<close>
theorem buse_main_calls:
  assumes "obliging nbd pid k" and "nbd \<noteq> -1" and "serve w = Inr (status, w')"
  shows "\<exists>tr. map fst tr = setup_calls dev_file aop nbd @
      (if pid = 0 then child_calls sp nbd else parent_calls sp pid status) \<and>
    buse_main k sp wstatus serve dev_file aop (-1) w [] =
      (if pid = 0 then (Inr (Exits 0, -1, w), tr)
       else if pid = -1 then (Inr (Returns (if status \<noteq> 0 then status else EXIT_FAILURE), nbd, w'), tr)
       else (Inr (Returns (if status \<noteq> 0 then status else WEXITSTATUS (wstatus tr)), nbd, w'), tr))"
  using buse_main_obliging[where serve = serve and w = w, OF assms, of "[]" dev_file aop sp wstatus]
  by (simp only: list.map append_Nil)

theorem buse_main_calls_witness:
  "\<exists>tr. map fst tr = [Socketpair, Open ''/dev/nbd0'', Ioctl 3 NBD_SET_SIZE 12, Ioctl 3 NBD_CLEAR_SOCK 0, Fork, Sigemptyset,
      Sigaddset 2, Sigaddset 15, Sigaction 2, Sigaction 15, Close 5, Close 4, Waitpid 77] \<and>
    buse_main (\<lambda>tr c. case c of Open f \<Rightarrow> 3 | Fork \<Rightarrow> 77 | Waitpid p \<Rightarrow> p | _ \<Rightarrow> 0) (4, 5) (\<lambda>_. 256) (\<lambda>w. Inr (0, w)) ''/dev/nbd0''
      \<lparr>aop_read = None, aop_write = None, aop_disc = None, aop_flush = None, aop_trim = None, aop_size = 12, aop_blksize = 0, aop_size_blocks = 0\<rparr>
      (-1) () [] = (Inr (Returns 1, 3, ()), tr)"
proof -
  let ?k = "\<lambda>tr c. case c of Open f \<Rightarrow> 3 | Fork \<Rightarrow> 77 | Waitpid p \<Rightarrow> p | _ \<Rightarrow> (0 :: int)"
  have "obliging 3 77 ?k" by (simp add: obliging_def)
  from buse_main_calls[OF this, of "\<lambda>w. Inr (0, w)" "()" 0 "()" "''/dev/nbd0''"
      "\<lparr>aop_read = None, aop_write = None, aop_disc = None, aop_flush = None, aop_trim = None, aop_size = 12, aop_blksize = 0, aop_size_blocks = 0\<rparr>"
      "(4, 5)" "\<lambda>_. 256"] show ?thesis
    by (simp add: setup_calls_def size_calls_def parent_calls_def SIGINT_def SIGTERM_def WEXITSTATUS_def)
qed

subsection \<open>Any kernel\<close>

text \<open>
  The order the kernel driver relies on, checked along a trace: \<open>NBD_DO_IT\<close> only behind a
  successful \<open>NBD_SET_SOCK\<close>.
\<close>

fun socket_given :: "bool \<Rightarrow> syscall \<times> int \<Rightarrow> bool" where
  "socket_given g (Ioctl n NBD_SET_SOCK x, r) \<longleftrightarrow> g \<or> r \<noteq> -1"
| "socket_given g _ = g"

fun starts_io :: "syscall \<times> int \<Rightarrow> bool" where
  "starts_io (Ioctl n NBD_DO_IT x, r) = True"
| "starts_io _ = False"

fun socket_first :: "bool \<Rightarrow> trace \<Rightarrow> bool" where
  "socket_first g [] = True"
| "socket_first g (e # tr) \<longleftrightarrow> (starts_io e \<longrightarrow> g) \<and> socket_first (socket_given g e) tr"

lemma socket_first_snoc: "socket_first g (tr @ [e]) \<longleftrightarrow> socket_first g tr \<and> (starts_io e \<longrightarrow> fold (\<lambda>e g. socket_given g e) tr g)"
  by (induction tr arbitrary: g) auto

lemma fold_snoc_given: "fold (\<lambda>e g. socket_given g e) (tr @ [e]) g = socket_given (fold (\<lambda>e g. socket_given g e) tr g) e"
  by simp

text \<open>A program keeps the order when it neither starts the device nor touches its socket.\<close>

definition keeps_order :: "'a sys \<Rightarrow> bool" where
  "keeps_order m \<longleftrightarrow> (\<forall>tr. socket_first False tr \<longrightarrow> socket_first False (snd (m tr)))"

lemma keeps_order_ret [simp]: "keeps_order (sysret x)" "keeps_order (lift r)"
  by (simp_all add: keeps_order_def sysret_def lift_def)

lemma keeps_order_call [simp]: "(\<And>r. \<not> starts_io (c, r)) \<Longrightarrow> keeps_order (call k c)"
  by (simp add: keeps_order_def call_def socket_first_snoc)

lemma keeps_order_bind: "keeps_order m \<Longrightarrow> (\<And>x. keeps_order (f x)) \<Longrightarrow> keeps_order (sysbind m f)"
  unfolding keeps_order_def sysbind_def by (auto split: prod.splits sum.splits)

lemma keeps_order_if: "keeps_order m \<Longrightarrow> keeps_order m' \<Longrightarrow> keeps_order (if b then m else m')"
  by simp

lemma keeps_order_stored [simp]: "keeps_order (stored f)"
  by (simp add: keeps_order_def stored_def)

lemma keeps_order_case_prod: "(\<And>a b. keeps_order (f a b)) \<Longrightarrow> keeps_order (case p of (a, b) \<Rightarrow> f a b)"
  by (cases p) simp

lemmas keeps_order_intros = keeps_order_bind keeps_order_if keeps_order_case_prod

lemma buse_child_keeps_order: "keeps_order (buse_child k sp nbd)"
  unfolding keeps_order_def
proof (intro allI impI)
  fix tr assume "socket_first False tr"
  then show "socket_first False (snd (buse_child k sp nbd tr))"
    by (simp add: buse_child_def sysret_def Let_def socket_first_snoc del: append_assoc)
qed

lemma assert_call_keeps_order: "(\<And>r. \<not> starts_io (c, r)) \<Longrightarrow> keeps_order (assert_call k c)"
  unfolding assert_call_def by (intro keeps_order_bind) simp_all

lemma set_sizes_keeps_order: "keeps_order (set_sizes k aop nbd)"
  unfolding set_sizes_def by (intro keeps_order_bind keeps_order_if assert_call_keeps_order) simp_all

lemma buse_parent_keeps_order: "keeps_order (buse_parent k wstatus serve sp nbd pid d w)"
  unfolding buse_parent_def Let_def set_sigaction_def by (intro keeps_order_intros) simp_all

text \<open>
  C35: whatever the kernel answers, in either process the driver is started only after it has been
  given the socket, and a failure on the way keeps the child from starting it.
\<close>
theorem driver_started_with_socket: "socket_first False (snd (buse_main k sp wstatus serve dev_file aop d w []))"
proof -
  have "keeps_order (buse_main k sp wstatus serve dev_file aop d w)"
    unfolding buse_main_def
    by (intro keeps_order_intros set_sizes_keeps_order assert_call_keeps_order buse_child_keeps_order buse_parent_keeps_order) simp_all
  then show ?thesis unfolding keeps_order_def by (metis socket_first.simps(1))
qed

text \<open>A child that a signal has killed has the exit status 0: the parent reports success.\<close>

lemma killed_child_reported_as_success: "WEXITSTATUS 9 = 0"
  by (simp add: WEXITSTATUS_def)

subsection \<open>The signal handler\<close>

fun signals :: "kernel \<Rightarrow> nat \<Rightarrow> int \<Rightarrow> int sys" where
  "signals k 0 dev = sysret dev"
| "signals k (Suc n) dev = sysbind (disconnect_nbd k dev) (signals k n)"

lemma signals_off: "signals k n (-1) tr = (Inr (-1), tr)"
  by (induction n) (simp_all add: disconnect_nbd_def sysret_def)

text \<open>
  The handler asks the driver to disconnect until a request succeeds and never again: of the
  requests any number of signals makes, only the last can have succeeded, and then
  \<open>nbd_dev_to_disconnect\<close> is reset; otherwise there is one request for every signal.
\<close>
theorem disconnect_requested_once:
  assumes "nbd \<noteq> -1"
  shows "\<exists>rs d. signals k n nbd tr = (Inr d, tr @ map (\<lambda>r. (Ioctl nbd NBD_DISCONNECT 0, r)) rs) \<and>
    (if d = -1 then rs \<noteq> [] \<and> last rs \<noteq> -1 \<and> (\<forall>r \<in> set (butlast rs). r = -1)
     else d = nbd \<and> length rs = n \<and> (\<forall>r \<in> set rs. r = -1))"
proof (induction n arbitrary: tr)
  case 0
  show ?case using assms by (intro exI[of _ "[]"] exI[of _ nbd]) (simp add: sysret_def)
next
  case (Suc n)
  let ?r = "k tr (Ioctl nbd NBD_DISCONNECT 0)" and ?tr = "tr @ [(Ioctl nbd NBD_DISCONNECT 0, k tr (Ioctl nbd NBD_DISCONNECT 0))]"
  have step: "signals k (Suc n) nbd tr = signals k n (if ?r = -1 then nbd else -1) ?tr"
    using assms by (simp add: disconnect_nbd_def sysbind_def call_def sysret_def)
  show ?case
  proof (cases "?r = -1")
    case True
    obtain rs d where s: "signals k n nbd ?tr = (Inr d, ?tr @ map (\<lambda>r. (Ioctl nbd NBD_DISCONNECT 0, r)) rs)"
      and d: "if d = -1 then rs \<noteq> [] \<and> last rs \<noteq> -1 \<and> (\<forall>r \<in> set (butlast rs). r = -1) else d = nbd \<and> length rs = n \<and> (\<forall>r \<in> set rs. r = -1)"
      using Suc.IH[of ?tr] by blast
    have "signals k (Suc n) nbd tr = (Inr d, tr @ map (\<lambda>r. (Ioctl nbd NBD_DISCONNECT 0, r)) (-1 # rs))"
      unfolding step using True s by simp
    moreover have "if d = -1 then -1 # rs \<noteq> [] \<and> last (-1 # rs) \<noteq> -1 \<and> (\<forall>r \<in> set (butlast (-1 # rs)). r = -1)
        else d = nbd \<and> length (-1 # rs) = Suc n \<and> (\<forall>r \<in> set (-1 # rs). r = -1)"
      using d by (cases "d = -1") simp_all
    ultimately show ?thesis by blast
  next
    case False
    with step show ?thesis by (intro exI[of _ "[?r]"] exI[of _ "-1"]) (simp add: signals_off)
  qed
qed

theorem disconnect_requested_once_witness:
  "\<exists>rs d. signals (\<lambda>tr c. if length tr < 2 then -1 else 0) 5 3 [] = (Inr d, map (\<lambda>r. (Ioctl 3 NBD_DISCONNECT 0, r)) rs) \<and> length rs \<le> 5"
proof -
  from disconnect_requested_once[of 3 "\<lambda>tr c. if length tr < 2 then -1 else 0" 5 "[]"]
  obtain rs d where r: "signals (\<lambda>tr c. if length tr < 2 then -1 else 0) 5 3 [] = (Inr d, map (\<lambda>r. (Ioctl 3 NBD_DISCONNECT 0, r)) rs)" by auto
  then have "length (snd (signals (\<lambda>tr c. if length tr < 2 then -1 else 0) 5 3 [])) = length rs" by simp
  then have "length rs = 3" by (simp add: eval_nat_numeral disconnect_nbd_def sysbind_def call_def sysret_def)
  with r show ?thesis by auto
qed

end
