(* ===== verification/Startup.thy ===== *)
theory Startup
  imports Raz_Nbd Socket_Setup Buse_Main
begin

text \<open>
  How the processes come up: the sockets the proxies create (\<open>src/inputproxy.cpp\<close>,
  \<open>src/raid01.cpp\<close>), \<open>NBD::Run\<close> from the arguments to \<open>buse_main\<close>, and \<open>NBD::MKFSAndMount\<close>
  (\<open>src/raz_nbd.cpp\<close>). A thread that is started and detached is a call of the trace.
\<close>

definition TCP_PORT :: string where "TCP_PORT = ''8080''"
definition UDP_PORT_MASTER :: string where "UDP_PORT_MASTER = ''6060''"

subsection \<open>Sockets of the proxies\<close>

definition MinionProxy_ctor :: "kernel \<Rightarrow> net \<Rightarrow> string \<Rightarrow> string \<Rightarrow> asocket sys" where
  "MinionProxy_ctor k net port ip = ASocket_ctor k net SOCK_DGRAM port ip CLINT (-1)"

definition Raid01_sockets :: "kernel \<Rightarrow> net \<Rightarrow> asocket list sys" where
  "Raid01_sockets k net =
     sysbind (MinionProxy_ctor k net UDP_PORT_MINION_1 ''127.0.1.1'') (\<lambda>p1.
     sysbind (MinionProxy_ctor k net UDP_PORT_MINION_2 ''127.0.1.1'') (\<lambda>p2.
     sysbind (MinionProxy_ctor k net UDP_PORT_MINION_3 ''127.0.1.1'') (\<lambda>p3.
       sysret [p1, p2, p3])))"

definition ResponseProxy_socket :: "kernel \<Rightarrow> net \<Rightarrow> asocket sys" where
  "ResponseProxy_socket k net = ASocket_ctor k net SOCK_DGRAM UDP_PORT_MASTER ''127.0.1.1'' SRVR (-1)"

text \<open>The two sockets of a minion: the one it receives on and the one it answers through.\<close>

definition MasterProxy_sockets :: "kernel \<Rightarrow> net \<Rightarrow> string \<Rightarrow> (asocket \<times> asocket) sys" where
  "MasterProxy_sockets k net sock_port =
     sysbind (ASocket_ctor k net SOCK_DGRAM sock_port ''127.0.1.1'' SRVR (-1)) (\<lambda>s.
     sysbind (ASocket_ctor k net SOCK_DGRAM UDP_PORT_MASTER ''127.0.1.1'' CLINT (-1)) (\<lambda>r.
       sysret (s, r)))"

text \<open>The port a minion gets from its first argument; without one the program reads through a null pointer.\<close>

definition minion_sock_port :: "string option \<Rightarrow> string result" where
  "minion_sock_port argv1 =
     (case argv1 of
        None \<Rightarrow> Inl Undefined
      | Some a \<Rightarrow> Inr (if a \<noteq> ''1'' then if a = ''2'' then UDP_PORT_MINION_2 else UDP_PORT_MINION_3
                       else UDP_PORT_MINION_1))"

definition NBDProxy_ctor :: "kernel \<Rightarrow> net \<Rightarrow> asocket sys" where
  "NBDProxy_ctor k net =
     sysbind (ASocket_ctor k net SOCK_STREAM TCP_PORT ''0.0.0.0'' SRVR (-1)) (\<lambda>m_socket.
     sysbind (TCPListen k m_socket) (\<lambda>_.
     sysbind (call k (Spawn ''NBD::Run'')) (\<lambda>_.
     sysbind (TCPAccept k m_socket) (\<lambda>(_, m_socket).
     sysbind (call k (Spawn ''NBD::MKFSAndMount'')) (\<lambda>_.
       sysret m_socket)))))"

definition NBDProxy_GetSocketFD :: "asocket \<Rightarrow> int" where
  "NBDProxy_GetSocketFD m_socket = GetChildSocketFD m_socket"

subsection \<open>NBD::Run and the mount\<close>

definition NBD_Run ::
    "kernel \<Rightarrow> (int \<times> int) \<Rightarrow> (trace \<Rightarrow> int) \<Rightarrow> ('s buse_operations \<Rightarrow> 'w \<Rightarrow> (int \<times> 'w) result) \<Rightarrow> asocket \<Rightarrow>
      's buse_operations \<Rightarrow> int \<Rightarrow> 'w \<Rightarrow> (proc_end \<times> int \<times> 'w) sys" where
  "NBD_Run k sp wstatus server m_tcp_socket aop nbd_dev_to_disconnect w =
     sysbind (lift NBD_Run_arguments) (\<lambda>arguments.
     case arguments of
       None \<Rightarrow> sysret (Returns (-1), nbd_dev_to_disconnect, w)
     | Some (arguments_size, device, _) \<Rightarrow>
         let aop = aop\<lparr>aop_size := arguments_size\<rparr>
         in sysbind (TCPConnect k m_tcp_socket) (\<lambda>_.
            buse_main k sp wstatus (server aop) device aop nbd_dev_to_disconnect w))"

definition IsBusy :: "kernel \<Rightarrow> bool sys" where
  "IsBusy k = sysbind (call k (Access ''/dev/nbd0'')) (\<lambda>r. sysret (r \<noteq> 0))"

text \<open>The loop polls until the device file is there, possibly for ever: with fuel for the polls.\<close>

fun busy_loop :: "nat \<Rightarrow> kernel \<Rightarrow> trace \<Rightarrow> (unit result \<times> trace) option" where
  "busy_loop 0 k tr = None"
| "busy_loop (Suc fuel) k tr =
     (case IsBusy k tr of
        (Inl e, tr) \<Rightarrow> Some (Inl e, tr)
      | (Inr busy, tr) \<Rightarrow>
          if busy then busy_loop fuel k (snd (call k (Sleep 1) tr)) else Some (Inr (), tr))"

definition default_loc :: loc where "default_loc = Loc ''Not Specified'' ''Not Specified'' 0"

definition run_checked :: "kernel \<Rightarrow> string \<Rightarrow> unit sys" where
  "run_checked k cmd =
     sysbind (call k (System cmd)) (\<lambda>r. lift (snd (NotEqualToCheck r 0 ''mkfs.ext2'' default_loc)))"

definition MKFSAndMount :: "nat \<Rightarrow> kernel \<Rightarrow> trace \<Rightarrow> (unit result \<times> trace) option" where
  "MKFSAndMount fuel k tr =
     (case busy_loop fuel k (snd (call k (Sleep 5) tr)) of
        None \<Rightarrow> None
      | Some (Inl e, tr) \<Rightarrow> Some (Inl e, tr)
      | Some (Inr _, tr) \<Rightarrow>
          Some (sysbind (run_checked k ''mkfs.ext2  /dev/nbd0'') (\<lambda>_. run_checked k ''mount /dev/nbd0  /mnt'') tr))"

subsection \<open>Master and minions find each other\<close>

text \<open>The address of a UDP socket, when the port is not mistaken for an address by \<open>inet_pton\<close>.\<close>

lemma udp_socket_addr:
  assumes "ASocket_ctor k net SOCK_DGRAM port ip role fd tr = (Inr s, tr')" "inet_pton net port = None" "stol port = Inr p"
  shows "sk_addr s = Some \<lparr>sin_family = AF_INET, sin_port = htons (word_of_int p), sin_addr = inet_addr net ip\<rparr>"
  using assms
  by (cases role) (auto simp: ASocket_ctor_def ASocket_udp_def sysbind_check sysret_def Let_def split: if_splits)

lemma port_numbers:
  "stol UDP_PORT_MINION_1 = Inr 7070" "stol UDP_PORT_MINION_2 = Inr 7080" "stol UDP_PORT_MINION_3 = Inr 7090"
  "stol UDP_PORT_MASTER = Inr 6060"
  by (simp_all add: stol_def is_dec_def port_defs UDP_PORT_MASTER_def)

definition minion_port :: "nat \<Rightarrow> string" where
  "minion_port i = [UDP_PORT_MINION_1, UDP_PORT_MINION_2, UDP_PORT_MINION_3] ! i"

definition minion_arg :: "nat \<Rightarrow> string" where
  "minion_arg i = [''1'', ''2'', ''3''] ! i"

lemma below_3: "i < 3 \<Longrightarrow> i = 0 \<or> i = 1 \<or> i = (2 :: nat)"
  by linarith

definition port_value :: "nat \<Rightarrow> int" where
  "port_value i = [7070, 7080, 7090] ! i"

lemma minion_port_value: "i < 3 \<Longrightarrow> stol (minion_port i) = Inr (port_value i)"
  by (drule below_3) (auto simp: minion_port_def port_value_def port_numbers)

lemma Raid01_sockets_nth:
  assumes "Raid01_sockets k net tr = (Inr ps, tr')" "i < 3"
  shows "\<exists>tr1 tr2. ASocket_ctor k net SOCK_DGRAM (minion_port i) ''127.0.1.1'' CLINT (-1) tr1 = (Inr (ps ! i), tr2)"
proof -
  obtain p1 p2 p3 t1 t2 where "ps = [p1, p2, p3]"
    "MinionProxy_ctor k net UDP_PORT_MINION_1 ''127.0.1.1'' tr = (Inr p1, t1)"
    "MinionProxy_ctor k net UDP_PORT_MINION_2 ''127.0.1.1'' t1 = (Inr p2, t2)"
    "MinionProxy_ctor k net UDP_PORT_MINION_3 ''127.0.1.1'' t2 = (Inr p3, tr')"
    using assms(1) unfolding Raid01_sockets_def by (elim sysbind_InrD) (auto simp: sysret_def)
  then show ?thesis using below_3[OF assms(2)] unfolding MinionProxy_ctor_def minion_port_def
    by (elim disjE) (simp_all, blast+)
qed

text \<open>
  C34: master and minions are wired up: the address to which the master's proxy \<open>i\<close> sends is the
  one minion \<open>i\<close>, started with the matching argument, receives on and no other minion's, and
  every minion answers to the address the master receives responses on. This needs
  \<open>inet_pton\<close>, which the constructor calls with the port, to refuse it.
\<close>
theorem processes_are_connected:
  assumes "\<forall>i < 3. inet_pton net (minion_port i) = None" and "inet_pton net UDP_PORT_MASTER = None"
    and "Raid01_sockets k net tr = (Inr ps, tr1)" and "ResponseProxy_socket k net tr2 = (Inr rs, tr3)"
    and "i < 3" and "j < 3" and "minion_sock_port (Some (minion_arg j)) = Inr port"
    and "MasterProxy_sockets k' net port tr4 = (Inr (receives, answers), tr5)"
  shows "(sk_addr (ps ! i) = sk_addr receives \<longleftrightarrow> i = j) \<and> sk_addr answers = sk_addr rs"
proof -
  let ?a = "\<lambda>p. Some \<lparr>sin_family = AF_INET, sin_port = htons (word_of_int p), sin_addr = inet_addr net ''127.0.1.1''\<rparr>"
  have port: "port = minion_port j"
    using below_3[OF assms(6)] assms(7) by (elim disjE) (simp_all add: minion_sock_port_def minion_port_def minion_arg_def)
  obtain tr6 where m: "ASocket_ctor k' net SOCK_DGRAM port ''127.0.1.1'' SRVR (-1) tr4 = (Inr receives, tr6)"
    "ASocket_ctor k' net SOCK_DGRAM UDP_PORT_MASTER ''127.0.1.1'' CLINT (-1) tr6 = (Inr answers, tr5)"
    using assms(8) unfolding MasterProxy_sockets_def by (elim sysbind_InrD) (auto simp: sysret_def)
  have "sk_addr receives = ?a (port_value j)"
    using udp_socket_addr[OF m(1)[unfolded port] _ minion_port_value[OF assms(6)]] assms(1,6) by simp
  moreover have "sk_addr answers = ?a 6060" using udp_socket_addr[OF m(2) assms(2) port_numbers(4)] .
  moreover have "sk_addr rs = ?a 6060"
    using udp_socket_addr[OF assms(4)[unfolded ResponseProxy_socket_def] assms(2) port_numbers(4)] .
  moreover have "sk_addr (ps ! i) = ?a (port_value i)"
    using Raid01_sockets_nth[OF assms(3,5)] udp_socket_addr[OF _ _ minion_port_value[OF assms(5)]] assms(1,5) by blast
  moreover have "htons (word_of_int (port_value i)) = htons (word_of_int (port_value j)) \<longleftrightarrow> i = j"
    using below_3[OF assms(5)] below_3[OF assms(6)] by (elim disjE) (simp_all add: port_value_def htons_def)
  ultimately show ?thesis by simp
qed

theorem processes_are_connected_witness:
  "\<exists>ps rs receives answers. Raid01_sockets good_kernel demo_net [] = (Inr ps, snd (Raid01_sockets good_kernel demo_net [])) \<and>
     fst (ResponseProxy_socket good_kernel demo_net []) = Inr rs \<and>
     fst (MasterProxy_sockets good_kernel demo_net UDP_PORT_MINION_2 []) = Inr (receives, answers) \<and>
     sk_addr (ps ! 1) = sk_addr receives \<and> sk_addr (ps ! 2) \<noteq> sk_addr receives \<and> sk_addr answers = sk_addr rs"
proof -
  have n: "\<forall>i < 3. inet_pton demo_net (minion_port i) = None" "inet_pton demo_net UDP_PORT_MASTER = None" by (simp_all add: demo_net_def)
  have a: "\<exists>s tr'. ASocket_ctor good_kernel demo_net SOCK_DGRAM port ip role (-1) tr = (Inr s, tr')" if "stol port = Inr p" for port ip role tr p
    by (cases role) (simp_all add: ASocket_ctor_def ASocket_udp_def sysbind_check that sysret_def Let_def)
  note ports = port_numbers[THEN a]
  have "\<exists>ps tr1. Raid01_sockets good_kernel demo_net [] = (Inr ps, tr1)"
    unfolding Raid01_sockets_def MinionProxy_ctor_def by (intro sysbind_returns ports) (simp add: sysret_def)
  then obtain ps tr1 where ps: "Raid01_sockets good_kernel demo_net [] = (Inr ps, tr1)" by blast
  obtain rs tr3 where rs: "ResponseProxy_socket good_kernel demo_net [] = (Inr rs, tr3)"
    using ports(4) unfolding ResponseProxy_socket_def by blast
  have "\<exists>xy tr5. MasterProxy_sockets good_kernel demo_net UDP_PORT_MINION_2 [] = (Inr xy, tr5)"
    unfolding MasterProxy_sockets_def by (intro sysbind_returns ports) (simp add: sysret_def)
  then obtain x y tr5 where m: "MasterProxy_sockets good_kernel demo_net UDP_PORT_MINION_2 [] = (Inr (x, y), tr5)" by auto
  have p: "minion_sock_port (Some (minion_arg 1)) = Inr UDP_PORT_MINION_2" by (simp add: minion_sock_port_def minion_arg_def)
  show ?thesis
    using processes_are_connected[OF n ps rs, of 1 1, OF _ _ p m] processes_are_connected[OF n ps rs, of 2 1, OF _ _ p m] ps rs m
    by simp
qed

subsection \<open>The block device comes up\<close>

text \<open>
  The server of the block device listens before the thread that connects to it is started, and
  the file system is made and mounted only after the connection has been accepted; the
  descriptor the reactor listens on is the accepted one.
\<close>
theorem NBDProxy_listens_first:
  assumes "NBDProxy_ctor k net tr = (Inr s, tr')"
  shows "\<exists>pre l a b. tr' = pre @ [(Listen (sk_fd s) 5, l), (Spawn ''NBD::Run'', a), (Accept (sk_fd s), NBDProxy_GetSocketFD s),
      (Spawn ''NBD::MKFSAndMount'', b)] \<and> 0 \<le> l \<and> 0 \<le> NBDProxy_GetSocketFD s"
proof -
  obtain m tr1 where "ASocket_ctor k net SOCK_STREAM TCP_PORT ''0.0.0.0'' SRVR (-1) tr = (Inr m, tr1)"
    and "sysbind (TCPListen k m) (\<lambda>_. sysbind (call k (Spawn ''NBD::Run'')) (\<lambda>_. sysbind (TCPAccept k m) (\<lambda>(_, m).
      sysbind (call k (Spawn ''NBD::MKFSAndMount'')) (\<lambda>_. sysret m)))) tr1 = (Inr s, tr')"
    using assms unfolding NBDProxy_ctor_def by (rule sysbind_InrD)
  then show ?thesis
    by (auto simp: TCPListen_def TCPAccept_def sysbind_def call_def check_result sysret_def
        NBDProxy_GetSocketFD_def GetChildSocketFD_def split: if_splits)
qed

theorem NBDProxy_listens_first_witness:
  "\<exists>pre l a b. snd (NBDProxy_ctor good_kernel demo_net []) =
     pre @ [(Listen 3 5, l), (Spawn ''NBD::Run'', a), (Accept 3, 4), (Spawn ''NBD::MKFSAndMount'', b)]"
proof -
  obtain s tr' where "NBDProxy_ctor good_kernel demo_net [] = (Inr s, tr')" "sk_fd s = 3" "NBDProxy_GetSocketFD s = 4"
    by (simp add: NBDProxy_ctor_def TCPListen_def TCPAccept_def ASocket_ctor_def ASocket_tcp_def demo_net_def check_result next_fd_def
        fds_def sysret_def sysbind_def call_def NBDProxy_GetSocketFD_def GetChildSocketFD_def)
  with NBDProxy_listens_first[OF this(1)] show ?thesis by auto
qed

text \<open>The size is for \<open>buse_main\<close> only: the server does not look at it.\<close>

lemma serve_request_size: "serve_request g (aop\<lparr>aop_size := n\<rparr>) = serve_request g aop"
  by (intro ext) (simp add: serve_request_def Let_def)

lemma serve_nbd_size: "serve_nbd g (aop\<lparr>aop_size := n\<rparr>) ios rx tx s = serve_nbd g aop ios rx tx s"
proof (induction g aop ios rx tx s rule: serve_nbd.induct)
  case (1 g aop ios rx tx s)
  show ?case
    by (subst (1 2) serve_nbd.simps) (auto simp: serve_request_size split: prod.splits intro!: bindE_cong 1)
qed

text \<open>\<open>serve_nbd\<close> as \<open>buse_main\<close> calls it: the state is what has been sent to the kernel, and the system.\<close>

definition server :: "(nat \<Rightarrow> byte) \<Rightarrow> io list \<Rightarrow> byte list \<Rightarrow> 's buse_operations \<Rightarrow> byte list \<times> 's \<Rightarrow> (int \<times> byte list \<times> 's) result" where
  "server g ios rx aop w = serve_nbd g aop ios rx (fst w) (snd w)"

definition good_kernel_nbd :: kernel where
  "good_kernel_nbd tr c = (case c of Open f \<Rightarrow> 3 | Fork \<Rightarrow> 77 | Waitpid p \<Rightarrow> p | _ \<Rightarrow> 0)"

definition demo_socket :: asocket where
  "demo_socket = \<lparr>sk_fd = 6, sk_addrinfo = Some [\<lparr>ai_family = AF_INET, ai_socktype = 1, ai_protocol = 6\<rparr>], sk_addr = None, sk_child = -1, sk_role = CLINT\<rparr>"

text \<open>
  C28: the whole block device process: \<open>NBD::Run\<close> connects to the master, announces a device of
  exactly the array's 12 MB to the kernel driver, and then answers any sequence of requests
  inside stripes with the byte stream of a zeroed block device of that size; when the kernel
  closes the connection it waits for the child and returns its exit status.
\<close>
theorem nbd_process_serves_device:
  assumes "\<forall>name bytes. fs name = Some bytes \<longrightarrow> length bytes < 2 ^ 63"
    and "hosts_ok h hm limit" and "limit < 2 ^ 31 - 41"
    and "list_all (cmd_ok (fits limit)) cs" and "whole_headers ios"
    and "obliging nbd pid k" and "nbd \<noteq> -1" and "0 < pid" and "sk_addrinfo sock = Some (a # as)"
  shows "\<exists>sys tr. NBD_Run k sp wstatus (server g ios (request_stream cs)) sock (m_aop h hm) (-1) ([], start fs) [] =
      (Inr (Returns (WEXITSTATUS (wstatus tr)), nbd, fst (dev_serve cs (\<lambda>_. 0)), sys), tr) \<and>
    abs_device sys = snd (dev_serve cs (\<lambda>_. 0)) \<and>
    map fst tr = [Connect (sk_fd sock), Socketpair, Open ''/dev/nbd0'', Ioctl nbd NBD_SET_SIZE (of_nat raid_capacity),
      Ioctl nbd NBD_CLEAR_SOCK 0, Fork] @ parent_calls sp pid 0"
proof -
  let ?aop = "(m_aop h hm)\<lparr>aop_size := 12582912\<rparr>"
  have "serving h hm limit (start fs)"
    using assms(2,3) idle_start[OF assms(1)] mirrored_start(1)[OF assms(1)] by (simp add: serving_def)
  from nbd.serve_simulates[OF assms(4) this assms(5), of g "[]"] obtain sys where
    sys: "serve_nbd g (m_aop h hm) ios (request_stream cs) [] (start fs) = Inr (0, fst (dev_serve cs (\<lambda>_. 0)), sys)"
      "abs_device sys = snd (dev_serve cs (\<lambda>_. 0))"
    unfolding mirrored_start(2)[OF assms(1)] by auto
  have "server g ios (request_stream cs) ?aop ([], start fs) = Inr (0, fst (dev_serve cs (\<lambda>_. 0)), sys)"
    by (simp add: server_def serve_nbd_size sys(1))
  from buse_main_obliging[where serve = "server g ios (request_stream cs) ?aop" and w = "([], start fs)", OF assms(6,7) this,
      of "[(Connect (sk_fd sock), 0)]" "''/dev/nbd0''" ?aop sp wstatus] assms(8)
  obtain tr where tr: "map fst tr = [Connect (sk_fd sock)] @ setup_calls ''/dev/nbd0'' ?aop nbd @ parent_calls sp pid 0"
    "buse_main k sp wstatus (server g ios (request_stream cs) ?aop) ''/dev/nbd0'' ?aop (-1) ([], start fs) [(Connect (sk_fd sock), 0)] =
      (Inr (Returns (WEXITSTATUS (wstatus tr)), nbd, fst (dev_serve cs (\<lambda>_. 0)), sys), tr)" by auto
  have c: "k [] (Connect (sk_fd sock)) = 0" using assms(6) by (simp add: obliging_def)
  have "of_nat raid_capacity = (12582912 :: u64)" by (simp add: raid_capacity_val)
  then have "map fst tr = [Connect (sk_fd sock), Socketpair, Open ''/dev/nbd0'', Ioctl nbd NBD_SET_SIZE (of_nat raid_capacity),
      Ioctl nbd NBD_CLEAR_SOCK 0, Fork] @ parent_calls sp pid 0"
    unfolding tr(1) by (simp add: setup_calls_def size_calls_def m_aop_def)
  moreover have "NBD_Run k sp wstatus (server g ios (request_stream cs)) sock (m_aop h hm) (-1) ([], start fs) [] =
      (Inr (Returns (WEXITSTATUS (wstatus tr)), nbd, fst (dev_serve cs (\<lambda>_. 0)), sys), tr)"
    unfolding NBD_Run_def NBD_Run_arguments_val TCPConnect_def assms(9) using tr(2)
    by (simp add: Let_def c sysbind_def call_def sysret_def lift_def)
  ultimately show ?thesis using sys(2) by blast
qed

theorem nbd_process_serves_device_witness:
  "\<exists>sys tr. NBD_Run good_kernel_nbd (4, 5) (\<lambda>_. 0)
      (server (\<lambda>_. 7) [Part 30, Part 27]
        (request_stream [([1, 1, 1, 1, 1, 1, 1, 1], K_write 4096 [1, 2, 3, 4, 5, 6, 7, 8]), ([2, 2, 2, 2, 2, 2, 2, 2], K_read 4100 3)]))
      demo_socket (m_aop demo_host (\<lambda>_. demo_host)) (-1) ([], start Map.empty) [] =
    (Inr (Returns 0, 3, ok_reply [1, 1, 1, 1, 1, 1, 1, 1] @ ok_reply [2, 2, 2, 2, 2, 2, 2, 2] @ [5, 6, 7], sys), tr)"
proof -
  let ?cs = "[([1, 1, 1, 1, 1, 1, 1, 1], K_write 4096 [1, 2, 3, 4, 5, 6, 7, 8]), ([2, 2, 2, 2, 2, 2, 2, 2], K_read 4100 3)]"
  have fs: "\<forall>name bytes. (Map.empty :: string \<rightharpoonup> byte list) name = Some bytes \<longrightarrow> length bytes < 2 ^ 63" by simp
  have f: "list_all (cmd_ok (fits 4096)) ?cs"
    by (simp add: raid.in_stripe_def) (simp add: raid_capacity_val MINION_SIZE_val)
  have w: "whole_headers [Part 30, Part 27]" by (simp add: whole_headers_def sizeof_request_def)
  have o: "obliging 3 77 good_kernel_nbd" by (simp add: obliging_def good_kernel_nbd_def)
  have s: "sk_addrinfo demo_socket = Some (\<lparr>ai_family = AF_INET, ai_socktype = 1, ai_protocol = 6\<rparr> # [])" by (simp add: demo_socket_def)
  have out: "fst (dev_serve ?cs (\<lambda>_. 0)) = ok_reply [1, 1, 1, 1, 1, 1, 1, 1] @ ok_reply [2, 2, 2, 2, 2, 2, 2, 2] @ [5, 6, 7]"
    by (simp add: dev_read_def dev_write_def upt_conv_Cons nth_Cons')
  show ?thesis
    using nbd_process_serves_device[OF fs hosts_ok_demo[of 4096] _ f w o _ _ s, of "(4, 5)" "\<lambda>_. 0" "\<lambda>_. 7"] unfolding out
    by (auto simp: WEXITSTATUS_def)
qed

subsection \<open>Making and mounting the file system\<close>

definition polls :: "trace \<Rightarrow> nat" where
  "polls tr = length (filter (\<lambda>e. fst e = Access ''/dev/nbd0'') tr)"

text \<open>A device file that appears after \<open>n\<close> polls.\<close>

definition appears_after :: "nat \<Rightarrow> kernel \<Rightarrow> bool" where
  "appears_after n k \<longleftrightarrow> (\<forall>tr. k tr (Access ''/dev/nbd0'') = (if polls tr < n then -1 else 0))"

lemma busy_loop_polls:
  assumes "appears_after n k" "polls tr = n - m" "m \<le> n" "m < fuel"
  shows "\<exists>tr'. busy_loop fuel k tr = Some (Inr (), tr') \<and>
    map fst tr' = map fst tr @ concat (replicate m [Access ''/dev/nbd0'', Sleep 1]) @ [Access ''/dev/nbd0'']"
  using assms
proof (induction m arbitrary: tr fuel)
  case 0
  then obtain f where "fuel = Suc f" by (cases fuel) auto
  with 0 show ?case by (auto simp: IsBusy_def appears_after_def sysret_def)
next
  case (Suc m)
  then obtain f where f: "fuel = Suc f" "m < f" by (cases fuel) auto
  let ?tr = "tr @ [(Access ''/dev/nbd0'', -1)]"
  let ?tr' = "?tr @ [(Sleep 1, k ?tr (Sleep 1))]"
  have a: "k tr (Access ''/dev/nbd0'') = -1" using Suc.prems(1-3) by (simp add: appears_after_def)
  have "polls ?tr' = n - m" using Suc.prems(2,3) by (simp add: polls_def)
  from Suc.IH[OF Suc.prems(1) this _ f(2)] Suc.prems(3) obtain tr' where
    "busy_loop f k ?tr' = Some (Inr (), tr')"
    "map fst tr' = map fst ?tr' @ concat (replicate m [Access ''/dev/nbd0'', Sleep 1]) @ [Access ''/dev/nbd0'']" by auto
  then show ?case using a by (simp add: f(1) IsBusy_def sysret_def call_def)
qed

text \<open>
  Once the device file is there, after any number of polls, the waiting ends; then the file
  system is made, and it is mounted only if making it succeeded. Both commands run at most
  once, and a failure of either is thrown.
\<close>
theorem mounted_when_ready:
  assumes "appears_after n k" and "n < fuel"
  shows "\<exists>tr r m. MKFSAndMount fuel k [] =
      Some (if r = 0 \<and> m = 0 then Inr () else Inl (Runtime_error (CheckAndLog_PhraseLine ''mkfs.ext2'' default_loc @ '' FAIL'')),
        tr @ [(System ''mkfs.ext2  /dev/nbd0'', r)] @ (if r = 0 then [(System ''mount /dev/nbd0  /mnt'', m)] else [])) \<and>
    map fst tr = [Sleep 5] @ concat (replicate n [Access ''/dev/nbd0'', Sleep 1]) @ [Access ''/dev/nbd0'']"
proof -
  let ?tr0 = "[(Sleep 5, k [] (Sleep 5))]"
  obtain tr where tr: "busy_loop fuel k ?tr0 = Some (Inr (), tr)"
    "map fst tr = map fst ?tr0 @ concat (replicate n [Access ''/dev/nbd0'', Sleep 1]) @ [Access ''/dev/nbd0'']"
    using busy_loop_polls[OF assms(1), of ?tr0 n fuel] assms(2) by (auto simp: polls_def)
  let ?r = "k tr (System ''mkfs.ext2  /dev/nbd0'')"
  let ?tr1 = "tr @ [(System ''mkfs.ext2  /dev/nbd0'', ?r)]"
  have "MKFSAndMount fuel k [] =
      Some (if ?r = 0 \<and> k ?tr1 (System ''mount /dev/nbd0  /mnt'') = 0 then Inr ()
          else Inl (Runtime_error (CheckAndLog_PhraseLine ''mkfs.ext2'' default_loc @ '' FAIL'')),
        ?tr1 @ (if ?r = 0 then [(System ''mount /dev/nbd0  /mnt'', k ?tr1 (System ''mount /dev/nbd0  /mnt''))] else []))"
    by (simp add: MKFSAndMount_def call_def[of k "Sleep 5"] tr(1) run_checked_def)
       (simp add: sysbind_def call_def lift_def NotEqualToCheck_def Let_def)
  with tr(2) show ?thesis by fastforce
qed

theorem mounted_when_ready_witness:
  "MKFSAndMount 3 (\<lambda>tr c. if c = Access ''/dev/nbd0'' \<and> polls tr < 2 then -1 else 0) [] =
     Some (Inr (), map (\<lambda>c. (c, if c = Access ''/dev/nbd0'' then -1 else 0))
         [Sleep 5, Access ''/dev/nbd0'', Sleep 1, Access ''/dev/nbd0'', Sleep 1] @
       [(Access ''/dev/nbd0'', 0), (System ''mkfs.ext2  /dev/nbd0'', 0), (System ''mount /dev/nbd0  /mnt'', 0)])"
proof -
  let ?k = "\<lambda>tr c. if c = Access ''/dev/nbd0'' \<and> polls tr < 2 then -1 else (0 :: int)"
  have "appears_after 2 ?k" by (simp add: appears_after_def)
  from mounted_when_ready[OF this, of 3] show ?thesis
    by (simp add: MKFSAndMount_def IsBusy_def sysret_def call_def sysbind_def run_checked_def lift_def NotEqualToCheck_def polls_def numeral_eq_Suc)
qed

end
