(* ===== verification/Waitable_Queue.thy ===== *)
theory Waitable_Queue
  imports Prelude "HOL-Library.Multiset"
begin

text \<open>
  \<open>WaitableQueue\<close> and \<open>PQ\<close> (\<open>include/priority_queue.hpp\<close>): a container behind a mutex. The
  container is \<open>std::queue\<close> (the logger) or \<open>std::priority_queue\<close> with a comparator (the
  thread pool, the scheduler). Which of several equally good items a priority queue
  delivers first is not specified by the standard, so taking an item is a relation.
\<close>

subsection \<open>The containers\<close>

definition fifo_push :: "'a \<Rightarrow> 'a list \<Rightarrow> 'a list" where
  "fifo_push x q = q @ [x]"

definition fifo_pops :: "'a list \<Rightarrow> 'a \<Rightarrow> 'a list \<Rightarrow> bool" where
  "fifo_pops q x q' \<longleftrightarrow> q = x # q'"

text \<open>
  \<open>cmp a b\<close> says that \<open>a\<close> is to come after \<open>b\<close>. The comparator of the scheduler also holds
  of equal items; what counts is the strict part.
\<close>

definition comes_after :: "('a \<Rightarrow> 'a \<Rightarrow> bool) \<Rightarrow> 'a \<Rightarrow> 'a \<Rightarrow> bool" where
  "comes_after cmp a b \<longleftrightarrow> cmp a b \<and> \<not> cmp b a"

definition PQ_push :: "'a \<Rightarrow> 'a list \<Rightarrow> 'a list" where
  "PQ_push x q = x # q"

definition PQ_front :: "('a \<Rightarrow> 'a \<Rightarrow> bool) \<Rightarrow> 'a list \<Rightarrow> 'a \<Rightarrow> bool" where
  "PQ_front cmp q x \<longleftrightarrow> x \<in> set q \<and> (\<forall>y \<in> set q. \<not> comes_after cmp x y)"

definition PQ_pops :: "('a \<Rightarrow> 'a \<Rightarrow> bool) \<Rightarrow> 'a list \<Rightarrow> 'a \<Rightarrow> 'a list \<Rightarrow> bool" where
  "PQ_pops cmp q x q' \<longleftrightarrow> PQ_front cmp q x \<and> q' = remove1 x q"

text \<open>
  The contract of a container, over the bag of its items: nothing is lost or invented, and
  a container that is not empty can deliver.
\<close>

locale container =
  fixes push :: "'a \<Rightarrow> 'q \<Rightarrow> 'q"
    and pops :: "'q \<Rightarrow> 'a \<Rightarrow> 'q \<Rightarrow> bool"
    and items :: "'q \<Rightarrow> 'a multiset"
  assumes items_push: "items (push x q) = add_mset x (items q)"
    and items_pops: "pops q x q' \<Longrightarrow> items q = add_mset x (items q')"
    and pops_total: "items q \<noteq> {#} \<Longrightarrow> \<exists>x q'. pops q x q'"
begin

text \<open>Filling a container and taking as many items out again returns the same bag.\<close>

inductive takes :: "'q \<Rightarrow> 'a list \<Rightarrow> 'q \<Rightarrow> bool" where
  takes_none: "takes q [] q"
| takes_more: "pops q x q' \<Longrightarrow> takes q' xs q'' \<Longrightarrow> takes q (x # xs) q''"

lemma takes_items: "takes q xs q' \<Longrightarrow> items q = mset xs + items q'"
  by (induction rule: takes.induct) (auto dest: items_pops)

lemma items_push_all: "items (fold push xs q) = mset xs + items q"
  by (induction xs arbitrary: q) (auto simp: items_push)

lemma takes_all: "\<exists>xs q'. takes q xs q' \<and> items q' = {#}"
proof (induction "size (items q)" arbitrary: q)
  case 0
  then show ?case using takes_none by fastforce
next
  case (Suc n)
  then have "items q \<noteq> {#}" by auto
  from pops_total[OF this] obtain x q' where p: "pops q x q'" by blast
  with Suc.hyps(2) have "n = size (items q')" using items_pops by fastforce
  from Suc.hyps(1)[OF this] takes_more[OF p] show ?case by blast
qed

end

text \<open>A container that delivers by rank: never an item while one of smaller rank waits.\<close>

locale ranked_container = container +
  fixes rank :: "'a \<Rightarrow> 'r :: linorder"
  assumes pops_least: "pops q x q' \<Longrightarrow> y \<in># items q \<Longrightarrow> rank x \<le> rank y"
begin

lemma takes_sorted: "takes q xs q' \<Longrightarrow> sorted (map rank xs)"
proof (induction rule: takes.induct)
  case (takes_none q)
  then show ?case by simp
next
  case (takes_more q x q' xs q'')
  have "rank x \<le> rank y" if "y \<in> set xs" for y
    using pops_least[OF takes_more.hyps(1)] items_pops[OF takes_more.hyps(1)]
      takes_items[OF takes_more.hyps(2)] that by simp
  with takes_more.IH show ?case by simp
qed

end

interpretation fifo: container fifo_push fifo_pops mset
proof (unfold_locales, goal_cases)
  case (3 q)
  then show ?case by (cases q) (auto simp: fifo_pops_def)
qed (auto simp: fifo_push_def fifo_pops_def)

text \<open>A comparator meets the ranked contract when its strict part is the order of a rank.\<close>

lemma PQ_ranked:
  assumes "\<And>a b. comes_after cmp a b \<longleftrightarrow> rank b < (rank a :: 'r :: linorder)"
  shows "ranked_container PQ_push (PQ_pops cmp) mset rank"
proof (unfold_locales, goal_cases)
  case (1 x q)
  show ?case by (simp add: PQ_push_def)
next
  case (2 q x q')
  then show ?case by (auto simp: PQ_pops_def PQ_front_def)
next
  case (3 q)
  then have "q \<noteq> []" by simp
  then obtain x where "x \<in> set q" and "\<forall>y \<in> set q. rank x \<le> rank y"
    using ex_min_if_finite[of "rank ` set q"] by (auto simp: not_less)
  then show ?case by (auto simp: PQ_pops_def PQ_front_def assms not_less)
next
  case (4 q x q' y)
  then show ?case using assms by (auto simp: PQ_pops_def PQ_front_def not_less)
qed

subsection \<open>The waitable queue\<close>

text \<open>
  Each operation is one critical section. \<open>Pop\<close> with a time limit has three outcomes: the
  mutex was not free in time (-2), the queue stayed empty until the limit (-1), or an item
  (0); \<open>locked\<close> says whether the mutex was taken in time, and the queue is the one the last
  evaluation of the condition sees. \<open>Pop\<close> without a limit has no outcome on an empty queue.
\<close>

definition WaitableQueue_Push :: "('a \<Rightarrow> 'q \<Rightarrow> 'q) \<Rightarrow> 'a \<Rightarrow> 'q \<Rightarrow> 'q" where
  "WaitableQueue_Push push item q = push item q"

definition WaitableQueue_IsEmpty :: "'a list \<Rightarrow> bool" where
  "WaitableQueue_IsEmpty q \<longleftrightarrow> q = []"

definition WaitableQueue_Pop_timed ::
    "('a list \<Rightarrow> 'a \<Rightarrow> 'a list \<Rightarrow> bool) \<Rightarrow> bool \<Rightarrow> 'a list \<Rightarrow> int \<Rightarrow> 'a option \<Rightarrow> 'a list \<Rightarrow> bool" where
  "WaitableQueue_Pop_timed pops locked q code ret q' \<longleftrightarrow>
     (if \<not> locked then code = -2 \<and> ret = None \<and> q' = q
      else if \<not> WaitableQueue_IsEmpty q
      then code = 0 \<and> (case ret of Some x \<Rightarrow> pops q x q' | None \<Rightarrow> False)
      else code = -1 \<and> ret = None \<and> q' = q)"

definition WaitableQueue_Pop ::
    "('a list \<Rightarrow> 'a \<Rightarrow> 'a list \<Rightarrow> bool) \<Rightarrow> 'a list \<Rightarrow> 'a \<Rightarrow> 'a list \<Rightarrow> bool" where
  "WaitableQueue_Pop pops q ret q' \<longleftrightarrow> \<not> WaitableQueue_IsEmpty q \<and> pops q ret q'"

end
