(* ===== verification/Thread_Pool.thy ===== *)
theory Thread_Pool
  imports Waitable_Queue
begin

text \<open>
  \<open>ThreadPool\<close> (\<open>include/threadpool.hpp\<close>, \<open>src/threadpool.cpp\<close>): workers that take the item of
  highest priority from one waitable queue. Pausing, resizing and destroying the pool work
  by items of their own, with priorities above those of the users.

  A worker is looping (about to call \<open>Pop\<close> again), inside a task of a user, inside
  \<open>PauseTask\<close>, or has left \<open>ThreadFunc\<close>. In \<open>PauseTask\<close> it is about to lock the mutex and count
  itself (\<open>Entering\<close>), to evaluate the condition of the wait (\<open>Pausing\<close>), has found it false and is
  not yet asleep (\<open>Blocking\<close>), or sleeps in the wait set of \<open>m_cd\<close> (\<open>Waiting\<close>). \<open>Resume\<close> does not take
  the mutex, so it can fall between the last two: the notification then passes a worker that
  goes to sleep after it. \<open>tp_started\<close> is a history variable: the users' tasks taken so far.

  \<open>Pause\<close>, \<open>SetNumThreads\<close> and the destructor push their items one by one while the workers run.
  \<open>tp_call\<close> says where such a call stands. They read and write \<open>m_thread_num\<close> without a lock, so
  they can only be called one after the other; \<open>AddTask\<close> and \<open>Resume\<close> come from any thread at any
  time, and \<open>tp_notifies\<close> counts the calls of \<open>Resume\<close> between their two statements.
\<close>

datatype priority = low | normal | high

primrec priority_int :: "priority \<Rightarrow> int" where
  "priority_int low = 0"
| "priority_int normal = 1"
| "priority_int high = 2"

definition ADMIN :: int where "ADMIN = 3"
definition ADMIN_STOP :: int where "ADMIN_STOP = 4"

datatype 'a tp_task = UserTask 'a | PauseTask | Kill

type_synonym 'a tp_item = "'a tp_task \<times> int"

definition Compare :: "'a tp_item \<Rightarrow> 'a tp_item \<Rightarrow> bool" where
  "Compare pair1 pair2 \<longleftrightarrow> snd pair1 < snd pair2"

interpretation tp_queue: ranked_container PQ_push "PQ_pops Compare" mset "\<lambda>x. - snd x"
  by (rule PQ_ranked) (auto simp: comes_after_def Compare_def)

datatype 'a worker = Looping | Running 'a int | Entering int | Pausing int | Blocking int | Waiting int | Exited

text \<open>
  \<open>Pause\<close>: the first busy wait, the assignment to \<open>m_resume\<close>, the loop with the number of items it
  still has to push, after which it is in the second busy wait; \<open>SetNumThreads\<close>: its two loops
  with \<open>i\<close> and \<open>num\<close>; the destructor with the number of items it still has to push.
\<close>

datatype pool_call =
    No_call
  | Pause_spin
  | Pause_reset
  | Pause_push nat
  | Resize_grow nat nat
  | Resize_kill nat nat
  | Destroy_push nat

record 'a pool =
  tp_queue :: "'a tp_item list"
  tp_workers :: "'a worker list"
  tp_num :: nat
  tp_resume :: bool
  tp_pause_ready :: nat
  tp_started :: "'a list"
  tp_call :: pool_call
  tp_notifies :: nat

subsection \<open>Operations\<close>

definition ThreadPool_ctor :: "nat \<Rightarrow> 'a pool" where
  "ThreadPool_ctor num_threads =
     \<lparr>tp_queue = [], tp_workers = replicate num_threads Looping, tp_num = num_threads,
      tp_resume = False, tp_pause_ready = 0, tp_started = [],
      tp_call = No_call, tp_notifies = 0\<rparr>"

definition AdminAddTask :: "'a tp_task \<Rightarrow> int \<Rightarrow> 'a pool \<Rightarrow> 'a pool" where
  "AdminAddTask task priority s =
     s\<lparr>tp_queue := WaitableQueue_Push PQ_push (task, priority) (tp_queue s)\<rparr>"

definition TP_AddTask :: "'a \<Rightarrow> priority \<Rightarrow> 'a pool \<Rightarrow> 'a pool" where
  "TP_AddTask task priority s = AdminAddTask (UserTask task) (priority_int priority) s"

text \<open>One step of each call, at its place.\<close>

fun Pause :: "pool_call \<Rightarrow> 'a pool \<Rightarrow> 'a pool" where
  "Pause Pause_spin s = (if tp_pause_ready s \<noteq> 0 then s else s\<lparr>tp_call := Pause_reset\<rparr>)"
| "Pause Pause_reset s = s\<lparr>tp_resume := False, tp_call := Pause_push (tp_num s)\<rparr>"
| "Pause (Pause_push (Suc i)) s = (AdminAddTask PauseTask ADMIN s)\<lparr>tp_call := Pause_push i\<rparr>"
| "Pause (Pause_push 0) s = (if tp_pause_ready s < tp_num s then s else s\<lparr>tp_call := No_call\<rparr>)"
| "Pause _ s = s"

fun SetNumThreads :: "pool_call \<Rightarrow> 'a pool \<Rightarrow> 'a pool" where
  "SetNumThreads (Resize_grow i num) s =
     (if i < num then s\<lparr>tp_workers := tp_workers s @ [Looping], tp_call := Resize_grow (i + 1) num\<rparr>
      else s\<lparr>tp_call := Resize_kill (tp_num s) num\<rparr>)"
| "SetNumThreads (Resize_kill i num) s =
     (if num < i then (AdminAddTask Kill ADMIN_STOP s)\<lparr>tp_call := Resize_kill (i - 1) num\<rparr>
      else s\<lparr>tp_num := num, tp_call := No_call\<rparr>)"
| "SetNumThreads _ s = s"

text \<open>The destructor up to the joins, which wait for every worker to exit.\<close>

fun ThreadPool_dtor :: "pool_call \<Rightarrow> 'a pool \<Rightarrow> 'a pool" where
  "ThreadPool_dtor (Destroy_push (Suc i)) s = (AdminAddTask Kill ADMIN_STOP s)\<lparr>tp_call := Destroy_push i\<rparr>"
| "ThreadPool_dtor _ s = s"

text \<open>The second busy wait of \<open>Pause\<close> is over.\<close>

definition Pause_returns :: "'a pool \<Rightarrow> bool" where
  "Pause_returns s \<longleftrightarrow> \<not> tp_pause_ready s < tp_num s"

text \<open>\<open>notify_all\<close> takes every worker out of the wait set; it looks at the condition again.\<close>

fun notified :: "'a worker \<Rightarrow> 'a worker" where
  "notified (Waiting p) = Pausing p"
| "notified w = w"

text \<open>The two statements of \<open>Resume\<close>.\<close>

definition Resume_set :: "'a pool \<Rightarrow> 'a pool" where
  "Resume_set s = s\<lparr>tp_resume := True, tp_notifies := tp_notifies s + 1\<rparr>"

definition Resume_notify :: "'a pool \<Rightarrow> 'a pool" where
  "Resume_notify s = s\<lparr>tp_workers := map notified (tp_workers s), tp_notifies := tp_notifies s - 1\<rparr>"

text \<open>The loop test of \<open>ThreadFunc\<close> after an item of the given priority has run.\<close>

definition after_run :: "int \<Rightarrow> 'a worker" where
  "after_run priority = (if priority \<noteq> ADMIN_STOP then Looping else Exited)"

text \<open>\<open>Run\<close> of an item by worker \<open>i\<close>; \<open>PauseTask\<close> up to its lock.\<close>

definition run_item :: "nat \<Rightarrow> 'a tp_item \<Rightarrow> 'a pool \<Rightarrow> 'a pool" where
  "run_item i pair s =
     (case fst pair of
        UserTask a \<Rightarrow> s\<lparr>tp_workers := (tp_workers s)[i := Running a (snd pair)], tp_started := tp_started s @ [a]\<rparr>
      | PauseTask \<Rightarrow> s\<lparr>tp_workers := (tp_workers s)[i := Entering (snd pair)]\<rparr>
      | Kill \<Rightarrow> s\<lparr>tp_workers := (tp_workers s)[i := after_run (snd pair)]\<rparr>)"

subsection \<open>Steps\<close>

inductive worker_step :: "'a pool \<Rightarrow> 'a pool \<Rightarrow> bool" where
  take_item: "i < length (tp_workers s) \<Longrightarrow> tp_workers s ! i = Looping \<Longrightarrow>
    WaitableQueue_Pop_timed (PQ_pops Compare) True (tp_queue s) 0 (Some pair) q' \<Longrightarrow>
    worker_step s (run_item i pair (s\<lparr>tp_queue := q'\<rparr>))"
| finish: "i < length (tp_workers s) \<Longrightarrow> tp_workers s ! i = Running a p \<Longrightarrow>
    worker_step s (s\<lparr>tp_workers := (tp_workers s)[i := after_run p]\<rparr>)"
| enter: "i < length (tp_workers s) \<Longrightarrow> tp_workers s ! i = Entering p \<Longrightarrow>
    worker_step s (s\<lparr>tp_workers := (tp_workers s)[i := Pausing p], tp_pause_ready := tp_pause_ready s + 1\<rparr>)"
| wake: "i < length (tp_workers s) \<Longrightarrow> tp_workers s ! i = Pausing p \<Longrightarrow> tp_resume s \<Longrightarrow>
    worker_step s (s\<lparr>tp_workers := (tp_workers s)[i := after_run p], tp_pause_ready := tp_pause_ready s - 1\<rparr>)"
| decline: "i < length (tp_workers s) \<Longrightarrow> tp_workers s ! i = Pausing p \<Longrightarrow> \<not> tp_resume s \<Longrightarrow>
    worker_step s (s\<lparr>tp_workers := (tp_workers s)[i := Blocking p]\<rparr>)"
| sleep: "i < length (tp_workers s) \<Longrightarrow> tp_workers s ! i = Blocking p \<Longrightarrow>
    worker_step s (s\<lparr>tp_workers := (tp_workers s)[i := Waiting p]\<rparr>)"

text \<open>A wait may also end without a notification; nothing promises that it does.\<close>

definition spurious :: "'a pool \<Rightarrow> 'a pool \<Rightarrow> bool" where
  "spurious s s' \<longleftrightarrow> (\<exists>i p. i < length (tp_workers s) \<and> tp_workers s ! i = Waiting p \<and>
     s' = s\<lparr>tp_workers := (tp_workers s)[i := Pausing p]\<rparr>)"

inductive pool_reachable :: "'a pool \<Rightarrow> bool" where
  tp_start: "pool_reachable (ThreadPool_ctor n)"
| tp_work: "pool_reachable s \<Longrightarrow> worker_step s s' \<Longrightarrow> pool_reachable s'"
| tp_spurious: "pool_reachable s \<Longrightarrow> spurious s s' \<Longrightarrow> pool_reachable s'"
| tp_add: "pool_reachable s \<Longrightarrow> pool_reachable (TP_AddTask a p s)"
| tp_resume_set: "pool_reachable s \<Longrightarrow> pool_reachable (Resume_set s)"
| tp_resume_notify: "pool_reachable s \<Longrightarrow> 0 < tp_notifies s \<Longrightarrow> pool_reachable (Resume_notify s)"
| tp_pause: "pool_reachable s \<Longrightarrow> tp_call s = No_call \<Longrightarrow> pool_reachable (s\<lparr>tp_call := Pause_spin\<rparr>)"
| tp_resize: "pool_reachable s \<Longrightarrow> tp_call s = No_call \<Longrightarrow> pool_reachable (s\<lparr>tp_call := Resize_grow (tp_num s) n\<rparr>)"
| tp_destroy: "pool_reachable s \<Longrightarrow> tp_call s = No_call \<Longrightarrow> pool_reachable (s\<lparr>tp_call := Destroy_push (tp_num s)\<rparr>)"
| tp_in_pause: "pool_reachable s \<Longrightarrow> pool_reachable (Pause (tp_call s) s)"
| tp_in_resize: "pool_reachable s \<Longrightarrow> pool_reachable (SetNumThreads (tp_call s) s)"
| tp_in_dtor: "pool_reachable s \<Longrightarrow> pool_reachable (ThreadPool_dtor (tp_call s) s)"

subsection \<open>Counting workers and items\<close>

definition count_workers :: "('a worker \<Rightarrow> bool) \<Rightarrow> 'a pool \<Rightarrow> nat" where
  "count_workers P s = length (filter P (tp_workers s))"

abbreviation alive :: "'a worker \<Rightarrow> bool" where "alive w \<equiv> w \<noteq> Exited"

fun is_paused :: "'a worker \<Rightarrow> bool" where
  "is_paused (Pausing p) = True"
| "is_paused (Blocking p) = True"
| "is_paused (Waiting p) = True"
| "is_paused _ = False"

definition pills :: "'a pool \<Rightarrow> nat" where
  "pills s = length (filter (\<lambda>x. snd x = ADMIN_STOP) (tp_queue s))"

lemmas prio_defs = ADMIN_def ADMIN_STOP_def

lemma priority_not_stop [simp]: "priority_int p \<noteq> ADMIN_STOP" "priority_int p < ADMIN_STOP"
  by (cases p; simp add: prio_defs)+

text \<open>
  Kill items and only they have the stopping priority, pause items come between them and
  the users' items, and what a worker is inside of does not stop it.
\<close>

primrec item_ok :: "'a tp_task \<Rightarrow> int \<Rightarrow> bool" where
  "item_ok (UserTask a) p \<longleftrightarrow> p < ADMIN"
| "item_ok PauseTask p \<longleftrightarrow> p = ADMIN"
| "item_ok Kill p \<longleftrightarrow> p = ADMIN_STOP"

fun worker_ok :: "'a worker \<Rightarrow> bool" where
  "worker_ok (Running a p) \<longleftrightarrow> p \<noteq> ADMIN_STOP"
| "worker_ok (Entering p) \<longleftrightarrow> p \<noteq> ADMIN_STOP"
| "worker_ok (Pausing p) \<longleftrightarrow> p \<noteq> ADMIN_STOP"
| "worker_ok (Blocking p) \<longleftrightarrow> p \<noteq> ADMIN_STOP"
| "worker_ok (Waiting p) \<longleftrightarrow> p \<noteq> ADMIN_STOP"
| "worker_ok _ \<longleftrightarrow> True"

definition items_ok :: "'a pool \<Rightarrow> bool" where
  "items_ok s \<longleftrightarrow> (\<forall>x \<in> set (tp_queue s). item_ok (fst x) (snd x)) \<and> (\<forall>w \<in> set (tp_workers s). worker_ok w)"

lemma AdminAddTask_simps [simp]:
  "tp_queue (AdminAddTask k p s) = (k, p) # tp_queue s"
  "tp_workers (AdminAddTask k p s) = tp_workers s" "tp_num (AdminAddTask k p s) = tp_num s"
  "tp_resume (AdminAddTask k p s) = tp_resume s" "tp_pause_ready (AdminAddTask k p s) = tp_pause_ready s"
  "tp_started (AdminAddTask k p s) = tp_started s" "tp_call (AdminAddTask k p s) = tp_call s"
  "tp_notifies (AdminAddTask k p s) = tp_notifies s"
  by (simp_all add: AdminAddTask_def WaitableQueue_Push_def PQ_push_def)

lemma take_pair:
  assumes "WaitableQueue_Pop_timed (PQ_pops Compare) True q 0 (Some pair) q'"
  shows "pair \<in> set q" "q' = remove1 pair q" "y \<in> set q \<Longrightarrow> snd y \<le> snd pair"
    "length (filter P q) = length (filter P q') + (if P pair then 1 else 0)" "length q = Suc (length q')"
proof -
  have p: "PQ_pops Compare q pair q'" using assms by (auto simp: WaitableQueue_Pop_timed_def split: if_splits)
  then show m: "pair \<in> set q" and r: "q' = remove1 pair q" by (auto simp: PQ_pops_def PQ_front_def)
  show "snd y \<le> snd pair" if "y \<in> set q" using tp_queue.pops_least[OF p, of y] that by simp
  obtain ys zs where "q = ys @ pair # zs" "pair \<notin> set ys" using split_list_first[OF m] by blast
  then show "length (filter P q) = length (filter P q') + (if P pair then 1 else 0)"
    by (simp add: r remove1_append)
  show "length q = Suc (length q')" using m by (auto simp: r length_remove1 dest: length_pos_if_in_set)
qed

lemma count_update:
  assumes "i < length (tp_workers s)" "tp_workers s' = (tp_workers s)[i := w]"
  shows "count_workers P s' + (if P (tp_workers s ! i) then 1 else 0) = count_workers P s + (if P w then 1 else 0)"
  using filter_update[OF assms(1)] by (simp add: count_workers_def assms(2))

text \<open>What every step of a worker keeps.\<close>

lemma item_prio: "item_ok t p \<Longrightarrow> p = ADMIN_STOP \<longleftrightarrow> t = Kill" "item_ok t p \<Longrightarrow> ADMIN \<le> p \<longleftrightarrow> t = Kill \<or> t = PauseTask"
  by (cases t; auto simp: prio_defs)+


definition stepped :: "'a pool \<Rightarrow> 'a pool \<Rightarrow> bool" where
  "stepped s s' \<longleftrightarrow> items_ok s' \<and> tp_num s' = tp_num s \<and> tp_resume s' = tp_resume s \<and> tp_call s' = tp_call s \<and>
     length (tp_workers s') = length (tp_workers s) \<and>
     count_workers alive s' + pills s = count_workers alive s + pills s' \<and>
     tp_pause_ready s' + count_workers is_paused s = tp_pause_ready s + count_workers is_paused s'"

lemma items_ok_take:
  assumes "items_ok s" "WaitableQueue_Pop_timed (PQ_pops Compare) True (tp_queue s) 0 (Some pair) q'"
    "worker_ok w" "set ws \<subseteq> insert w (set (tp_workers s))"
  shows "items_ok (s\<lparr>tp_queue := q', tp_workers := ws\<rparr>)"
  using assms take_pair(2)[OF assms(2)] by (auto simp: items_ok_def dest: notin_set_remove1 set_remove1_subset[THEN subsetD])

lemma take_stepped:
  assumes "items_ok s" "i < length (tp_workers s)" "tp_workers s ! i = Looping"
    and pop: "WaitableQueue_Pop_timed (PQ_pops Compare) True (tp_queue s) 0 (Some pair) q'"
  shows "stepped s (run_item i pair (s\<lparr>tp_queue := q'\<rparr>))"
proof -
  let ?s' = "run_item i pair (s\<lparr>tp_queue := q'\<rparr>)"
  have "item_ok (fst pair) (snd pair)" using assms(1) take_pair(1)[OF pop] by (auto simp: items_ok_def)
  then obtain w where w: "tp_workers ?s' = (tp_workers s)[i := w]" "worker_ok w"
      "tp_pause_ready ?s' = tp_pause_ready s" "\<not> is_paused w"
      "w = Exited \<longleftrightarrow> snd pair = ADMIN_STOP"
    and q: "tp_queue ?s' = q'" "tp_num ?s' = tp_num s" "tp_resume ?s' = tp_resume s" "tp_call ?s' = tp_call s"
    by (cases "fst pair") (auto simp: run_item_def after_run_def prio_defs)
  have "items_ok ?s'"
    using items_ok_take[OF assms(1) pop w(2), of "(tp_workers s)[i := w]"] w(1) q(1) set_update_subset_insert[of "tp_workers s" i w]
    by (simp add: items_ok_def)
  moreover have "pills s = pills ?s' + (if snd pair = ADMIN_STOP then 1 else 0)"
    using take_pair(4)[OF pop, of "\<lambda>x. snd x = ADMIN_STOP"] by (simp add: pills_def q)
  ultimately show ?thesis
    using count_update[OF assms(2) w(1), of alive] count_update[OF assms(2) w(1), of is_paused] w assms(3) q
    by (auto simp: stepped_def split: if_splits)
qed

lemma leave_stepped:
  assumes "items_ok s" "i < length (tp_workers s)" "tp_workers s ! i = Running a p \<or> tp_workers s ! i = Pausing p"
    "s' = s\<lparr>tp_workers := (tp_workers s)[i := after_run p],
            tp_pause_ready := tp_pause_ready s - (if is_paused (tp_workers s ! i) then 1 else 0)\<rparr>"
    "tp_pause_ready s = count_workers is_paused s"
  shows "stepped s s'"
proof -
  have "worker_ok (tp_workers s ! i)" using assms(1,2) by (auto simp: items_ok_def)
  then have "p \<noteq> ADMIN_STOP" using assms(3) by auto
  then have w: "tp_workers s' = (tp_workers s)[i := Looping]" using assms(4) by (simp add: after_run_def)
  have "items_ok s'" using assms(1,4) w set_update_subset_insert[of "tp_workers s" i Looping]
    by (auto simp: items_ok_def after_run_def)
  then show ?thesis
    using count_update[OF assms(2) w, of alive] count_update[OF assms(2) w, of is_paused] w assms
    by (auto simp: stepped_def pills_def split: if_splits)
qed

text \<open>A worker that moves inside \<open>PauseTask\<close> changes nothing that counts.\<close>

lemma inside_pause_stepped:
  assumes "items_ok s" "i < length (tp_workers s)" "is_paused (tp_workers s ! i)" "is_paused w" "worker_ok w"
  shows "stepped s (s\<lparr>tp_workers := (tp_workers s)[i := w]\<rparr>)"
proof -
  let ?s' = "s\<lparr>tp_workers := (tp_workers s)[i := w]\<rparr>"
  have w: "tp_workers ?s' = (tp_workers s)[i := w]" by simp
  have "items_ok ?s'" using assms(1,5) set_update_subset_insert[of "tp_workers s" i w] by (auto simp: items_ok_def)
  moreover have "alive w" "alive (tp_workers s ! i)" using assms(3,4) by auto
  ultimately show ?thesis
    using count_update[OF assms(2) w, of alive] count_update[OF assms(2) w, of is_paused] assms(3,4)
    by (simp add: stepped_def pills_def)
qed

lemma nth_worker_ok: "items_ok s \<Longrightarrow> i < length (tp_workers s) \<Longrightarrow> worker_ok (tp_workers s ! i)"
  by (simp add: items_ok_def)

lemma worker_step_stepped:
  assumes "worker_step s s'" "items_ok s" "tp_pause_ready s = count_workers is_paused s"
  shows "stepped s s'"
  using assms(1)
proof cases
  case (take_item i pair q')
  then show ?thesis using take_stepped assms(2) by blast
next
  case (finish i a p)
  then show ?thesis by (intro leave_stepped[OF assms(2) finish(2), of a p]) (auto simp: assms(3))
next
  case (enter i p)
  have w: "tp_workers s' = (tp_workers s)[i := Pausing p]" using enter(1) by simp
  have "worker_ok (Pausing p)" using nth_worker_ok[OF assms(2) enter(2)] enter(3) by simp
  then have "items_ok s'" using assms(2) enter(1) w set_update_subset_insert[of "tp_workers s" i "Pausing p"]
    by (auto simp: items_ok_def)
  then show ?thesis
    using count_update[OF enter(2) w, of alive] count_update[OF enter(2) w, of is_paused] enter
    by (simp add: stepped_def pills_def)
next
  case (wake i p)
  then show ?thesis by (intro leave_stepped[OF assms(2) wake(2), of undefined p]) (auto simp: assms(3))
next
  case (decline i p)
  then show ?thesis using nth_worker_ok[OF assms(2), of i] by (auto intro!: inside_pause_stepped[OF assms(2)])
next
  case (sleep i p)
  then show ?thesis using nth_worker_ok[OF assms(2), of i] by (auto intro!: inside_pause_stepped[OF assms(2)])
qed

lemma spurious_stepped:
  assumes "spurious s s'" "items_ok s"
  shows "stepped s s'"
  using assms(1) unfolding spurious_def
proof (elim exE conjE)
  fix i p assume i: "i < length (tp_workers s)" "tp_workers s ! i = Waiting p"
    and s': "s' = s\<lparr>tp_workers := (tp_workers s)[i := Pausing p]\<rparr>"
  from nth_worker_ok[OF assms(2) i(1)] show ?thesis unfolding s' by (intro inside_pause_stepped[OF assms(2)]) (simp_all add: i)
qed

text \<open>
  The threads there should be, besides one for each stop item in the queue: as many as
  \<open>m_thread_num\<close> says between calls, and inside a call as many as it has started or has yet to stop.
\<close>

fun threads_due :: "pool_call \<Rightarrow> nat \<Rightarrow> nat" where
  "threads_due (Resize_grow i num) n = i"
| "threads_due (Resize_kill i num) n = max i num"
| "threads_due (Destroy_push k) n = k"
| "threads_due _ n = n"

fun call_ok :: "pool_call \<Rightarrow> nat \<Rightarrow> bool" where
  "call_ok (Resize_grow i num) n \<longleftrightarrow> n \<le> i \<and> i \<le> max n num"
| "call_ok _ n \<longleftrightarrow> True"

text \<open>The invariant of the pool: what it counts is what there is.\<close>

definition pool_ok :: "'a pool \<Rightarrow> bool" where
  "pool_ok s \<longleftrightarrow> items_ok s \<and> tp_pause_ready s = count_workers is_paused s \<and> call_ok (tp_call s) (tp_num s) \<and>
     count_workers alive s = threads_due (tp_call s) (tp_num s) + pills s"

lemma worker_step_ok: "worker_step s s' \<Longrightarrow> pool_ok s \<Longrightarrow> pool_ok s'"
  using worker_step_stepped[of s s'] by (auto simp: pool_ok_def stepped_def)

lemma push_ok:
  assumes "item_ok t p"
  shows "items_ok (AdminAddTask t p s) = items_ok s"
    "pills (AdminAddTask t p s) = (if p = ADMIN_STOP then 1 else 0) + pills s"
    "count_workers P (AdminAddTask t p s) = count_workers P s"
  using assms by (auto simp: items_ok_def pills_def count_workers_def)

lemma frame_simps [simp]:
  "items_ok (s\<lparr>tp_call := c\<rparr>) = items_ok s" "pills (s\<lparr>tp_call := c\<rparr>) = pills s" "count_workers P (s\<lparr>tp_call := c\<rparr>) = count_workers P s"
  "items_ok (s\<lparr>tp_num := n\<rparr>) = items_ok s" "pills (s\<lparr>tp_num := n\<rparr>) = pills s" "count_workers P (s\<lparr>tp_num := n\<rparr>) = count_workers P s"
  "items_ok (s\<lparr>tp_resume := r\<rparr>) = items_ok s" "pills (s\<lparr>tp_resume := r\<rparr>) = pills s" "count_workers P (s\<lparr>tp_resume := r\<rparr>) = count_workers P s"
  "items_ok (s\<lparr>tp_notifies := k\<rparr>) = items_ok s" "pills (s\<lparr>tp_notifies := k\<rparr>) = pills s" "count_workers P (s\<lparr>tp_notifies := k\<rparr>) = count_workers P s"
  by (simp_all add: items_ok_def pills_def count_workers_def)

lemma pool_ok_ctor: "pool_ok (ThreadPool_ctor n)"
  by (simp add: pool_ok_def ThreadPool_ctor_def items_ok_def count_workers_def pills_def)

lemma priority_below_admin [simp]: "priority_int p < ADMIN"
  by (cases p) (auto simp: prio_defs)

lemma pool_ok_TP_AddTask: "pool_ok s \<Longrightarrow> pool_ok (TP_AddTask a p s)"
  by (simp add: TP_AddTask_def pool_ok_def push_ok)

lemma notified_simps [simp]: "is_paused (notified w) = is_paused w" "worker_ok (notified w) = worker_ok w"
  "notified w = Exited \<longleftrightarrow> w = Exited"
  by (cases w; simp)+

lemma pool_ok_Resume: "pool_ok s \<Longrightarrow> pool_ok (Resume_set s)" "pool_ok s \<Longrightarrow> pool_ok (Resume_notify s)"
  by (auto simp: pool_ok_def Resume_set_def Resume_notify_def items_ok_def count_workers_def pills_def filter_map comp_def)

lemma pool_ok_spurious: "spurious s s' \<Longrightarrow> pool_ok s \<Longrightarrow> pool_ok s'"
  using spurious_stepped[of s s'] by (auto simp: pool_ok_def stepped_def)

lemma pool_ok_Pause: "pool_ok s \<Longrightarrow> tp_call s = c \<Longrightarrow> pool_ok (Pause c s)"
  by (cases "(c, s)" rule: Pause.cases) (auto simp: pool_ok_def push_ok prio_defs)

lemma pool_ok_SetNumThreads: "pool_ok s \<Longrightarrow> tp_call s = c \<Longrightarrow> pool_ok (SetNumThreads c s)"
proof (cases "(c, s)" rule: SetNumThreads.cases)
  case (1 i num s1)
  moreover have "items_ok (s\<lparr>tp_workers := tp_workers s @ [Looping], tp_call := d\<rparr>) = items_ok s"
    and "pills (s\<lparr>tp_workers := tp_workers s @ [Looping], tp_call := d\<rparr>) = pills s" for d
    by (auto simp: items_ok_def pills_def)
  moreover assume "pool_ok s" "tp_call s = c"
  ultimately show ?thesis by (auto simp: pool_ok_def count_workers_def max_def)
qed (auto simp: pool_ok_def push_ok)

lemma pool_ok_dtor: "pool_ok s \<Longrightarrow> tp_call s = c \<Longrightarrow> pool_ok (ThreadPool_dtor c s)"
  by (cases "(c, s)" rule: ThreadPool_dtor.cases) (auto simp: pool_ok_def push_ok)

lemma pool_ok_begin:
  "pool_ok s \<Longrightarrow> tp_call s = No_call \<Longrightarrow> c \<in> {Pause_spin, Resize_grow (tp_num s) n, Destroy_push (tp_num s)} \<Longrightarrow>
   pool_ok (s\<lparr>tp_call := c\<rparr>)"
  by (auto simp: pool_ok_def)

lemma reachable_pool_ok: "pool_reachable s \<Longrightarrow> pool_ok s"
proof (induction rule: pool_reachable.induct)
  case (tp_resize s n)
  then show ?case by (intro pool_ok_begin[where n = n]) auto
qed (auto simp: pool_ok_Resume pool_ok_ctor pool_ok_TP_AddTask pool_ok_Pause pool_ok_SetNumThreads pool_ok_dtor
    intro: pool_ok_begin worker_step_ok pool_ok_spurious)

text \<open>Every step of a worker uses up work, so a pool that is given nothing new comes to rest.\<close>

fun busy :: "'a worker \<Rightarrow> bool" where
  "busy (Running a p) = True"
| "busy (Entering p) = True"
| "busy (Pausing p) = True"
| "busy (Blocking p) = True"
| "busy _ = False"

fun deciding :: "'a worker \<Rightarrow> bool" where
  "deciding (Entering p) = True"
| "deciding (Pausing p) = True"
| "deciding _ = False"

fun is_entering :: "'a worker \<Rightarrow> bool" where
  "is_entering (Entering p) = True"
| "is_entering _ = False"

definition work :: "'a pool \<Rightarrow> nat" where
  "work s = 4 * length (tp_queue s) + count_workers busy s + count_workers deciding s + count_workers is_entering s"

lemma busy_after_run [simp]: "\<not> busy (after_run p)" "\<not> deciding (after_run p)" "\<not> is_entering (after_run p)"
  by (simp_all add: after_run_def)

definition weight :: "'a worker \<Rightarrow> nat" where
  "weight w = of_bool (busy w) + of_bool (deciding w) + of_bool (is_entering w)"

lemma work_update:
  assumes "i < length (tp_workers s)" "tp_workers s' = (tp_workers s)[i := w]"
  shows "work s' + 4 * length (tp_queue s) + weight (tp_workers s ! i) = work s + 4 * length (tp_queue s') + weight w"
  using count_update[OF assms, of busy] count_update[OF assms, of deciding] count_update[OF assms, of is_entering]
  by (auto simp: work_def weight_def)

lemma weight_simps [simp]:
  "weight Looping = 0" "weight (Running a p) = 1" "weight (Entering p) = 3" "weight (Pausing p) = 2" "weight (Blocking p) = 1"
  "weight (Waiting p) = 0" "weight (after_run p) = 0"
  by (simp_all add: weight_def)

lemma worker_step_work:
  assumes "worker_step s s'"
  shows "work s' < work s"
  using assms
proof cases
  case (take_item i pair q')
  obtain w where w: "tp_workers s' = (tp_workers s)[i := w]" and q: "tp_queue s' = q'"
    by (cases "fst pair"; auto simp: take_item run_item_def)
  have "weight w < 4" by (simp add: weight_def of_bool_def)
  then show ?thesis using work_update[OF take_item(2) w] take_item(3) take_pair(5)[OF take_item(4)] q by simp
next
  case (finish i a p)
  then show ?thesis using work_update[OF finish(2), of s' "after_run p"] by simp
next
  case (enter i p)
  then show ?thesis using work_update[OF enter(2), of s' "Pausing p"] by simp
next
  case (wake i p)
  then show ?thesis using work_update[OF wake(2), of s' "after_run p"] by simp
next
  case (decline i p)
  then show ?thesis using work_update[OF decline(2), of s' "Blocking p"] by simp
next
  case (sleep i p)
  then show ?thesis using work_update[OF sleep(2), of s' "Waiting p"] by simp
qed

lemma worker_run_bound: "(worker_step ^^ n) s s' \<Longrightarrow> n + work s' \<le> work s"
  by (induction n arbitrary: s') (fastforce dest!: worker_step_work)+

text \<open>At rest: no looping worker with an item to take and none inside a task, except asleep.\<close>

definition at_rest :: "'a pool \<Rightarrow> bool" where
  "at_rest s \<longleftrightarrow> (\<forall>w \<in> set (tp_workers s). (w = Looping \<longrightarrow> tp_queue s = []) \<and> \<not> busy w)"

lemma queue_delivers:
  assumes "q \<noteq> []" shows "\<exists>pair q'. WaitableQueue_Pop_timed (PQ_pops Compare) True q 0 (Some pair) q'"
  using tp_queue.pops_total[of q] assms by (auto simp: WaitableQueue_Pop_timed_def WaitableQueue_IsEmpty_def)

lemma stuck_at_rest: "(\<forall>s'. \<not> worker_step s s') \<longleftrightarrow> at_rest s"
proof
  assume stuck: "\<forall>s'. \<not> worker_step s s'"
  have "(tp_workers s ! i = Looping \<longrightarrow> tp_queue s = []) \<and> \<not> busy (tp_workers s ! i)"
    if "i < length (tp_workers s)" for i
    using stuck worker_step.intros[of i s] queue_delivers[of "tp_queue s"] that
    by (cases "tp_workers s ! i") auto
  then show "at_rest s" unfolding at_rest_def by (auto simp: in_set_conv_nth)
next
  assume r: "at_rest s"
  show "\<forall>s'. \<not> worker_step s s'"
  proof (intro allI notI)
    fix s' assume "worker_step s s'"
    then show False
    proof cases
      case (take_item i pair q')
      then have "tp_queue s \<noteq> []" using take_pair(1)[OF take_item(4)] by auto
      then show False using r take_item nth_mem by (force simp: at_rest_def)
    qed (use r nth_mem in \<open>force simp: at_rest_def\<close>)+
  qed
qed

subsection \<open>Destroying the pool\<close>

text \<open>Once the destructor has sent its items there is one for every living worker.\<close>

definition doomed :: "'a pool \<Rightarrow> bool" where
  "doomed s \<longleftrightarrow> items_ok s \<and> tp_pause_ready s = count_workers is_paused s \<and> count_workers alive s = pills s"

definition joined :: "'a pool \<Rightarrow> bool" where
  "joined s \<longleftrightarrow> (\<forall>w \<in> set (tp_workers s). w = Exited)"

lemma doomed_dtor: "pool_ok s \<Longrightarrow> tp_call s = Destroy_push 0 \<Longrightarrow> doomed s"
  by (simp add: pool_ok_def doomed_def)

lemma count_workers_pos: "w \<in> set (tp_workers s) \<Longrightarrow> P w \<Longrightarrow> 0 < count_workers P s"
  by (auto simp: count_workers_def filter_empty_conv)

lemma count_workers_0: "count_workers P s = 0 \<longleftrightarrow> (\<forall>w \<in> set (tp_workers s). \<not> P w)"
  by (auto simp: count_workers_def filter_empty_conv)

text \<open>An item is taken that is at least as urgent as any item of the queue.\<close>

lemma takes_urgent:
  assumes "WaitableQueue_Pop_timed (PQ_pops Compare) True (tp_queue s) 0 (Some pair) q'"
    "items_ok s" "0 < length (filter (\<lambda>x. p \<le> snd x) (tp_queue s))"
  shows "p \<le> snd pair \<and> item_ok (fst pair) (snd pair)"
proof -
  from assms(3) obtain y where "y \<in> set (tp_queue s)" "p \<le> snd y" by (auto simp: filter_empty_conv)
  with take_pair(3)[OF assms(1)] have "p \<le> snd pair" by fastforce
  with take_pair(1)[OF assms(1)] assms(2) show ?thesis by (auto simp: items_ok_def)
qed

lemma pills_urgent: "items_ok s \<Longrightarrow> pills s = length (filter (\<lambda>x. ADMIN_STOP \<le> snd x) (tp_queue s))"
proof -
  assume "items_ok s"
  then have "\<forall>x \<in> set (tp_queue s). snd x \<le> ADMIN_STOP"
  proof (intro ballI)
    fix x assume "items_ok s" "x \<in> set (tp_queue s)"
    then have "item_ok (fst x) (snd x)" by (simp add: items_ok_def)
    then show "snd x \<le> ADMIN_STOP" by (cases "fst x") (auto simp: prio_defs)
  qed
  then show ?thesis unfolding pills_def by (auto intro!: arg_cong[of _ _ length] filter_cong)
qed

text \<open>
  The workers no step of a worker wakes: asleep or going to sleep, or about to look at a
  condition that is false.
\<close>

fun stranded :: "bool \<Rightarrow> 'a worker \<Rightarrow> bool" where
  "stranded resume (Waiting p) = True"
| "stranded resume (Blocking p) = True"
| "stranded resume (Entering p) = (\<not> resume)"
| "stranded resume (Pausing p) = (\<not> resume)"
| "stranded resume _ = False"

lemma stranded_after_run [simp]: "\<not> stranded r (after_run p)"
  by (simp add: after_run_def)

lemma doomed_step:
  assumes "worker_step s s'" "doomed s"
  shows "doomed s' \<and> tp_started s' = tp_started s \<and> tp_resume s' = tp_resume s \<and>
    count_workers (stranded (tp_resume s)) s' = count_workers (stranded (tp_resume s)) s"
proof -
  have "doomed s'" "tp_resume s' = tp_resume s"
    using worker_step_stepped[OF assms(1)] assms(2) by (auto simp: doomed_def stepped_def)
  moreover have "tp_started s' = tp_started s \<and>
      count_workers (stranded (tp_resume s)) s' = count_workers (stranded (tp_resume s)) s"
    using assms(1)
  proof cases
    case (take_item i pair q')
    then have "0 < pills s" using assms(2) count_workers_pos[of "tp_workers s ! i" s alive] nth_mem[OF take_item(2)]
      by (simp add: doomed_def)
    then have "fst pair = Kill"
      using takes_urgent[OF take_item(4), of ADMIN_STOP] assms(2) pills_urgent[of s]
      by (cases "fst pair") (auto simp: doomed_def prio_defs)
    then show ?thesis using count_update[OF take_item(2), of s' "after_run (snd pair)" "stranded (tp_resume s)"]
      by (simp add: take_item(1,3) run_item_def)
  next
    case (finish i a p)
    then show ?thesis using count_update[OF finish(2), of s' "after_run p" "stranded (tp_resume s)"] by simp
  next
    case (enter i p)
    then show ?thesis using count_update[OF enter(2), of s' "Pausing p" "stranded (tp_resume s)"] by simp
  next
    case (wake i p)
    then show ?thesis using count_update[OF wake(2), of s' "after_run p" "stranded (tp_resume s)"] by simp
  next
    case (decline i p)
    then show ?thesis using count_update[OF decline(2), of s' "Blocking p" "stranded (tp_resume s)"] by simp
  next
    case (sleep i p)
    then show ?thesis using count_update[OF sleep(2), of s' "Waiting p" "stranded (tp_resume s)"] by simp
  qed
  ultimately show ?thesis by blast
qed

lemma doomed_run:
  "(worker_step ^^ n) s s' \<Longrightarrow> doomed s \<Longrightarrow> doomed s' \<and> tp_started s' = tp_started s \<and>
    tp_resume s' = tp_resume s \<and> count_workers (stranded (tp_resume s)) s' = count_workers (stranded (tp_resume s)) s"
proof (induction n arbitrary: s')
  case (Suc n)
  then obtain t where "(worker_step ^^ n) s t" "worker_step t s'" by auto
  with Suc.IH[of t] Suc.prems(2) doomed_step[of t s'] show ?case by auto
qed auto

lemma doomed_at_rest:
  assumes "doomed s" "at_rest s"
  shows "joined s \<longleftrightarrow> count_workers (stranded (tp_resume s)) s = 0"
proof
  assume "joined s"
  then show "count_workers (stranded (tp_resume s)) s = 0" by (auto simp: count_workers_0 joined_def)
next
  assume c: "count_workers (stranded (tp_resume s)) s = 0"
  show "joined s" unfolding joined_def
  proof (rule ballI, rule ccontr)
    fix w assume w: "w \<in> set (tp_workers s)" "alive w"
    with assms(1) count_workers_pos[of w s alive] have "0 < pills s" by (simp add: doomed_def)
    then have "tp_queue s \<noteq> []" by (auto simp: pills_def)
    moreover have "\<not> stranded (tp_resume s) w" using c w(1) by (simp add: count_workers_0)
    ultimately show False using assms(2) w by (cases w) (force simp: at_rest_def)+
  qed
qed

text \<open>
  C36: the pool is well formed in every state it can reach, whatever users call and however the
  workers and the single pushes of the calls are interleaved: items have the priority of their
  kind, user tasks below the pause items and these below the stop items; no worker is inside a
  task that was to stop it; \<open>m_pause_ready\<close> is the number of workers inside \<open>PauseTask\<close>; and
  besides one thread for each stop item that has not been taken yet there are as many as
  \<open>m_thread_num\<close> says, while \<open>SetNumThreads\<close> starts threads \<open>i\<close>, while it stops some the larger of
  \<open>i\<close> and \<open>num\<close>, and while the destructor runs as many as it still has items to push.
\<close>
theorem pool_well_formed:
  assumes "pool_reachable s"
  shows "(\<forall>x \<in> set (tp_queue s). case fst x of UserTask a \<Rightarrow> snd x < ADMIN | PauseTask \<Rightarrow> snd x = ADMIN | Kill \<Rightarrow> snd x = ADMIN_STOP) \<and>
    (\<forall>w \<in> set (tp_workers s). worker_ok w) \<and> tp_pause_ready s = count_workers is_paused s \<and>
    count_workers alive s = pills s + (case tp_call s of Resize_grow i num \<Rightarrow> i | Resize_kill i num \<Rightarrow> max i num |
      Destroy_push k \<Rightarrow> k | _ \<Rightarrow> tp_num s)"
proof -
  have "item_ok (fst x) (snd x) = (case fst x of UserTask a \<Rightarrow> snd x < ADMIN | PauseTask \<Rightarrow> snd x = ADMIN | Kill \<Rightarrow> snd x = ADMIN_STOP)"
    for x :: "'a tp_item" by (cases "fst x") simp_all
  moreover have "threads_due c n = (case c of Resize_grow i num \<Rightarrow> i | Resize_kill i num \<Rightarrow> max i num | Destroy_push k \<Rightarrow> k | _ \<Rightarrow> n)"
    for c n by (cases c) simp_all
  ultimately show ?thesis using reachable_pool_ok[OF assms] by (simp add: pool_ok_def items_ok_def)
qed

text \<open>A pool of three threads that is being resized to one, after the first stop item has been pushed.\<close>

definition shrinking_pool :: "nat pool" where
  "shrinking_pool = (ThreadPool_ctor 3)\<lparr>tp_queue := [(Kill, ADMIN_STOP)], tp_call := Resize_kill 2 1\<rparr>"

lemma shrinking_pool_reachable: "pool_reachable shrinking_pool"
proof -
  have "pool_reachable ((ThreadPool_ctor 3 :: nat pool)\<lparr>tp_call := Resize_grow (tp_num (ThreadPool_ctor 3 :: nat pool)) 1\<rparr>)"
    by (intro tp_resize tp_start) (simp add: ThreadPool_ctor_def)
  from tp_in_resize[OF tp_in_resize[OF this]] show ?thesis
    by (simp add: ThreadPool_ctor_def shrinking_pool_def AdminAddTask_def WaitableQueue_Push_def PQ_push_def)
qed

theorem pool_well_formed_witness:
  "pool_reachable shrinking_pool \<and> count_workers alive shrinking_pool = 3 \<and> pills shrinking_pool = 1 \<and> tp_call shrinking_pool = Resize_kill 2 1"
  using pool_well_formed[OF shrinking_pool_reachable] shrinking_pool_reachable
  by (simp add: shrinking_pool_def pills_def)

text \<open>
  C25: From the moment the destructor has sent its items, one by one while the workers run and
  users go on, the workers take a bounded number of steps and start no further task: whatever
  users had queued is dropped. When nothing more can happen, all threads have exited, so that
  the joins return, exactly if at that moment no worker was asleep or going to sleep inside
  \<open>PauseTask\<close>; a paused pool is never destroyed.
\<close>
theorem destructor_joins:
  assumes "pool_reachable s" and "tp_call s = Destroy_push 0"
  shows "\<forall>n s'. (worker_step ^^ n) s s' \<longrightarrow> n \<le> work s \<and> tp_started s' = tp_started s \<and>
    ((\<forall>s''. \<not> worker_step s' s'') \<longrightarrow> (joined s' \<longleftrightarrow> count_workers (stranded (tp_resume s)) s = 0))"
proof (intro allI impI)
  fix n s' assume run: "(worker_step ^^ n) s s'"
  note r = doomed_run[OF run doomed_dtor[OF reachable_pool_ok[OF assms(1)] assms(2)]]
  have "(\<forall>s''. \<not> worker_step s' s'') \<longrightarrow> (joined s' \<longleftrightarrow> count_workers (stranded (tp_resume s)) s = 0)"
    unfolding stuck_at_rest using r doomed_at_rest[of s'] by auto
  then show "n \<le> work s \<and> tp_started s' = tp_started s \<and>
    ((\<forall>s''. \<not> worker_step s' s'') \<longrightarrow> (joined s' \<longleftrightarrow> count_workers (stranded (tp_resume s)) s = 0))"
    using r worker_run_bound[OF run] by auto
qed

text \<open>The destructor gets there: it never waits while it sends.\<close>

lemma destructor_sends:
  assumes "pool_reachable s" and "tp_call s = Destroy_push k"
  shows "\<exists>s'. pool_reachable s' \<and> tp_call s' = Destroy_push 0 \<and> tp_queue s' = replicate k (Kill, ADMIN_STOP) @ tp_queue s \<and>
    tp_workers s' = tp_workers s \<and> tp_resume s' = tp_resume s \<and> tp_started s' = tp_started s"
  using assms
proof (induction k arbitrary: s)
  case 0
  then show ?case by auto
next
  case (Suc k)
  from tp_in_dtor[OF Suc.prems(1)] Suc.prems(2)
  have "pool_reachable ((AdminAddTask Kill ADMIN_STOP s)\<lparr>tp_call := Destroy_push k\<rparr>)" by simp
  from Suc.IH[OF this] show ?case by (simp add: replicate_app_Cons_same)
qed

text \<open>A pool of one worker with a task in its queue, and the step in which the worker takes a more urgent item.\<close>

definition demo_pool :: "int pool" where
  "demo_pool = TP_AddTask 7 high (ThreadPool_ctor 1)"

lemma demo_pool_reachable: "pool_reachable demo_pool"
  unfolding demo_pool_def by (rule pool_reachable.tp_add, rule pool_reachable.tp_start)

lemma demo_pool_val: "demo_pool = \<lparr>tp_queue = [(UserTask 7, 2)], tp_workers = [Looping], tp_num = 1, tp_resume = False,
    tp_pause_ready = 0, tp_started = [], tp_call = No_call, tp_notifies = 0\<rparr>"
  by (simp add: demo_pool_def TP_AddTask_def AdminAddTask_def ThreadPool_ctor_def WaitableQueue_Push_def PQ_push_def)

lemma demo_take:
  assumes "tp_queue s = [pair, (UserTask 7, 2)]" "tp_workers s = [Looping]" "2 < snd pair"
  shows "worker_step s (run_item 0 pair (s\<lparr>tp_queue := [(UserTask 7, 2)]\<rparr>))"
  by (rule worker_step.take_item)
     (use assms in \<open>auto simp: WaitableQueue_Pop_timed_def WaitableQueue_IsEmpty_def PQ_pops_def PQ_front_def comes_after_def Compare_def\<close>)

theorem destructor_joins_witness:
  "\<exists>s s' :: int pool. pool_reachable s \<and> tp_call s = Destroy_push 0 \<and> (worker_step ^^ 1) s s' \<and> joined s' \<and> tp_started s' = []"
proof -
  have "pool_reachable (demo_pool\<lparr>tp_call := Destroy_push (tp_num demo_pool)\<rparr>)"
    by (rule tp_destroy[OF demo_pool_reachable]) (simp add: demo_pool_val)
  from destructor_sends[OF this, of 1] obtain s :: "int pool" where s: "pool_reachable s" "tp_call s = Destroy_push 0"
    "tp_queue s = [(Kill, ADMIN_STOP), (UserTask 7, 2)]" "tp_workers s = [Looping]" "tp_started s = []"
    by (auto simp: demo_pool_val)
  let ?s' = "run_item 0 (Kill, ADMIN_STOP) (s\<lparr>tp_queue := [(UserTask 7, 2)]\<rparr>)"
  have "worker_step s ?s'" by (rule demo_take) (simp_all add: s prio_defs)
  then have one: "(worker_step ^^ 1) s ?s'" by (simp add: eq_OO)
  have "at_rest ?s'" by (simp add: at_rest_def run_item_def after_run_def s)
  then have "\<forall>s''. \<not> worker_step ?s' s''" by (simp add: stuck_at_rest)
  moreover have "count_workers (stranded (tp_resume s)) s = 0" by (simp add: s count_workers_def)
  ultimately show ?thesis using destructor_joins[OF s(1,2)] one s by metis
qed

subsection \<open>Pausing the pool\<close>

text \<open>
  The workers that could still take a task, and the items of the pool in its queue. While
  \<open>Pause\<close> has \<open>k\<close> items left to push and nobody has resumed, there are at most \<open>k\<close> more of the
  former than of the latter; so a task of a user can still be taken before the last push.
\<close>

definition unpaused :: "'a worker \<Rightarrow> bool" where
  "unpaused w \<longleftrightarrow> alive w \<and> \<not> is_paused w \<and> \<not> is_entering w"

definition admins :: "'a pool \<Rightarrow> nat" where
  "admins s = length (filter (\<lambda>x. ADMIN \<le> snd x) (tp_queue s))"

definition gap :: "nat \<Rightarrow> 'a pool \<Rightarrow> bool" where
  "gap k s \<longleftrightarrow> count_workers unpaused s \<le> admins s + k"

lemma unpaused_simps [simp]:
  "unpaused Looping" "unpaused (Running a p)" "\<not> unpaused (Entering p)" "\<not> unpaused (Pausing p)" "\<not> unpaused (Blocking p)"
  "\<not> unpaused (Waiting p)" "\<not> unpaused Exited"
  by (simp_all add: unpaused_def)

lemma alive_split:
  "count_workers alive s = count_workers unpaused s + count_workers is_entering s + count_workers is_paused s"
proof -
  have "length (filter alive ws) = length (filter unpaused ws) + length (filter is_entering ws) + length (filter is_paused ws)"
    for ws :: "'a worker list"
  proof (induction ws)
    case (Cons w ws)
    then show ?case by (cases w) simp_all
  qed simp
  then show ?thesis by (simp add: count_workers_def)
qed

lemma pills_admins: "pills s \<le> admins s"
proof -
  have "length (filter (\<lambda>x. snd x = ADMIN_STOP) q) \<le> length (filter (\<lambda>x. ADMIN \<le> snd x) q)" for q :: "'a tp_item list"
    by (induction q) (auto simp: prio_defs)
  then show ?thesis by (simp add: pills_def admins_def)
qed

lemma gap_inside:
  assumes "gap k s" "i < length (tp_workers s)" "tp_workers s' = (tp_workers s)[i := w]" "tp_queue s' = tp_queue s"
    and "unpaused w \<Longrightarrow> unpaused (tp_workers s ! i)"
  shows "gap k s'"
  using count_update[OF assms(2,3), of unpaused] assms by (auto simp: gap_def admins_def split: if_splits)

lemma gap_step:
  assumes "worker_step s s'" "gap k s" "items_ok s" "\<not> tp_resume s"
  shows "gap k s' \<and> (k = 0 \<longrightarrow> tp_started s' = tp_started s)"
  using assms(1)
proof cases
  case (take_item i pair q')
  have ok: "item_ok (fst pair) (snd pair)" using take_pair(1)[OF take_item(4)] assms(3) by (auto simp: items_ok_def)
  obtain w where w: "tp_workers s' = (tp_workers s)[i := w]" "unpaused w \<longleftrightarrow> snd pair < ADMIN" "tp_queue s' = q'"
      "snd pair < ADMIN \<or> tp_started s' = tp_started s"
    using ok by (cases "fst pair") (auto simp: take_item(1) run_item_def after_run_def prio_defs)
  have "0 < count_workers unpaused s" using count_workers_pos[OF nth_mem[OF take_item(2)], of unpaused] take_item(3) by simp
  then have "ADMIN \<le> snd pair" if "k = 0"
    using takes_urgent[OF take_item(4) assms(3), of ADMIN] assms(2) that unfolding gap_def admins_def by linarith
  moreover have "admins s = admins s' + (if ADMIN \<le> snd pair then 1 else 0)"
    using take_pair(4)[OF take_item(4), of "\<lambda>x. ADMIN \<le> snd x"] by (simp add: admins_def w(3))
  ultimately show ?thesis using count_update[OF take_item(2) w(1), of unpaused] w take_item(3) assms(2)
    by (auto simp: gap_def split: if_splits)
next
  case (finish i a p)
  then show ?thesis using gap_inside[OF assms(2) finish(2), of s' "after_run p"] by simp
next
  case (enter i p)
  then show ?thesis using gap_inside[OF assms(2) enter(2), of s' "Pausing p"] by simp
next
  case (wake i p)
  then show ?thesis using assms(4) by simp
next
  case (decline i p)
  then show ?thesis using gap_inside[OF assms(2) decline(2), of s' "Blocking p"] by simp
next
  case (sleep i p)
  then show ?thesis using gap_inside[OF assms(2) sleep(2), of s' "Waiting p"] by simp
qed

lemma gap_spurious: "spurious s s' \<Longrightarrow> gap k s \<Longrightarrow> gap k s'"
  unfolding spurious_def
proof (elim exE conjE)
  fix i p assume "gap k s" "i < length (tp_workers s)" "s' = s\<lparr>tp_workers := (tp_workers s)[i := Pausing p]\<rparr>"
  then show "gap k s'" using gap_inside[of k s i s' "Pausing p"] by simp
qed

lemma gap_add: "gap k s \<Longrightarrow> gap k (TP_AddTask a p s)"
  using priority_below_admin[of p] by (simp add: TP_AddTask_def gap_def admins_def push_ok del: priority_below_admin)

lemma gap_notify: "gap k s \<Longrightarrow> gap k (Resume_notify s)"
proof -
  have "unpaused (notified w) = unpaused w" for w :: "'a worker" by (cases w) simp_all
  then show "gap k s \<Longrightarrow> gap k (Resume_notify s)"
    by (simp add: gap_def admins_def Resume_notify_def count_workers_def filter_map comp_def)
qed

definition pause_gap :: "'a pool \<Rightarrow> bool" where
  "pause_gap s \<longleftrightarrow> (\<forall>k. tp_call s = Pause_push k \<and> \<not> tp_resume s \<longrightarrow> gap k s)"

lemma worker_frame:
  assumes "worker_step s s'" "pool_ok s"
  shows "tp_call s' = tp_call s" "tp_resume s' = tp_resume s" "tp_num s' = tp_num s" "items_ok s"
  using worker_step_stepped[of s s'] assms by (auto simp: pool_ok_def stepped_def)

lemma pause_gap_Pause:
  assumes "pool_ok s" "pause_gap s" "tp_call s = c"
  shows "pause_gap (Pause c s)"
proof (cases "(c, s)" rule: Pause.cases)
  case (2 s1)
  have "count_workers unpaused s \<le> count_workers alive s" using alive_split[of s] by simp
  with 2 assms pills_admins[of s] show ?thesis by (simp add: pause_gap_def gap_def pool_ok_def admins_def)
next
  case (3 i s1)
  with assms(2,3) show ?thesis by (auto simp: pause_gap_def gap_def admins_def push_ok)
qed (use assms in \<open>auto simp: pause_gap_def\<close>)

lemma reachable_pause_gap: "pool_reachable s \<Longrightarrow> pause_gap s"
proof (induction rule: pool_reachable.induct)
  case (tp_work s s')
  note ok = reachable_pool_ok[OF tp_work.hyps(1)]
  show ?case using tp_work.IH gap_step[OF tp_work.hyps(2)] worker_frame[OF tp_work.hyps(2) ok] by (simp add: pause_gap_def)
next
  case (tp_spurious s s')
  then show ?case using gap_spurious[OF tp_spurious.hyps(2)] by (auto simp: pause_gap_def spurious_def)
next
  case (tp_add s a p)
  then show ?case using gap_add[of _ s a p] by (simp add: pause_gap_def TP_AddTask_def)
next
  case (tp_resume_notify s)
  then show ?case using gap_notify[of _ s] by (simp add: pause_gap_def Resume_notify_def)
next
  case (tp_in_pause s)
  then show ?case using pause_gap_Pause reachable_pool_ok by blast
next
  case (tp_in_resize s)
  then show ?case by (cases "(tp_call s, s)" rule: SetNumThreads.cases) (auto simp: pause_gap_def)
next
  case (tp_in_dtor s)
  then show ?case by (cases "(tp_call s, s)" rule: ThreadPool_dtor.cases) (auto simp: pause_gap_def)
qed (auto simp: pause_gap_def ThreadPool_ctor_def Resume_set_def)

text \<open>
  The moves of a pool whose \<open>Pause\<close> has pushed its last item: workers, spurious wake-ups, users
  that add tasks, calls of \<open>Resume\<close> that had set the flag before it was reset, and \<open>Pause\<close> itself.
\<close>

definition pool_moves :: "'a pool \<Rightarrow> 'a pool \<Rightarrow> bool" where
  "pool_moves s s' \<longleftrightarrow> worker_step s s' \<or> spurious s s' \<or> (\<exists>a p. s' = TP_AddTask a p s) \<or>
     0 < tp_notifies s \<and> s' = Resume_notify s \<or> s' = Pause (tp_call s) s"

definition pausing :: "'a pool \<Rightarrow> bool" where
  "pausing s \<longleftrightarrow> pool_ok s \<and> \<not> tp_resume s \<and> gap 0 s \<and> tp_call s \<in> {Pause_push 0, No_call}"

lemma pausing_moves:
  assumes "pool_moves s s'" "pausing s"
  shows "pausing s' \<and> tp_started s' = tp_started s"
  using assms(1) unfolding pool_moves_def
proof (elim disjE exE conjE)
  assume w: "worker_step s s'"
  have p: "pool_ok s" using assms(2) by (simp add: pausing_def)
  from worker_frame[OF w p] worker_step_ok[OF w p] gap_step[OF w, of 0] assms(2) show ?thesis by (simp add: pausing_def)
next
  assume s: "spurious s s'"
  then have "tp_call s' = tp_call s" "tp_resume s' = tp_resume s" "tp_started s' = tp_started s" by (auto simp: spurious_def)
  with pool_ok_spurious[OF s] gap_spurious[OF s, of 0] assms(2) show ?thesis by (simp add: pausing_def)
next
  fix a p assume "s' = TP_AddTask a p s"
  with pool_ok_TP_AddTask[of s a p] gap_add[of 0 s a p] assms(2) show ?thesis by (simp add: pausing_def TP_AddTask_def)
next
  assume "s' = Resume_notify s"
  with pool_ok_Resume(2)[of s] gap_notify[of 0 s] assms(2) show ?thesis by (simp add: pausing_def Resume_notify_def)
next
  assume p: "s' = Pause (tp_call s) s"
  have "pool_ok s'" using pool_ok_Pause[of s "tp_call s"] assms(2) p by (simp add: pausing_def)
  with assms(2) p show ?thesis by (auto simp: pausing_def gap_def admins_def split: if_splits)
qed

lemma pausing_run: "pool_moves\<^sup>*\<^sup>* s s' \<Longrightarrow> pausing s \<Longrightarrow> pausing s' \<and> tp_started s' = tp_started s"
  by (induction rule: rtranclp_induct) (auto dest: pausing_moves)

lemma pausing_at_rest:
  assumes "pausing s" "at_rest s"
  shows "Pause_returns s"
proof -
  have e: "count_workers is_entering s = 0"
    unfolding count_workers_0
  proof
    fix w assume "w \<in> set (tp_workers s)"
    with assms(2) show "\<not> is_entering w" by (cases w) (auto simp: at_rest_def)
  qed
  have "count_workers unpaused s = 0"
  proof (rule ccontr)
    assume "count_workers unpaused s \<noteq> 0"
    then obtain w where "w \<in> set (tp_workers s)" "unpaused w" and "0 < admins s"
      using assms(1) count_workers_0[of unpaused s] by (fastforce simp: pausing_def gap_def)
    with assms(2) show False by (cases w) (force simp: at_rest_def admins_def)+
  qed
  with e assms(1) alive_split[of s] show ?thesis by (auto simp: pausing_def pool_ok_def Pause_returns_def)
qed

text \<open>
  C26: From the moment \<open>Pause\<close> has pushed its last item, if no \<open>Resume\<close> has set its flag since \<open>Pause\<close>
  reset it, and until one does or the next call begins, no queued task is taken, however many tasks users add meanwhile and whatever
  their priority; the wait of \<open>Pause\<close> is over at the latest when no worker can move, and once it is
  over there are no more workers outside \<open>PauseTask\<close> than items of a resize that are about to
  stop one. (Before the last push a worker can still take a task.)
\<close>
theorem Pause_quiesces:
  assumes "pool_reachable s" and "tp_call s = Pause_push 0" and "\<not> tp_resume s"
  shows "\<forall>s'. pool_moves\<^sup>*\<^sup>* s s' \<longrightarrow> tp_started s' = tp_started s \<and>
    ((\<forall>s''. \<not> worker_step s' s'') \<longrightarrow> Pause_returns s') \<and>
    (Pause_returns s' \<longrightarrow> count_workers (\<lambda>w. alive w \<and> \<not> is_paused w) s' \<le> pills s')"
proof (intro allI impI)
  fix s' assume run: "pool_moves\<^sup>*\<^sup>* s s'"
  have "pausing s" using reachable_pool_ok[OF assms(1)] reachable_pause_gap[OF assms(1)] assms(2,3)
    by (simp add: pausing_def pause_gap_def)
  with pausing_run[OF run] have p: "pausing s'" "tp_started s' = tp_started s" by auto
  have "(\<forall>s''. \<not> worker_step s' s'') \<longrightarrow> Pause_returns s'" using pausing_at_rest[OF p(1)] stuck_at_rest by blast
  moreover have "length (filter (\<lambda>w. alive w \<and> \<not> is_paused w) ws) + length (filter is_paused ws) = length (filter alive ws)"
    for ws :: "'a worker list" by (induction ws) auto
  then have "count_workers (\<lambda>w. alive w \<and> \<not> is_paused w) s' + count_workers is_paused s' = count_workers alive s'"
    by (simp add: count_workers_def)
  with p(1) have "Pause_returns s' \<longrightarrow> count_workers (\<lambda>w. alive w \<and> \<not> is_paused w) s' \<le> pills s'"
    by (auto simp: pausing_def pool_ok_def Pause_returns_def)
  ultimately show "tp_started s' = tp_started s \<and> ((\<forall>s''. \<not> worker_step s' s'') \<longrightarrow> Pause_returns s') \<and>
    (Pause_returns s' \<longrightarrow> count_workers (\<lambda>w. alive w \<and> \<not> is_paused w) s' \<le> pills s')" using p(2) by blast
qed

text \<open>The pool of one worker and one task, after \<open>Pause\<close> has pushed its item.\<close>

definition paused_pool :: "int pool" where
  "paused_pool = demo_pool\<lparr>tp_queue := [(PauseTask, ADMIN), (UserTask 7, 2)], tp_call := Pause_push 0\<rparr>"

lemma paused_pool_reachable: "pool_reachable paused_pool"
proof -
  have "pool_reachable (demo_pool\<lparr>tp_call := Pause_spin\<rparr>)"
    by (rule tp_pause[OF demo_pool_reachable]) (simp add: demo_pool_val)
  from tp_in_pause[OF tp_in_pause[OF tp_in_pause[OF this]]] show ?thesis
    by (simp add: demo_pool_val paused_pool_def AdminAddTask_def WaitableQueue_Push_def PQ_push_def)
qed

theorem Pause_quiesces_witness:
  "\<exists>s'. pool_moves\<^sup>*\<^sup>* paused_pool s' \<and> tp_started s' = [] \<and> Pause_returns s' \<and>
    count_workers (\<lambda>w. alive w \<and> \<not> is_paused w) s' \<le> pills s'"
proof -
  let ?s1 = "run_item 0 (PauseTask, ADMIN) (paused_pool\<lparr>tp_queue := [(UserTask 7, 2)]\<rparr>)"
  let ?s2 = "?s1\<lparr>tp_workers := (tp_workers ?s1)[0 := Pausing ADMIN], tp_pause_ready := tp_pause_ready ?s1 + 1\<rparr>"
  have "worker_step paused_pool ?s1"
    by (rule demo_take) (simp_all add: paused_pool_def demo_pool_val prio_defs)
  moreover have "worker_step ?s1 ?s2"
    by (rule enter) (simp_all add: run_item_def paused_pool_def demo_pool_val)
  ultimately have run: "pool_moves\<^sup>*\<^sup>* paused_pool ?s2"
    by (meson pool_moves_def r_into_rtranclp rtranclp_trans)
  have "Pause_returns ?s2" by (simp add: Pause_returns_def run_item_def paused_pool_def demo_pool_val)
  moreover have "tp_call paused_pool = Pause_push 0" "\<not> tp_resume paused_pool" "tp_started paused_pool = []"
    by (simp_all add: paused_pool_def demo_pool_val)
  ultimately show ?thesis using Pause_quiesces[OF paused_pool_reachable, rule_format, OF _ _ run] run
    by (intro exI[of _ ?s2]) simp
qed

subsection \<open>A resumption that is lost\<close>

text \<open>
  A pool of one worker that is paused and resumed: the worker has found the condition of its
  wait false when \<open>Resume\<close> sets the flag and notifies, and goes to sleep after it.
\<close>

definition lost_pool :: "pool_call \<Rightarrow> 'a worker \<Rightarrow> bool \<Rightarrow> nat \<Rightarrow> 'a pool" where
  "lost_pool c w resume n = \<lparr>tp_queue = [], tp_workers = [w], tp_num = 1, tp_resume = resume, tp_pause_ready = n, tp_started = [],
     tp_call = c, tp_notifies = 0\<rparr>"

lemma lost_pool_reachable: "pool_reachable (lost_pool No_call (Waiting ADMIN) True 1)"
proof -
  let ?p = "(ThreadPool_ctor 1)\<lparr>tp_queue := [(PauseTask, ADMIN)], tp_call := Pause_push 0\<rparr>"
  have "pool_reachable ((ThreadPool_ctor 1)\<lparr>tp_call := Pause_spin\<rparr>)"
    by (rule tp_pause[OF tp_start]) (simp add: ThreadPool_ctor_def)
  from tp_in_pause[OF tp_in_pause[OF tp_in_pause[OF this]]] have "pool_reachable ?p"
    by (simp add: ThreadPool_ctor_def AdminAddTask_def WaitableQueue_Push_def PQ_push_def)
  moreover have "worker_step ?p (run_item 0 (PauseTask, ADMIN) (?p\<lparr>tp_queue := []\<rparr>))"
    by (rule take_item)
      (simp_all add: ThreadPool_ctor_def WaitableQueue_Pop_timed_def WaitableQueue_IsEmpty_def PQ_pops_def PQ_front_def comes_after_def)
  ultimately have "pool_reachable (run_item 0 (PauseTask, ADMIN) (?p\<lparr>tp_queue := []\<rparr>))" by (rule tp_work)
  then have "pool_reachable (lost_pool (Pause_push 0) (Entering ADMIN) False 0)"
    by (simp add: run_item_def lost_pool_def ThreadPool_ctor_def)
  moreover have "worker_step (lost_pool (Pause_push 0) (Entering ADMIN) False 0) (lost_pool (Pause_push 0) (Pausing ADMIN) False 1)"
    using enter[of 0 "lost_pool (Pause_push 0) (Entering ADMIN) False 0" ADMIN] by (simp add: lost_pool_def)
  moreover have "worker_step (lost_pool c (Pausing ADMIN) False 1) (lost_pool c (Blocking ADMIN) False 1)" for c
    using decline[of 0 "lost_pool c (Pausing ADMIN) False 1" ADMIN] by (simp add: lost_pool_def)
  ultimately have "pool_reachable (lost_pool (Pause_push 0) (Blocking ADMIN) False 1)" using tp_work by blast
  from tp_in_pause[OF this] have "pool_reachable (lost_pool No_call (Blocking ADMIN) False 1)" by (simp add: lost_pool_def)
  from tp_resume_notify[OF tp_resume_set[OF this]] have "pool_reachable (lost_pool No_call (Blocking ADMIN) True 1)"
    by (simp add: Resume_set_def Resume_notify_def lost_pool_def)
  moreover have "worker_step (lost_pool No_call (Blocking ADMIN) True 1) (lost_pool No_call (Waiting ADMIN) True 1)"
    using sleep[of 0 "lost_pool No_call (Blocking ADMIN) True 1" ADMIN] by (simp add: lost_pool_def)
  ultimately show ?thesis using tp_work by blast
qed

theorem Resume_can_be_lost:
  "\<exists>s :: int pool. pool_reachable s \<and> tp_resume s \<and> tp_num s = 1 \<and> count_workers is_paused s = 1 \<and> tp_call s = No_call \<and>
     (\<forall>a p s'. \<not> worker_step (TP_AddTask a p s) s') \<and>
     (\<forall>s'. (\<lambda>s s'. worker_step s s' \<or> s' = ThreadPool_dtor (tp_call s) s)\<^sup>*\<^sup>* (s\<lparr>tp_call := Destroy_push 1\<rparr>) s' \<longrightarrow> \<not> joined s')"
proof -
  let ?s = "lost_pool No_call (Waiting ADMIN) True 1 :: int pool"
  have asleep: "\<not> worker_step s s'" if "tp_workers s = [Waiting ADMIN]" for s s' :: "int pool"
    using stuck_at_rest[of s] that by (auto simp: at_rest_def)
  have dtor: "tp_workers (ThreadPool_dtor c s) = tp_workers s" for c and s :: "int pool"
    by (cases "(c, s)" rule: ThreadPool_dtor.cases) simp_all
  have "tp_workers s' = [Waiting ADMIN]"
    if "(\<lambda>s s'. worker_step s s' \<or> s' = ThreadPool_dtor (tp_call s) s)\<^sup>*\<^sup>* (?s\<lparr>tp_call := Destroy_push 1\<rparr>) s'" for s'
    using that by (induction rule: rtranclp_induct) (auto simp: dtor asleep lost_pool_def)
  then have "\<not> joined s'"
    if "(\<lambda>s s'. worker_step s s' \<or> s' = ThreadPool_dtor (tp_call s) s)\<^sup>*\<^sup>* (?s\<lparr>tp_call := Destroy_push 1\<rparr>) s'" for s'
    using that by (simp add: joined_def)
  moreover have "\<not> worker_step (TP_AddTask a p ?s) s'" for a p s'
    by (rule asleep) (simp add: lost_pool_def TP_AddTask_def)
  ultimately show ?thesis using lost_pool_reachable
    by (intro exI[of _ ?s]) (simp add: lost_pool_def count_workers_def)
qed

end
