(* ===== verification/Reactor.thy ===== *)
theory Reactor
  imports Args_Key Factory Thread_Pool
begin

text \<open>
  \<open>Reactor\<close> and \<open>FDListen\<close> (\<open>include/reactor.hpp\<close>, \<open>src/reactor.cpp\<close>), and \<open>InputMediator\<close>
  (\<open>src/input_mediator.cpp\<close>), which registers for every descriptor a callback that asks a
  proxy for the arguments of a command and gives the thread pool a task.

  A handler may itself register and unregister handlers and stop the reactor, and may throw,
  so it acts on the reactor and the rest of the process (\<open>'w\<close>) and has a fallible result.
  \<open>m_map\<close> is a hash map: the order in which its keys are visited is a parameter.
\<close>

datatype mode = mode_read | mode_write

type_synonym listen_pair = "int \<times> mode"

record 'h reactor =
  rc_map :: "listen_pair \<rightharpoonup> 'h"
  rc_isStopped :: bool

definition Reactor_ctor :: "'h reactor" where
  "Reactor_ctor = \<lparr>rc_map = Map.empty, rc_isStopped = False\<rparr>"

definition Register :: "int \<Rightarrow> mode \<Rightarrow> 'h \<Rightarrow> 'h reactor \<Rightarrow> 'h reactor" where
  "Register fd mode handle r = r\<lparr>rc_map := (rc_map r)((fd, mode) \<mapsto> handle)\<rparr>"

definition Unregister :: "int \<Rightarrow> mode \<Rightarrow> 'h reactor \<Rightarrow> 'h reactor" where
  "Unregister fd mode r = r\<lparr>rc_map := (rc_map r)((fd, mode) := None)\<rparr>"

definition Reactor_Stop :: "'h reactor \<Rightarrow> 'h reactor" where
  "Reactor_Stop r = r\<lparr>rc_isStopped := True\<rparr>"

subsection \<open>Listening\<close>

text \<open>
  \<open>select\<close> gets the highest descriptor plus one and the two sets, and returns its result and
  the sets as it leaves them. \<open>FD_SET\<close> outside of an \<open>fd_set\<close> is undefined.
\<close>

type_synonym select_fun = "int \<Rightarrow> int set \<Rightarrow> int set \<Rightarrow> int \<times> int set \<times> int set"

definition FD_SETSIZE :: int where "FD_SETSIZE = 1024"

fun fd_set_loop :: "listen_pair list \<Rightarrow> int set \<times> int set \<times> int \<Rightarrow> (int set \<times> int set \<times> int) result" where
  "fd_set_loop [] st = Inr st"
| "fd_set_loop ((fd, mode) # v) (fd_r, fd_w, fd_max) =
     (if fd < 0 \<or> FD_SETSIZE \<le> fd then Inl Undefined
      else fd_set_loop v
        (if mode = mode_read then insert fd fd_r else fd_r,
         if mode = mode_read then fd_w else insert fd fd_w,
         if fd > fd_max then fd else fd_max))"

definition FDListen_Listen :: "select_fun \<Rightarrow> listen_pair list \<Rightarrow> listen_pair list result" where
  "FDListen_Listen select fd_vector =
     bindE (fd_set_loop fd_vector ({}, {}, 0)) (\<lambda>(fd_r, fd_w, fd_max).
     case select (fd_max + 1) fd_r fd_w of
       (n, fd_r, fd_w) \<Rightarrow>
         if 0 \<ge> n then Inr fd_vector
         else Inr (filter (\<lambda>it. fst it \<in> fd_r \<or> fst it \<in> fd_w) fd_vector))"

subsection \<open>The loop\<close>

type_synonym ('h, 'w) handler_call = "'h \<Rightarrow> int \<Rightarrow> mode \<Rightarrow> 'h reactor \<times> 'w \<Rightarrow> ('h reactor \<times> 'w) result"

fun dispatch :: "('h, 'w) handler_call \<Rightarrow> listen_pair list \<Rightarrow> 'h reactor \<times> 'w \<Rightarrow> ('h reactor \<times> 'w) result" where
  "dispatch call [] st = Inr st"
| "dispatch call (i # v) st =
     (case rc_map (fst st) i of
        Some handler \<Rightarrow> bindE (call handler (fst i) (snd i) st) (dispatch call v)
      | None \<Rightarrow> dispatch call v st)"

definition Reactor_round ::
    "('h, 'w) handler_call \<Rightarrow> ((listen_pair \<rightharpoonup> 'h) \<Rightarrow> listen_pair list) \<Rightarrow> ('w \<Rightarrow> listen_pair list \<Rightarrow> listen_pair list result) \<Rightarrow>
      'h reactor \<times> 'w \<Rightarrow> ('h reactor \<times> 'w) result" where
  "Reactor_round call order listen st =
     bindE (listen (snd st) (order (rc_map (fst st)))) (\<lambda>vector. dispatch call vector st)"

text \<open>\<open>Run\<close> for a number of rounds: \<open>None\<close> when it is still running, \<open>Some (Inl e)\<close> when an exception has left it.\<close>

fun Reactor_Run ::
    "('h, 'w) handler_call \<Rightarrow> ((listen_pair \<rightharpoonup> 'h) \<Rightarrow> listen_pair list) \<Rightarrow> ('w \<Rightarrow> listen_pair list \<Rightarrow> listen_pair list result) \<Rightarrow>
      nat \<Rightarrow> 'h reactor \<times> 'w \<Rightarrow> ('h reactor \<times> 'w) result option" where
  "Reactor_Run call order listen 0 st = (if rc_isStopped (fst st) then Some (Inr st) else None)"
| "Reactor_Run call order listen (Suc rounds) st =
     (if rc_isStopped (fst st) then Some (Inr st)
      else case Reactor_round call order listen st of
             Inl e \<Rightarrow> Some (Inl e)
           | Inr st \<Rightarrow> Reactor_Run call order listen rounds st)"

subsection \<open>InputMediator\<close>

text \<open>
  The process behind the callbacks is the proxies' state and the pool; \<open>get\<close> is the virtual
  \<open>GetArgsKey\<close>, a null result is \<open>None\<close>. Tasks get the default priority.
\<close>

type_synonym ('p, 's) get_args = "'p \<Rightarrow> int \<Rightarrow> mode \<Rightarrow> 's \<Rightarrow> (args_key option \<times> 's) result"

definition ReactorCallback :: "('p, 's) get_args \<Rightarrow> ('p, 's \<times> args_key pool) handler_call" where
  "ReactorCallback get proxy fd mode st =
     (case st of (r, s, pool) \<Rightarrow>
        bindE (get proxy fd mode s) (\<lambda>(p, s).
          case p of
            Some a \<Rightarrow> Inr (r, s, TP_AddTask a normal pool)
          | None \<Rightarrow> Inr (r, s, pool)))"

fun InputMediator :: "'p reactor \<Rightarrow> (int \<times> mode \<times> 'p) list \<Rightarrow> 'p reactor" where
  "InputMediator r [] = r"
| "InputMediator r ((fd, mode, proxy) # fd_callbacks) = InputMediator (Register fd mode proxy r) fd_callbacks"

text \<open>The handler map is a registry, and the mediator fills it entry by entry.\<close>

interpretation reactor_registry: registry Reactor_ctor "\<lambda>r k h. Register (fst k) (snd k) h r" rc_map "\<lambda>_. True"
  by unfold_locales (auto simp: Reactor_ctor_def Register_def)

lemma InputMediator_add_all:
  "InputMediator r cbs = reactor_registry.add_all r (map (\<lambda>(fd, mode, p). ((fd, mode), p)) cbs)"
  by (induction r cbs rule: InputMediator.induct) auto

lemma InputMediator_find:
  assumes "distinct (map (\<lambda>c. (fst c, fst (snd c))) cbs)" "c \<in> set cbs"
  shows "rc_map (InputMediator r cbs) (fst c, fst (snd c)) = Some (snd (snd c))"
  unfolding InputMediator_add_all
  by (rule reactor_registry.find_add_all_distinct)
     (use assms in \<open>auto simp: comp_def split_beta image_iff intro!: bexI[of _ c]\<close>)

lemma InputMediator_stopped [simp]: "rc_isStopped (InputMediator r cbs) = rc_isStopped r"
  by (induction r cbs rule: InputMediator.induct) (auto simp: Register_def)

subsection \<open>What listening returns\<close>

text \<open>The documented behaviour of \<open>select\<close>: on success it keeps the descriptors that are ready.\<close>

definition select_meets :: "(listen_pair \<Rightarrow> bool) \<Rightarrow> select_fun \<Rightarrow> bool" where
  "select_meets ready select \<longleftrightarrow> (\<forall>nfds fd_r fd_w n r w. select nfds fd_r fd_w = (n, r, w) \<longrightarrow> 0 < n \<longrightarrow>
     r = {fd \<in> fd_r. fd < nfds \<and> ready (fd, mode_read)} \<and> w = {fd \<in> fd_w. fd < nfds \<and> ready (fd, mode_write)})"

definition fds_of :: "mode \<Rightarrow> listen_pair list \<Rightarrow> int set" where
  "fds_of mode v = {fd. (fd, mode) \<in> set v}"

text \<open>An entry whose descriptor is ready in some mode it is registered for.\<close>

definition ready_in :: "(listen_pair \<Rightarrow> bool) \<Rightarrow> listen_pair list \<Rightarrow> listen_pair \<Rightarrow> bool" where
  "ready_in ready v it \<longleftrightarrow> (fst it, mode_read) \<in> set v \<and> ready (fst it, mode_read) \<or>
     (fst it, mode_write) \<in> set v \<and> ready (fst it, mode_write)"

definition fd_top :: "listen_pair list \<Rightarrow> int" where
  "fd_top v = fold (\<lambda>it m. max (fst it) m) v 0"

lemma fold_max_ge: "m \<le> fold (\<lambda>it m. max (fst it) m) v (m :: int)"
proof (induction v arbitrary: m)
  case (Cons it v)
  show ?case using Cons[of "max (fst it) m"] by simp
qed simp

lemma fold_max_bound: "it \<in> set v \<Longrightarrow> fst it \<le> fold (\<lambda>it m. max (fst it) m) v (m :: int)"
proof (induction v arbitrary: m)
  case (Cons jt v)
  then show ?case using fold_max_ge[of "max (fst jt) m" v] by auto
qed simp

lemma fd_set_loop_gathers:
  "(\<forall>it \<in> set v. 0 \<le> fst it \<and> fst it < FD_SETSIZE) \<Longrightarrow>
   fd_set_loop v (r, w, m) = Inr (r \<union> fds_of mode_read v, w \<union> fds_of mode_write v, fold (\<lambda>it m. max (fst it) m) v m)"
proof (induction v "(r, w, m)" arbitrary: r w m rule: fd_set_loop.induct)
  case 1
  then show ?case by (simp add: fds_of_def)
next
  case (2 fd mode v r w m)
  have "fds_of mode_read ((fd, mode) # v) = (if mode = mode_read then {fd} else {}) \<union> fds_of mode_read v"
    "fds_of mode_write ((fd, mode) # v) = (if mode = mode_read then {} else {fd}) \<union> fds_of mode_write v"
    by (cases mode; auto simp: fds_of_def)+
  with 2 show ?case by (auto simp: max_def)
qed

lemma FDListen_result:
  assumes "\<forall>it \<in> set v. 0 \<le> fst it \<and> fst it < FD_SETSIZE" and "select_meets ready select"
    and "fst (select (fd_top v + 1) (fds_of mode_read v) (fds_of mode_write v)) > 0"
  shows "FDListen_Listen select v = Inr (filter (ready_in ready v) v)"
proof -
  obtain n r w where s: "select (fd_top v + 1) (fds_of mode_read v) (fds_of mode_write v) = (n, r, w)"
    by (rule prod_cases3)
  then have n: "0 < n" using assms(3) by simp
  note rw = assms(2)[unfolded select_meets_def, rule_format, OF s n]
  have "fst it < fd_top v + 1" if "it \<in> set v" for it
    using fold_max_bound[OF that, of 0] by (simp add: fd_top_def)
  then have "filter (\<lambda>it. fst it \<in> r \<or> fst it \<in> w) v = filter (ready_in ready v) v"
    by (intro filter_cong) (auto simp: rw fds_of_def ready_in_def)
  then show ?thesis using assms(3) s fd_set_loop_gathers[OF assms(1), of "{}" "{}" 0]
    by (simp add: FDListen_Listen_def fd_top_def)
qed

text \<open>
  When \<open>select\<close> reports ready descriptors, \<open>FDListen\<close> returns, in order, the entries whose
  descriptor is ready in some mode it is registered for; these are exactly the ready entries
  if no descriptor is registered in both modes. When \<open>select\<close> fails or times out every entry is
  returned as if it were ready.
\<close>
theorem Listen_returns_ready:
  assumes "\<forall>it \<in> set v. 0 \<le> fst it \<and> fst it < FD_SETSIZE" and "select_meets ready select"
    and "n = fst (select (fd_top v + 1) (fds_of mode_read v) (fds_of mode_write v))"
  shows "FDListen_Listen select v =
      Inr (if n > 0 then filter (ready_in ready v) v else v) \<and>
    ((\<forall>fd. \<not> ((fd, mode_read) \<in> set v \<and> (fd, mode_write) \<in> set v)) \<longrightarrow>
      filter (ready_in ready v) v = filter ready v)"
proof (intro conjI impI)
  show "FDListen_Listen select v =
      Inr (if n > 0 then filter (ready_in ready v) v else v)"
  proof (cases "n > 0")
    case True
    then show ?thesis using FDListen_result[OF assms(1,2)] assms(3) by simp
  next
    case False
    then show ?thesis using fd_set_loop_gathers[OF assms(1), of "{}" "{}" 0] assms(3)
      by (cases "select (fd_top v + 1) (fds_of mode_read v) (fds_of mode_write v)")
         (simp add: FDListen_Listen_def fd_top_def)
  qed
next
  assume one: "\<forall>fd. \<not> ((fd, mode_read) \<in> set v \<and> (fd, mode_write) \<in> set v)"
  have "ready_in ready v it \<longleftrightarrow> ready it" if "it \<in> set v" for it
    using one that by (cases it; cases "snd it") (auto simp: ready_in_def)
  then show "filter (ready_in ready v) v = filter ready v"
    by (rule filter_cong[OF refl])
qed

theorem Listen_returns_ready_witness:
  "FDListen_Listen (\<lambda>nfds r w. (1, r \<inter> {4}, {})) [(3, mode_read), (4, mode_read)] = Inr [(4, mode_read)]"
proof -
  have m: "select_meets (\<lambda>it. it = (4, mode_read)) (\<lambda>nfds r w. (1, {fd \<in> r. fd < nfds \<and> fd = 4}, {}))"
    by (auto simp: select_meets_def)
  have e: "{fd \<in> {3, 4 :: int}. fd < 5 \<and> fd = 4} = {3, 4} \<inter> {4}" by auto
  show ?thesis
    using Listen_returns_ready[of "[(3, mode_read), (4, mode_read)]" "\<lambda>it. it = (4, mode_read)"
        "\<lambda>nfds r w. (1, {fd \<in> r. fd < nfds \<and> fd = 4}, {})" 1] m
    by (auto simp: FD_SETSIZE_def FDListen_Listen_def)
qed

subsection \<open>Dispatching to the proxies\<close>

text \<open>What one round asks of the proxies: each ready entry once, in order.\<close>

fun gather :: "('p, 's) get_args \<Rightarrow> (listen_pair \<rightharpoonup> 'p) \<Rightarrow> listen_pair list \<Rightarrow> 's \<Rightarrow> (args_key list \<times> 's) result" where
  "gather get proxies [] s = Inr ([], s)"
| "gather get proxies (i # v) s =
     bindE (get (the (proxies i)) (fst i) (snd i) s) (\<lambda>(p, s).
     bindE (gather get proxies v s) (\<lambda>(as, s). Inr (case p of Some a \<Rightarrow> a # as | None \<Rightarrow> as, s)))"

lemma gather_cong: "(\<And>i. i \<in> set v \<Longrightarrow> m i = m' i) \<Longrightarrow> gather get m v s = gather get m' v s"
  by (induction v arbitrary: s) (auto intro!: bindE_cong)

lemma ReactorCallback_result:
  "ReactorCallback get proxy fd mode (r, s, pool) =
    bindE (get proxy fd mode s) (\<lambda>(p, s). Inr (r, s, case p of Some a \<Rightarrow> TP_AddTask a normal pool | None \<Rightarrow> pool))"
  by (auto simp: ReactorCallback_def bindE_def split: sum.splits option.splits)

lemma dispatch_gathers:
  assumes "\<forall>i \<in> set v. rc_map r i \<noteq> None"
  shows "dispatch (ReactorCallback get) v (r, s, pool) =
    bindE (gather get (rc_map r) v s) (\<lambda>(as, s). Inr (r, s, fold (\<lambda>a. TP_AddTask a normal) as pool))"
  using assms
proof (induction v arbitrary: s pool)
  case (Cons i v)
  then obtain p where p: "rc_map r i = Some p" by auto
  have IH: "dispatch (ReactorCallback get) v (r, s', pool') =
      bindE (gather get (rc_map r) v s') (\<lambda>(as, s). Inr (r, s, fold (\<lambda>a. TP_AddTask a normal) as pool'))" for s' pool'
    using Cons by simp
  show ?case
    by (cases "get p (fst i) (snd i) s")
       (auto simp: p ReactorCallback_result[of get p] IH bindE_assoc split: prod.splits option.splits intro!: bindE_cong)
qed simp

lemma fold_TP_AddTask:
  "fold (\<lambda>a. TP_AddTask a normal) as pool = pool\<lparr>tp_queue := rev (map (\<lambda>a. (UserTask a, priority_int normal)) as) @ tp_queue pool\<rparr>"
  by (induction as arbitrary: pool) (simp_all add: TP_AddTask_def AdminAddTask_def WaitableQueue_Push_def PQ_push_def)

text \<open>
  After \<open>InputMediator\<close> has registered its descriptors, a round of the reactor asks for
  every ready entry exactly the proxy registered for it, in order, and queues exactly one task
  of normal priority for each arguments object returned and none for a null; the handlers stay
  registered. An exception of a proxy leaves the round.
\<close>
theorem mediator_dispatches:
  assumes "distinct (map (\<lambda>c. (fst c, fst (snd c))) cbs)"
    and "set v \<subseteq> (\<lambda>c. (fst c, fst (snd c))) ` set cbs"
  shows "dispatch (ReactorCallback get) v (InputMediator Reactor_ctor cbs, s, pool) =
    bindE (gather get (map_of (map (\<lambda>c. ((fst c, fst (snd c)), snd (snd c))) cbs)) v s) (\<lambda>(as, s).
      Inr (InputMediator Reactor_ctor cbs, s,
           pool\<lparr>tp_queue := rev (map (\<lambda>a. (UserTask a, priority_int normal)) as) @ tp_queue pool\<rparr>))"
proof -
  let ?r = "InputMediator Reactor_ctor cbs" and ?m = "map_of (map (\<lambda>c. ((fst c, fst (snd c)), snd (snd c))) cbs)"
  have same: "rc_map ?r i = ?m i \<and> rc_map ?r i \<noteq> None" if "i \<in> set v" for i
  proof -
    from that assms(2) obtain c where c: "c \<in> set cbs" "i = (fst c, fst (snd c))" by auto
    have "?m i = Some (snd (snd c))"
      by (rule map_of_is_SomeI) (use c assms(1) in \<open>auto simp: comp_def\<close>)
    with InputMediator_find[OF assms(1) c(1), of Reactor_ctor] c(2) show ?thesis by simp
  qed
  have "gather get (rc_map ?r) v s = gather get ?m v s"
    using same by (intro gather_cong) blast
  moreover have "\<forall>i \<in> set v. rc_map ?r i \<noteq> None" using same by blast
  ultimately show ?thesis using dispatch_gathers[of v ?r get s pool] by (simp add: fold_TP_AddTask)
qed

theorem mediator_dispatches_witness:
  "dispatch (ReactorCallback (\<lambda>p fd mode s. Inr (if p then Some (ReadArgsKey 1 0 s) else None, s + 1)))
     [(4, mode_read), (5, mode_read)] (InputMediator Reactor_ctor [(5, mode_read, True), (4, mode_read, False)], 7, ThreadPool_ctor 2) =
   Inr (InputMediator Reactor_ctor [(5, mode_read, True), (4, mode_read, False)], 9,
     (ThreadPool_ctor 2)\<lparr>tp_queue := [(UserTask (ReadArgsKey 1 0 8), 1)]\<rparr>)"
  using mediator_dispatches[of "[(5, mode_read, True), (4, mode_read, False)]" "[(4, mode_read), (5, mode_read)]"
      "\<lambda>p fd mode s. Inr (if p then Some (ReadArgsKey 1 0 s) else None, s + 1)" 7 "ThreadPool_ctor 2"]
  by (simp add: ThreadPool_ctor_def)

end
