(* ===== verification/Dispatcher.thy ===== *)
theory Dispatcher
  imports Prelude
begin

text \<open>
  \<open>Dispatcher<EVENT>\<close>, \<open>ACallback\<close> and \<open>Callback\<close> (\<open>include/dispatcher.hpp\<close>): a dispatcher keeps a list of
  pointers to callbacks and a callback a pointer to its dispatcher, so that either may be
  destroyed first. One dispatcher and any number of callbacks, identified by numbers; using
  an object that does not exist is undefined. The operations work on every extension of the
  record, so that observers can keep state of their own in it.
\<close>

record disp =
  ds_alive :: bool
  ds_list :: "nat list"
  cb_alive :: "nat set"
  cb_dispatcher :: "nat set"

text \<open>\<open>cb_dispatcher\<close> holds the callbacks whose \<open>m_dispatcher\<close> is not null.\<close>

definition Dispatcher_ctor :: disp where
  "Dispatcher_ctor = \<lparr>ds_alive = True, ds_list = [], cb_alive = {}, cb_dispatcher = {}\<rparr>"

definition use_dispatcher :: "'a disp_scheme \<Rightarrow> ('a disp_scheme) result" where
  "use_dispatcher d = (if ds_alive d then Inr d else Inl Undefined)"

definition use_callback :: "nat \<Rightarrow> 'a disp_scheme \<Rightarrow> ('a disp_scheme) result" where
  "use_callback c d = (if c \<in> cb_alive d then Inr d else Inl Undefined)"

definition ACallback_ctor :: "nat \<Rightarrow> 'a disp_scheme \<Rightarrow> ('a disp_scheme) result" where
  "ACallback_ctor c d = Inr (d\<lparr>cb_alive := insert c (cb_alive d), cb_dispatcher := cb_dispatcher d - {c}\<rparr>)"

definition SetDispatcher :: "nat \<Rightarrow> 'a disp_scheme \<Rightarrow> ('a disp_scheme) result" where
  "SetDispatcher c d = bindE (use_callback c d) (\<lambda>d. Inr (d\<lparr>cb_dispatcher := insert c (cb_dispatcher d)\<rparr>))"

definition NotifyDeath :: "nat \<Rightarrow> 'a disp_scheme \<Rightarrow> ('a disp_scheme) result" where
  "NotifyDeath c d = bindE (use_callback c d) (\<lambda>d. Inr (d\<lparr>cb_dispatcher := cb_dispatcher d - {c}\<rparr>))"

definition Dispatcher_Register :: "nat \<Rightarrow> 'a disp_scheme \<Rightarrow> ('a disp_scheme) result" where
  "Dispatcher_Register c d = bindE (use_dispatcher d) (\<lambda>d. SetDispatcher c (d\<lparr>ds_list := ds_list d @ [c]\<rparr>))"

definition Dispatcher_Unregister :: "nat \<Rightarrow> 'a disp_scheme \<Rightarrow> ('a disp_scheme) result" where
  "Dispatcher_Unregister c d = bindE (use_dispatcher d) (\<lambda>d. Inr (d\<lparr>ds_list := removeAll c (ds_list d)\<rparr>))"

definition ACallback_dtor :: "nat \<Rightarrow> 'a disp_scheme \<Rightarrow> ('a disp_scheme) result" where
  "ACallback_dtor c d =
     bindE (use_callback c d) (\<lambda>d.
     bindE (if c \<in> cb_dispatcher d then Dispatcher_Unregister c d else Inr d) (\<lambda>d.
       Inr (d\<lparr>cb_alive := cb_alive d - {c}\<rparr>)))"

fun death_loop :: "nat list \<Rightarrow> 'a disp_scheme \<Rightarrow> ('a disp_scheme) result" where
  "death_loop [] d = Inr d"
| "death_loop (c # cs) d = bindE (NotifyDeath c d) (death_loop cs)"

definition Dispatcher_dtor :: "'a disp_scheme \<Rightarrow> ('a disp_scheme) result" where
  "Dispatcher_dtor d = bindE (use_dispatcher d) (\<lambda>d.
     bindE (death_loop (ds_list d) d) (\<lambda>d. Inr (d\<lparr>ds_alive := False\<rparr>)))"

text \<open>
  \<open>Notify\<close> goes through a copy of the list. What the observer behind a callback does, \<open>react\<close>, may
  change the dispatcher and the callbacks. The result lists the callbacks notified.
\<close>

fun notify_loop :: "(nat \<Rightarrow> 'a disp_scheme \<Rightarrow> ('a disp_scheme) result) \<Rightarrow> nat list \<Rightarrow> 'a disp_scheme \<Rightarrow> (nat list \<times> 'a disp_scheme) result" where
  "notify_loop react [] d = Inr ([], d)"
| "notify_loop react (c # temp) d =
     bindE (use_callback c d) (\<lambda>d.
     bindE (react c d) (\<lambda>d.
     bindE (notify_loop react temp d) (\<lambda>(cs, d). Inr (c # cs, d))))"

definition Dispatcher_Notify :: "(nat \<Rightarrow> 'a disp_scheme \<Rightarrow> ('a disp_scheme) result) \<Rightarrow> 'a disp_scheme \<Rightarrow> (nat list \<times> 'a disp_scheme) result" where
  "Dispatcher_Notify react d = bindE (use_dispatcher d) (\<lambda>d. notify_loop react (ds_list d) d)"

lemmas disp_defs = use_dispatcher_def use_callback_def ACallback_ctor_def SetDispatcher_def NotifyDeath_def
  Dispatcher_Register_def Dispatcher_Unregister_def ACallback_dtor_def Dispatcher_dtor_def

subsection \<open>Lifetimes\<close>

text \<open>
  A program of the client, and when it uses only objects that exist: it does not register a
  callback that does not exist, does not construct or destroy twice, and does not use the
  dispatcher after destroying it.
\<close>

datatype disp_op = New nat | Reg nat | Unreg nat | Del nat | Del_dispatcher

fun exec_op :: "disp_op \<Rightarrow> disp \<Rightarrow> disp result" where
  "exec_op (New c) d = ACallback_ctor c d"
| "exec_op (Reg c) d = Dispatcher_Register c d"
| "exec_op (Unreg c) d = Dispatcher_Unregister c d"
| "exec_op (Del c) d = ACallback_dtor c d"
| "exec_op Del_dispatcher d = Dispatcher_dtor d"

fun exec :: "disp_op list \<Rightarrow> disp \<Rightarrow> disp result" where
  "exec [] d = Inr d"
| "exec (op # ops) d = bindE (exec_op op d) (exec ops)"

fun lifetimes_ok :: "disp_op list \<Rightarrow> bool \<Rightarrow> nat set \<Rightarrow> bool" where
  "lifetimes_ok [] a cs = True"
| "lifetimes_ok (New c # ops) a cs = (c \<notin> cs \<and> lifetimes_ok ops a (insert c cs))"
| "lifetimes_ok (Reg c # ops) a cs = (a \<and> c \<in> cs \<and> lifetimes_ok ops a cs)"
| "lifetimes_ok (Unreg c # ops) a cs = (a \<and> lifetimes_ok ops a cs)"
| "lifetimes_ok (Del c # ops) a cs = (c \<in> cs \<and> lifetimes_ok ops a (cs - {c}))"
| "lifetimes_ok (Del_dispatcher # ops) a cs = (a \<and> lifetimes_ok ops False cs)"

text \<open>The listed callbacks exist; while nothing is unregistered by hand, the pointers agree.\<close>

definition disp_inv :: "disp \<Rightarrow> bool" where
  "disp_inv d \<longleftrightarrow> (ds_alive d \<longrightarrow> set (ds_list d) = cb_dispatcher d \<inter> cb_alive d) \<and>
     (\<not> ds_alive d \<longrightarrow> cb_dispatcher d \<inter> cb_alive d = {})"

lemma death_loop_clears:
  "set cs \<subseteq> cb_alive d \<Longrightarrow> death_loop cs d = Inr (d\<lparr>cb_dispatcher := cb_dispatcher d - set cs\<rparr>)"
proof (induction cs arbitrary: d)
  case (Cons c cs)
  have "A - {c} - set cs = A - insert c (set cs)" for A by auto
  with Cons show ?case by (simp add: NotifyDeath_def use_callback_def)
qed simp

lemma exec_op_safe:
  assumes "disp_inv d" "lifetimes_ok (op # ops) (ds_alive d) (cb_alive d)" "\<forall>c. op \<noteq> Unreg c"
  shows "\<exists>d'. exec_op op d = Inr d' \<and> disp_inv d' \<and> lifetimes_ok ops (ds_alive d') (cb_alive d')"
proof (cases op)
  case Del_dispatcher
  then have "death_loop (ds_list d) d = Inr (d\<lparr>cb_dispatcher := cb_dispatcher d - set (ds_list d)\<rparr>)"
    using assms(1,2) by (intro death_loop_clears) (auto simp: disp_inv_def)
  with Del_dispatcher assms(1,2) show ?thesis by (auto simp: Dispatcher_dtor_def use_dispatcher_def disp_inv_def)
next
  case (Del c)
  with assms show ?thesis by (auto simp: disp_defs disp_inv_def)
qed (use assms in \<open>auto simp: disp_defs disp_inv_def\<close>)

lemma exec_safe:
  "disp_inv d \<Longrightarrow> lifetimes_ok ops (ds_alive d) (cb_alive d) \<Longrightarrow> \<forall>c. Unreg c \<notin> set ops \<Longrightarrow> \<exists>d'. exec ops d = Inr d' \<and> disp_inv d'"
proof (induction ops arbitrary: d)
  case (Cons op ops)
  then obtain d' where "exec_op op d = Inr d'" "disp_inv d'" "lifetimes_ok ops (ds_alive d') (cb_alive d')"
    using exec_op_safe[of d op ops] by auto
  with Cons show ?case by auto
qed simp

lemma notify_loop_quiet:
  "set cs \<subseteq> cb_alive d \<Longrightarrow> notify_loop (\<lambda>_. Inr) cs d = Inr (cs, d)"
  by (induction cs) (auto simp: use_callback_def)

text \<open>
  Dispatchers and callbacks can be created, registered and destroyed in any order the client
  likes, the dispatcher before its callbacks or after them, without an access to a destroyed
  object, and a notification then reaches each registered callback once per registration, in
  the order of registration. This holds only as long as no callback is unregistered by
  hand: \<open>Unregister\<close> leaves the callback's pointer set, and destroying the dispatcher and then
  the callback follows it.
\<close>
theorem dispatcher_lifetimes:
  assumes "lifetimes_ok ops True {}" and "\<forall>c. Unreg c \<notin> set ops"
  shows "(\<exists>d. exec ops Dispatcher_ctor = Inr d \<and>
      (ds_alive d \<longrightarrow> Dispatcher_Notify (\<lambda>_. Inr) d = Inr (ds_list d, d) \<and> set (ds_list d) \<subseteq> cb_alive d)) \<and>
    lifetimes_ok [New 0, Reg 0, Unreg 0, Del_dispatcher, Del 0] True {} \<and>
    exec [New 0, Reg 0, Unreg 0, Del_dispatcher, Del 0] Dispatcher_ctor = Inl Undefined"
proof -
  have "disp_inv Dispatcher_ctor" by (simp add: disp_inv_def Dispatcher_ctor_def)
  then obtain d where d: "exec ops Dispatcher_ctor = Inr d" "disp_inv d"
    using exec_safe[of Dispatcher_ctor ops] assms by (auto simp: Dispatcher_ctor_def)
  then have "ds_alive d \<longrightarrow> Dispatcher_Notify (\<lambda>_. Inr) d = Inr (ds_list d, d) \<and> set (ds_list d) \<subseteq> cb_alive d"
    using notify_loop_quiet[of "ds_list d" d] by (auto simp: Dispatcher_Notify_def use_dispatcher_def disp_inv_def)
  with d(1) show ?thesis by (simp add: disp_defs Dispatcher_ctor_def)
qed

theorem dispatcher_lifetimes_witness:
  "exec [New 0, New 1, Reg 1, Reg 0, Del 1] Dispatcher_ctor =
     Inr \<lparr>ds_alive = True, ds_list = [0], cb_alive = {0}, cb_dispatcher = {0, 1}\<rparr> \<and>
   Dispatcher_Notify (\<lambda>_. Inr) \<lparr>ds_alive = True, ds_list = [0], cb_alive = {0}, cb_dispatcher = {0, 1}\<rparr> =
     Inr ([0], \<lparr>ds_alive = True, ds_list = [0], cb_alive = {0}, cb_dispatcher = {0, 1}\<rparr>)"
proof -
  have e: "exec [New 0, New 1, Reg 1, Reg 0, Del 1] Dispatcher_ctor =
     Inr \<lparr>ds_alive = True, ds_list = [0], cb_alive = {0}, cb_dispatcher = {0, 1}\<rparr>"
    by (auto simp: disp_defs Dispatcher_ctor_def)
  then show ?thesis using dispatcher_lifetimes[of "[New 0, New 1, Reg 1, Reg 0, Del 1]"] by auto
qed

end
