(* ===== verification/Dir_Monitor.thy ===== *)
theory Dir_Monitor
  imports Dispatcher
begin

text \<open>
  \<open>DirMonitor\<close> and \<open>DLLLoader\<close> (\<open>include/dirmonitor.hpp\<close>, \<open>src/dirmonitor.cpp\<close>): a thread reads the
  events of an inotify descriptor into a buffer, walks through the records in it and notifies
  its dispatcher of every shared object that appears in the directory; the loader, which is
  registered there, opens it. The destructor touches a file named \<open>exit.txt\<close>, whose event
  ends the thread.

  The results of \<open>read\<close>, and those of \<open>inotify_init\<close>, \<open>inotify_add_watch\<close> and \<open>dlopen\<close>, are
  parameters. The buffer is a list of bytes as in the message classes, so walking out of it
  is undefined. File names are byte strings.
\<close>

definition ascii :: "string \<Rightarrow> byte list" where
  "ascii s = map of_char s"

lemma c_str_ascii: "c_str s = ascii s @ [0]"
  by (simp add: c_str_def ascii_def)

subsection \<open>C strings in a buffer\<close>

definition strlen :: "byte list \<Rightarrow> nat \<Rightarrow> nat result" where
  "strlen mem p =
     (let n = length (takeWhile (\<lambda>b. b \<noteq> 0) (drop p mem))
      in if p + n < length mem then Inr n else Inl Undefined)"

text \<open>\<open>0 == strcmp(mem + p, s)\<close> for a literal \<open>s\<close> given with its terminating zero.\<close>

fun strcmp_eq :: "byte list \<Rightarrow> nat \<Rightarrow> byte list \<Rightarrow> bool result" where
  "strcmp_eq mem p [] = Inr True"
| "strcmp_eq mem p (c # cs) =
     bindE (get_u8 mem p) (\<lambda>(b, q). if b \<noteq> c then Inr False else strcmp_eq mem q cs)"

lemma strlen_at:
  assumes "mem = pre @ t @ 0 # post" "p = length pre" "0 \<notin> set t"
  shows "strlen mem p = Inr (length t)"
proof -
  have "takeWhile (\<lambda>b. b \<noteq> 0) (t @ 0 # post) = t" using assms(3) by (induction t) auto
  then show ?thesis by (simp add: strlen_def assms(1,2))
qed

lemma strcmp_eq_at:
  assumes "mem = pre @ t @ 0 # post" "p = length pre" "0 \<notin> set t" "0 \<notin> set s"
  shows "strcmp_eq mem p (s @ [0]) = Inr (t = s)"
  using assms
proof (induction s arbitrary: pre t p)
  case Nil
  then show ?case
    by (cases t) (auto simp: get_u8_at[of _ pre 0 post] get_u8_at[of _ pre _ "_ @ 0 # post"])
next
  case (Cons c s)
  show ?case
  proof (cases t)
    case Nil
    with Cons show ?thesis by (auto simp: get_u8_at[of _ pre 0 post])
  next
    case (Cons b t')
    have "get_u8 mem p = Inr (b, p + 1)" using Cons.prems Cons by (intro get_u8_at[of _ pre _ "t' @ 0 # post"]) simp_all
    moreover have "strcmp_eq mem (p + 1) (s @ [0]) = Inr (t' = s)"
      using Cons.prems Cons by (intro Cons.IH[of "pre @ [b]"]) simp_all
    ultimately show ?thesis using Cons by simp
  qed
qed

subsection \<open>Monitor\<close>

definition EVENT_SIZE :: nat where "EVENT_SIZE = 16"
definition EVENT_BUF_LEN :: nat where "EVENT_BUF_LEN = 1024 * (EVENT_SIZE + 16)"

definition IN_MODIFY :: u32 where "IN_MODIFY = 0x2"
definition IN_ATTRIB :: u32 where "IN_ATTRIB = 0x4"
definition IN_MOVED_TO :: u32 where "IN_MOVED_TO = 0x80"
definition IN_CREATE :: u32 where "IN_CREATE = 0x100"

record inotify_event =
  ev_wd :: u32
  ev_mask :: u32
  ev_cookie :: u32
  ev_len :: u32

definition get_event :: "byte list \<Rightarrow> nat \<Rightarrow> inotify_event result" where
  "get_event mem i =
     bindE (get_u32 mem i) (\<lambda>(wd, p).
     bindE (get_u32 mem p) (\<lambda>(mask, p).
     bindE (get_u32 mem p) (\<lambda>(cookie, p).
     bindE (get_u32 mem p) (\<lambda>(len, _).
       Inr \<lparr>ev_wd = wd, ev_mask = mask, ev_cookie = cookie, ev_len = len\<rparr>))))"

text \<open>
  The body of the inner loop for the record at \<open>i\<close>: whether \<open>Monitor\<close> returns, the record, and
  the dispatcher after a notification. \<open>react\<close> is what the observers do with a path.
\<close>

definition Monitor_event ::
    "(byte list \<Rightarrow> nat \<Rightarrow> 'a disp_scheme \<Rightarrow> ('a disp_scheme) result) \<Rightarrow> byte list \<Rightarrow> byte list \<Rightarrow> nat \<Rightarrow>
      'a disp_scheme \<Rightarrow> (bool \<times> inotify_event \<times> 'a disp_scheme) result" where
  "Monitor_event react path mem i d =
     bindE (get_event mem i) (\<lambda>event.
     if ev_len event \<noteq> 0 then
       let name = i + EVENT_SIZE in
       bindE (strlen mem name) (\<lambda>n.
       bindE (strcmp_eq mem (name + n - 3) (c_str ''.so'')) (\<lambda>so.
       if \<not> so then
         bindE (strcmp_eq mem name (c_str ''exit.txt'')) (\<lambda>ex.
           Inr (ex \<and> ev_mask event AND IN_ATTRIB \<noteq> 0, event, d))
       else if ev_mask event AND IN_CREATE \<noteq> 0 \<or> ev_mask event AND IN_MOVED_TO \<noteq> 0 then
         bindE (load mem name n) (\<lambda>s.
         bindE (Dispatcher_Notify (react (path @ ascii ''/'' @ s)) d) (\<lambda>(_, d).
           Inr (False, event, d)))
       else Inr (False, event, d)))
     else Inr (False, event, d))"

text \<open>\<open>i += EVENT_SIZE + event->len\<close>: a sum of type \<open>size_t\<close> converted to \<open>int\<close>.\<close>

definition advance :: "int \<Rightarrow> u32 \<Rightarrow> int" where
  "advance i len = sint (ucast (word_of_int i + (of_nat EVENT_SIZE + ucast len) :: u64) :: u32)"

text \<open>
  The inner loop. A record whose length wraps \<open>i\<close> around would keep it from ending, so it has
  fuel; the kernel writes no such record.
\<close>

fun Monitor_loop ::
    "nat \<Rightarrow> (byte list \<Rightarrow> nat \<Rightarrow> 'a disp_scheme \<Rightarrow> ('a disp_scheme) result) \<Rightarrow> byte list \<Rightarrow> byte list \<Rightarrow> int \<Rightarrow> int \<Rightarrow>
      'a disp_scheme \<Rightarrow> (bool \<times> 'a disp_scheme) result option" where
  "Monitor_loop 0 react path mem len i d = None"
| "Monitor_loop (Suc fuel) react path mem len i d =
     (if i < len then
        if i < 0 then Some (Inl Undefined)
        else (case Monitor_event react path mem (nat i) d of
            Inl e \<Rightarrow> Some (Inl e)
          | Inr (ret, event, d) \<Rightarrow>
              if ret then Some (Inr (True, d))
              else Monitor_loop fuel react path mem len (advance i (ev_len event)) d)
      else Some (Inr (False, d)))"

definition event_buffer :: "byte list \<Rightarrow> byte list" where
  "event_buffer bytes = take EVENT_BUF_LEN (bytes @ replicate EVENT_BUF_LEN 0)"

text \<open>
  \<open>Monitor\<close> on the results of its calls of \<open>read\<close>, \<open>None\<close> a failed one; after the last the thread
  is blocked. \<open>EVENT_BUF_LEN\<close> is more fuel than records fit into the buffer.
\<close>

fun Monitor ::
    "(byte list \<Rightarrow> nat \<Rightarrow> 'a disp_scheme \<Rightarrow> ('a disp_scheme) result) \<Rightarrow> byte list \<Rightarrow> byte list option list \<Rightarrow>
      'a disp_scheme \<Rightarrow> ('a disp_scheme) result option" where
  "Monitor react path [] d = Some (Inl Blocked)"
| "Monitor react path (None # reads) d = Some (Inl (Runtime_error ''read error''))"
| "Monitor react path (Some bytes # reads) d =
     (case Monitor_loop (Suc EVENT_BUF_LEN) react path (event_buffer bytes) (int (min EVENT_BUF_LEN (length bytes))) 0 d of
        None \<Rightarrow> None
      | Some (Inl e) \<Rightarrow> Some (Inl e)
      | Some (Inr (ret, d)) \<Rightarrow> if ret then Some (Inr d) else Monitor react path reads d)"

subsection \<open>What the kernel writes\<close>

text \<open>
  A record of the kernel: a name of non-zero bytes padded with at least one zero, or no name.
  Names have at most 255 bytes and the padding is below 16, so lengths stay below 2 to the 16.
\<close>

record kevent =
  k_wd :: u32
  k_mask :: u32
  k_cookie :: u32
  k_name :: "byte list"
  k_pad :: nat

definition k_len :: "kevent \<Rightarrow> nat" where
  "k_len e = length (k_name e) + k_pad e"

definition k_wire :: "kevent \<Rightarrow> byte list" where
  "k_wire e = le_bytes 4 (k_wd e) @ le_bytes 4 (k_mask e) @ le_bytes 4 (k_cookie e) @
     le_bytes 4 (of_nat (k_len e) :: u32) @ k_name e @ replicate (k_pad e) 0"

definition k_ok :: "kevent \<Rightarrow> bool" where
  "k_ok e \<longleftrightarrow> 0 \<notin> set (k_name e) \<and> k_len e < 2 ^ 16 \<and> (k_name e = [] \<longleftrightarrow> k_pad e = 0)"

text \<open>What the monitor is to make of a record, without a buffer.\<close>

definition is_plugin :: "byte list \<Rightarrow> bool" where
  "is_plugin name \<longleftrightarrow> drop (length name - 3) name = ascii ''.so''"

definition appears :: "kevent \<Rightarrow> bool" where
  "appears e \<longleftrightarrow> is_plugin (k_name e) \<and> (k_mask e AND IN_CREATE \<noteq> 0 \<or> k_mask e AND IN_MOVED_TO \<noteq> 0)"

definition leaves :: "kevent \<Rightarrow> bool" where
  "leaves e \<longleftrightarrow> k_name e = ascii ''exit.txt'' \<and> k_mask e AND IN_ATTRIB \<noteq> 0"

fun monitored ::
    "(byte list \<Rightarrow> nat \<Rightarrow> 'a disp_scheme \<Rightarrow> ('a disp_scheme) result) \<Rightarrow> byte list \<Rightarrow> kevent list \<Rightarrow>
      'a disp_scheme \<Rightarrow> (bool \<times> 'a disp_scheme) result" where
  "monitored react path [] d = Inr (False, d)"
| "monitored react path (e # es) d =
     (if leaves e then Inr (True, d)
      else if appears e then
        bindE (Dispatcher_Notify (react (path @ ascii ''/'' @ k_name e)) d) (\<lambda>(_, d). monitored react path es d)
      else monitored react path es d)"

lemma length_k_wire [simp]: "length (k_wire e) = EVENT_SIZE + k_len e"
  by (simp add: k_wire_def k_len_def EVENT_SIZE_def)

lemma get_event_at:
  assumes "mem = pre @ k_wire e @ post" "i = length pre"
  shows "get_event mem i = Inr \<lparr>ev_wd = k_wd e, ev_mask = k_mask e, ev_cookie = k_cookie e, ev_len = of_nat (k_len e)\<rparr>"
proof -
  let ?rest = "k_name e @ replicate (k_pad e) 0 @ post" and ?l = "of_nat (k_len e) :: u32"
  have "get_u32 mem i = Inr (k_wd e, i + 4)"
    by (rule get_u32_at[of _ pre]) (simp_all add: assms k_wire_def)
  moreover have "get_u32 mem (i + 4) = Inr (k_mask e, i + 8)"
    using get_u32_at[of mem "pre @ le_bytes 4 (k_wd e)" "k_mask e"] by (simp add: assms k_wire_def)
  moreover have "get_u32 mem (i + 8) = Inr (k_cookie e, i + 12)"
    using get_u32_at[of mem "pre @ le_bytes 4 (k_wd e) @ le_bytes 4 (k_mask e)" "k_cookie e"] by (simp add: assms k_wire_def)
  moreover have "get_u32 mem (i + 12) = Inr (?l, i + 16)"
    using get_u32_at[of mem "pre @ le_bytes 4 (k_wd e) @ le_bytes 4 (k_mask e) @ le_bytes 4 (k_cookie e)" ?l]
    by (simp add: assms k_wire_def)
  ultimately show ?thesis by (simp add: get_event_def)
qed

lemma ascii_nonzero [simp]: "0 \<notin> set (ascii ''.so'')" "0 \<notin> set (ascii ''exit.txt'')" "length (ascii ''.so'') = 3"
  by (simp_all add: ascii_def)

text \<open>
  The three bytes before the end of a name shorter than three begin in the length field of the
  record, whose upper half is zero.
\<close>

lemma unat_u32_small: "n < 2 ^ 16 \<Longrightarrow> unat (of_nat n :: u32) = n"
  by (simp add: unsigned_of_nat take_bit_nat_eq_self)

lemma high_bytes_zero:
  assumes "n < 2 ^ 16"
  obtains a b where "le_bytes 4 (of_nat n :: u32) = [a, b, 0, 0]"
proof -
  have z: "drop_bit k (of_nat n :: u32) = 0" if "16 \<le> k" for k
  proof -
    have "n < 2 ^ k" using assms that power_increasing[of 16 k "2 :: nat"] by linarith
    moreover have "unat (of_nat n :: u32) = n" using assms by (rule unat_u32_small)
    ultimately have "unat (drop_bit k (of_nat n :: u32)) = 0"
      using le_less_trans[OF take_bit_nat_less_eq_self[of 32 n]]
      by (simp only: unsigned_drop_bit_eq) (simp add: drop_bit_eq_div)
    then show ?thesis by (simp only: unsigned_eq_0_iff)
  qed
  show thesis by (rule that) (simp add: le_bytes_def upt_conv_Cons z)
qed

text \<open>The test for the suffix, also on names shorter than it.\<close>

lemma suffix_test:
  assumes "mem = pre @ k_wire e @ post" "i = length pre" "k_ok e" "k_name e \<noteq> []"
  shows "strcmp_eq mem (i + EVENT_SIZE + length (k_name e) - 3) (c_str ''.so'') = Inr (is_plugin (k_name e))"
proof -
  let ?h = "pre @ le_bytes 4 (k_wd e) @ le_bytes 4 (k_mask e) @ le_bytes 4 (k_cookie e)" and ?n = "k_name e"
  obtain a b where l: "le_bytes 4 (of_nat (k_len e) :: u32) = [a, b, 0, 0]"
    using assms(3) high_bytes_zero by (auto simp: k_ok_def)
  obtain k where k: "k_pad e = Suc k" using assms(3,4) by (cases "k_pad e") (auto simp: k_ok_def)
  have mem: "mem = ?h @ [a, b, 0, 0] @ ?n @ 0 # replicate k 0 @ post"
    by (simp add: assms(1) k_wire_def l k)
  have z: "0 \<notin> set ?n" using assms(3) by (simp add: k_ok_def)
  consider "3 \<le> length ?n" | "length ?n = 2" | "length ?n = 1" using assms(4) by (cases "length ?n") fastforce+
  then show ?thesis
  proof cases
    case 1
    let ?t = "drop (length ?n - 3) ?n"
    have "strcmp_eq mem (i + EVENT_SIZE + length ?n - 3) (ascii ''.so'' @ [0]) = Inr (?t = ascii ''.so'')"
      using 1 z by (intro strcmp_eq_at[of _ "?h @ [a, b, 0, 0] @ take (length ?n - 3) ?n" ?t "replicate k 0 @ post"])
        (auto simp: mem assms(2) EVENT_SIZE_def dest: in_set_dropD)
    then show ?thesis by (simp add: c_str_ascii is_plugin_def)
  next
    case 2
    have "strcmp_eq mem (i + EVENT_SIZE + length ?n - 3) (ascii ''.so'' @ [0]) = Inr ([] = ascii ''.so'')"
      by (intro strcmp_eq_at[of _ "?h @ [a, b, 0]" "[]" "?n @ 0 # replicate k 0 @ post"])
        (simp_all add: mem assms(2) EVENT_SIZE_def 2)
    moreover have "\<not> is_plugin ?n" using 2 arg_cong[of _ _ length] by (fastforce simp: is_plugin_def)
    ultimately show ?thesis by (simp add: c_str_ascii ascii_def)
  next
    case 3
    have "strcmp_eq mem (i + EVENT_SIZE + length ?n - 3) (ascii ''.so'' @ [0]) = Inr ([] = ascii ''.so'')"
      by (intro strcmp_eq_at[of _ "?h @ [a, b]" "[]" "0 # ?n @ 0 # replicate k 0 @ post"])
        (simp_all add: mem assms(2) EVENT_SIZE_def 3)
    moreover have "\<not> is_plugin ?n" using 3 arg_cong[of _ _ length] by (fastforce simp: is_plugin_def)
    ultimately show ?thesis by (simp add: c_str_ascii ascii_def)
  qed
qed

lemma not_plugin_exit: "\<not> is_plugin (ascii ''exit.txt'')" "\<not> is_plugin []"
  by (simp_all add: is_plugin_def ascii_def)

text \<open>The body of the loop on a record of the kernel.\<close>

lemma Monitor_event_at:
  assumes "mem = pre @ k_wire e @ post" "i = length pre" "k_ok e"
  shows "Monitor_event react path mem i d =
    bindE (if appears e then bindE (Dispatcher_Notify (react (path @ ascii ''/'' @ k_name e)) d) (\<lambda>(_, d). Inr d) else Inr d)
      (\<lambda>d. Inr (leaves e, \<lparr>ev_wd = k_wd e, ev_mask = k_mask e, ev_cookie = k_cookie e, ev_len = of_nat (k_len e)\<rparr>, d))"
proof (cases "k_name e = []")
  case True
  then have "k_len e = 0" using assms(3) by (simp add: k_ok_def k_len_def)
  with True show ?thesis
    by (simp add: Monitor_event_def get_event_at[OF assms(1,2)] appears_def leaves_def not_plugin_exit) (simp add: ascii_def)
next
  case False
  let ?n = "k_name e" and ?h = "pre @ le_bytes 4 (k_wd e) @ le_bytes 4 (k_mask e) @ le_bytes 4 (k_cookie e) @ le_bytes 4 (of_nat (k_len e) :: u32)"
  obtain k where k: "k_pad e = Suc k" using assms(3) False by (cases "k_pad e") (auto simp: k_ok_def)
  have mem: "mem = ?h @ ?n @ 0 # replicate k 0 @ post" and p: "i + EVENT_SIZE = length ?h"
    by (simp_all add: assms(1,2) k_wire_def k EVENT_SIZE_def)
  have z: "0 \<notin> set ?n" using assms(3) by (simp add: k_ok_def)
  have "(of_nat (k_len e) :: u32) \<noteq> 0"
    using assms(3) False unat_u32_small[of "k_len e"] by (force simp: k_ok_def k_len_def unat_eq_zero)
  moreover have "strlen mem (i + EVENT_SIZE) = Inr (length ?n)" using strlen_at[OF mem p z] .
  moreover have "strcmp_eq mem (i + EVENT_SIZE) (c_str ''exit.txt'') = Inr (?n = ascii ''exit.txt'')"
    unfolding c_str_ascii using strcmp_eq_at[OF mem p z] by simp
  moreover have "load mem (i + EVENT_SIZE) (length ?n) = Inr ?n" using load_at[OF mem p] by simp
  moreover have "leaves e \<longleftrightarrow> \<not> is_plugin ?n \<and> ?n = ascii ''exit.txt'' \<and> k_mask e AND IN_ATTRIB \<noteq> 0"
    using not_plugin_exit(1) by (auto simp: leaves_def)
  ultimately show ?thesis
    using suffix_test[OF assms False]
    by (cases "is_plugin ?n") (simp_all add: Monitor_event_def get_event_at[OF assms(1,2)] Let_def appears_def bindE_assoc case_prod_unfold)
qed

lemma advance_small:
  assumes "i + EVENT_SIZE + unat len < 2 ^ 31"
  shows "advance (int i) len = int (i + EVENT_SIZE + unat len)"
proof -
  have "word_of_int (int i) + (of_nat EVENT_SIZE + ucast len) = (of_nat (i + EVENT_SIZE + unat len) :: u64)"
    by simp
  moreover have "ucast (of_nat n :: u64) = (of_nat n :: u32)" if "n < 2 ^ 31" for n
    using that by (simp add: unsigned_of_nat take_bit_nat_eq_self)
  moreover have "sint (of_nat n :: u32) = int n" if "n < 2 ^ 31" for n
    using that by (simp add: signed_of_nat signed_take_bit_int_eq_self)
  ultimately show ?thesis using assms by (simp add: advance_def del: of_nat_add)
qed

text \<open>The loop over the records from \<open>i\<close> on.\<close>

lemma Monitor_loop_at:
  assumes "mem = pre @ concat (map k_wire es) @ post" "\<forall>e \<in> set es. k_ok e" "length es < fuel"
    and "len = int (length pre + length (concat (map k_wire es)))" "len < 2 ^ 31"
  shows "Monitor_loop fuel react path mem len (int (length pre)) d = Some (monitored react path es d)"
  using assms
proof (induction es arbitrary: pre d fuel)
  case Nil
  then obtain f where "fuel = Suc f" by (cases fuel) auto
  with Nil show ?case by simp
next
  case (Cons e es)
  then obtain f where f: "fuel = Suc f" "length es < f" by (cases fuel) auto
  let ?pre = "pre @ k_wire e"
  have l: "int (length pre) < len" "length pre + EVENT_SIZE + k_len e < 2 ^ 31"
    using Cons.prems(4,5) by (simp_all add: EVENT_SIZE_def)
  have "unat (of_nat (k_len e) :: u32) = k_len e" using Cons.prems(2) by (intro unat_u32_small) (simp add: k_ok_def)
  then have adv: "advance (int (length pre)) (of_nat (k_len e)) = int (length ?pre)"
    using advance_small[of "length pre" "of_nat (k_len e)"] l(2) by simp
  have body: "Monitor_event react path mem (length pre) d = bindE
      (if appears e then bindE (Dispatcher_Notify (react (path @ ascii ''/'' @ k_name e)) d) (\<lambda>(_, d). Inr d) else Inr d)
      (\<lambda>d. Inr (leaves e, \<lparr>ev_wd = k_wd e, ev_mask = k_mask e, ev_cookie = k_cookie e, ev_len = of_nat (k_len e)\<rparr>, d))" for d
    using Cons.prems(1,2) by (intro Monitor_event_at) simp_all
  have "Monitor_loop f react path mem len (int (length ?pre)) d' = Some (monitored react path es d')" for d'
    using Cons.prems f(2) by (intro Cons.IH) simp_all
  moreover have "\<not> (leaves e \<and> appears e)" by (auto simp: leaves_def appears_def not_plugin_exit)
  ultimately show ?case using l(1)
    by (auto simp: f(1) body adv bindE_def split: sum.splits)
qed

lemma Monitor_reads:
  assumes "\<forall>e \<in> set es. k_ok e" "length (concat (map k_wire es)) \<le> EVENT_BUF_LEN"
  shows "Monitor react path (Some (concat (map k_wire es)) # reads) d =
    (case monitored react path es d of Inl e \<Rightarrow> Some (Inl e)
     | Inr (ret, d) \<Rightarrow> if ret then Some (Inr d) else Monitor react path reads d)"
proof -
  let ?b = "concat (map k_wire es)"
  have "length es * 16 \<le> length ?b" by (induction es) (auto simp: EVENT_SIZE_def)
  then have "length es < Suc EVENT_BUF_LEN" using assms(2) by simp
  moreover have "event_buffer ?b = [] @ ?b @ replicate (EVENT_BUF_LEN - length ?b) 0"
    using assms(2) by (simp add: event_buffer_def)
  moreover have "int (min EVENT_BUF_LEN (length ?b)) < 2 ^ 31" by (simp add: EVENT_BUF_LEN_def EVENT_SIZE_def)
  ultimately have "Monitor_loop (Suc EVENT_BUF_LEN) react path (event_buffer ?b) (int (min EVENT_BUF_LEN (length ?b))) 0 d =
      Some (monitored react path es d)"
    using Monitor_loop_at[of "event_buffer ?b" "[]" es "replicate (EVENT_BUF_LEN - length ?b) 0" "Suc EVENT_BUF_LEN" "int (length ?b)"] assms
    by (simp del: Monitor_loop.simps)
  then show ?thesis by (simp split: sum.splits del: Monitor_loop.simps)
qed

subsection \<open>DLLLoader\<close>

text \<open>
  The handles \<open>dlopen\<close> returned, 0 for a null pointer. \<open>dlopen\<close> gets the number of the call, so
  that the same path may give different results.
\<close>

record plugins = disp +
  dl_list :: "nat list"

definition Load :: "(nat \<Rightarrow> byte list \<Rightarrow> nat) \<Rightarrow> byte list \<Rightarrow> 'a plugins_scheme \<Rightarrow> 'a plugins_scheme" where
  "Load dlopen lib w = w\<lparr>dl_list := dl_list w @ [dlopen (length (dl_list w)) lib]\<rparr>"

text \<open>\<open>std::filesystem::path::extension\<close> and the paths of a \<open>directory_iterator\<close>.\<close>

definition extension :: "byte list \<Rightarrow> byte list" where
  "extension name =
     (let suf = rev (takeWhile (\<lambda>b. b \<noteq> 46) (rev name))
      in if name = ascii ''.'' \<or> name = ascii ''..'' \<or> length name \<le> Suc (length suf) then [] else 46 # suf)"

definition path_append :: "byte list \<Rightarrow> byte list \<Rightarrow> byte list" where
  "path_append dir name = (if dir = [] \<or> last dir = 47 then dir @ name else dir @ [47] @ name)"

fun load_loop :: "(nat \<Rightarrow> byte list \<Rightarrow> nat) \<Rightarrow> byte list \<Rightarrow> (bool \<times> byte list) list \<Rightarrow> 'a plugins_scheme \<Rightarrow> 'a plugins_scheme" where
  "load_loop dlopen dir [] w = w"
| "load_loop dlopen dir ((is_regular, name) # entries) w =
     load_loop dlopen dir entries
       (if is_regular \<and> ascii ''.so'' = extension name then Load dlopen (path_append dir name) w else w)"

definition loader_cb :: nat where "loader_cb = 0"

text \<open>
  The constructor, over what the iterator finds: an exception when it cannot open the directory, or
  the entries, whether each is a regular file, and its name.
\<close>

definition DLLLoader_ctor ::
    "(nat \<Rightarrow> byte list \<Rightarrow> nat) \<Rightarrow> byte list \<Rightarrow> (bool \<times> byte list) list result \<Rightarrow> 'a plugins_scheme \<Rightarrow> ('a plugins_scheme) result" where
  "DLLLoader_ctor dlopen dir dir_iter w =
     bindE (ACallback_ctor loader_cb (w\<lparr>dl_list := []\<rparr>)) (\<lambda>w.
     bindE dir_iter (\<lambda>entries. Inr (load_loop dlopen dir entries w)))"

text \<open>\<open>dlclose\<close> of a null pointer is undefined. The callback, a member, is destroyed after the body.\<close>

fun close_loop :: "nat list \<Rightarrow> unit result" where
  "close_loop [] = Inr ()"
| "close_loop (h # hs) = (if h = 0 then Inl Undefined else close_loop hs)"

definition DLLLoader_dtor :: "'a plugins_scheme \<Rightarrow> ('a plugins_scheme) result" where
  "DLLLoader_dtor w = bindE (close_loop (dl_list w)) (\<lambda>_. ACallback_dtor loader_cb w)"

text \<open>The callback of the loader calls \<open>Load\<close>.\<close>

definition loader_react :: "(nat \<Rightarrow> byte list \<Rightarrow> nat) \<Rightarrow> byte list \<Rightarrow> nat \<Rightarrow> 'a plugins_scheme \<Rightarrow> ('a plugins_scheme) result" where
  "loader_react dlopen lib c w = Inr (Load dlopen lib w)"

subsection \<open>DirMonitor\<close>

record dir_monitor =
  dm_path :: "byte list"
  dm_inotify_fd :: int
  dm_watcher :: int

text \<open>Both tests look at the descriptor; the result of \<open>inotify_add_watch\<close> is not tested.\<close>

definition DirMonitor_ctor :: "int \<Rightarrow> int \<Rightarrow> byte list \<Rightarrow> dir_monitor result" where
  "DirMonitor_ctor inotify_init inotify_add_watch dir_path =
     (let dm = \<lparr>dm_path = dir_path, dm_inotify_fd = inotify_init, dm_watcher = 0\<rparr>
      in if 0 > dm_inotify_fd dm then Inl (Runtime_error ''inotify_init error'')
         else let dm = dm\<lparr>dm_watcher := inotify_add_watch\<rparr>
           in if 0 > dm_inotify_fd dm then Inl (Runtime_error ''inotify_add error'') else Inr dm)"

definition DMRegister :: "nat \<Rightarrow> 'a disp_scheme \<Rightarrow> ('a disp_scheme) result" where
  "DMRegister callback d = Dispatcher_Register callback d"

definition DMUnregister :: "nat \<Rightarrow> 'a disp_scheme \<Rightarrow> ('a disp_scheme) result" where
  "DMUnregister callback d = Dispatcher_Unregister callback d"

text \<open>The \<open>sprintf\<close> of the destructor into its 200 bytes.\<close>

definition touch_command :: "byte list \<Rightarrow> byte list result" where
  "touch_command path =
     (let cmd = replicate 200 0
      in store cmd 0 (ascii ''touch '' @ path @ ascii ''/'' @ c_str ''exit.txt''))"

text \<open>
  The destructor: \<open>system\<close> is the effect of the command, the reads of the monitor from then on;
  the join waits for \<open>Monitor\<close> to return. The result names the watch removed and the
  descriptor closed.
\<close>

definition DirMonitor_dtor ::
    "(byte list \<Rightarrow> nat \<Rightarrow> 'a disp_scheme \<Rightarrow> ('a disp_scheme) result) \<Rightarrow> (byte list \<Rightarrow> byte list option list) \<Rightarrow>
      dir_monitor \<Rightarrow> 'a disp_scheme \<Rightarrow> (int list \<times> int list \<times> 'a disp_scheme) result option" where
  "DirMonitor_dtor react system dm d =
     (case touch_command (dm_path dm) of
        Inl e \<Rightarrow> Some (Inl e)
      | Inr cmd \<Rightarrow>
          (case Monitor react (dm_path dm) (system cmd) d of
             None \<Rightarrow> None
           | Some (Inl e) \<Rightarrow> Some (Inl e)
           | Some (Inr d) \<Rightarrow>
               Some (Inr (if dm_watcher dm > 0 then [dm_watcher dm] else [],
                          if dm_inotify_fd dm > 0 then [dm_inotify_fd dm] else [], d))))"

subsection \<open>Plugins are loaded\<close>

definition plugin_paths :: "byte list \<Rightarrow> kevent list \<Rightarrow> byte list list" where
  "plugin_paths path es = map (\<lambda>e. path @ ascii ''/'' @ k_name e) (filter appears es)"

lemma plugin_paths_append: "plugin_paths path (es @ es') = plugin_paths path es @ plugin_paths path es'"
  by (simp add: plugin_paths_def)

definition registered :: "'a plugins_scheme \<Rightarrow> bool" where
  "registered w \<longleftrightarrow> ds_alive w \<and> ds_list w = [loader_cb] \<and> loader_cb \<in> cb_alive w"

lemma registered_Load [simp]: "registered (Load dlopen lib w) = registered w"
  by (simp add: registered_def Load_def)

lemma notify_loader:
  "registered w \<Longrightarrow> Dispatcher_Notify (loader_react dlopen lib) w = Inr ([loader_cb], Load dlopen lib w)"
  by (simp add: Dispatcher_Notify_def registered_def use_dispatcher_def use_callback_def loader_react_def)

lemma monitored_loader:
  "registered w \<Longrightarrow> monitored (loader_react dlopen) path es w =
     Inr (\<exists>e \<in> set es. leaves e, fold (Load dlopen) (plugin_paths path (takeWhile (\<lambda>e. \<not> leaves e) es)) w)"
  by (induction es arbitrary: w) (auto simp: notify_loader plugin_paths_def)

lemma registered_fold [simp]: "registered (fold (Load dlopen) ps w) = registered w"
  by (induction ps arbitrary: w) simp_all

text \<open>Batches of records as the kernel hands them out: whole records, no more than fit.\<close>

definition batch_ok :: "kevent list \<Rightarrow> bool" where
  "batch_ok es \<longleftrightarrow> (\<forall>e \<in> set es. k_ok e) \<and> length (concat (map k_wire es)) \<le> EVENT_BUF_LEN"

definition batch_bytes :: "kevent list \<Rightarrow> byte list" where
  "batch_bytes es = concat (map k_wire es)"

text \<open>The walk through the buffer stays inside it and ends, and every plugin that appears is loaded.\<close>

lemma Monitor_batches:
  assumes "registered w" "\<forall>es \<in> set batches. batch_ok es"
  shows "Monitor (loader_react dlopen) path (map (\<lambda>es. Some (batch_bytes es)) batches) w =
    Some (if \<exists>e \<in> set (concat batches). leaves e
          then Inr (fold (Load dlopen) (plugin_paths path (takeWhile (\<lambda>e. \<not> leaves e) (concat batches))) w)
          else Inl Blocked)"
  using assms
proof (induction batches arbitrary: w)
  case (Cons es batches)
  let ?w = "fold (Load dlopen) (plugin_paths path (takeWhile (\<lambda>e. \<not> leaves e) es)) w"
  have read: "Monitor (loader_react dlopen) path (Some (batch_bytes es) # reads) w =
      (if \<exists>e \<in> set es. leaves e then Some (Inr ?w) else Monitor (loader_react dlopen) path reads ?w)" for reads
    using Monitor_reads[of es "loader_react dlopen" path reads w] Cons.prems monitored_loader[OF Cons.prems(1), of dlopen path es]
    by (simp add: batch_ok_def batch_bytes_def del: Monitor.simps)
  show ?case
  proof (cases "\<exists>e \<in> set es. leaves e")
    case True
    then have "takeWhile (\<lambda>e. \<not> leaves e) (es @ concat batches) = takeWhile (\<lambda>e. \<not> leaves e) es"
      by (auto simp: takeWhile_append1)
    with True read show ?thesis by (auto simp del: Monitor.simps)
  next
    case False
    then have tw: "takeWhile (\<lambda>e. \<not> leaves e) es = es"
      "takeWhile (\<lambda>e. \<not> leaves e) (es @ concat batches) = es @ takeWhile (\<lambda>e. \<not> leaves e) (concat batches)"
      by (simp_all add: takeWhile_eq_all_conv)
    with False read Cons.IH[of "fold (Load dlopen) (plugin_paths path es) w"] Cons.prems show ?thesis
      by (simp add: plugin_paths_append bex_Un ball_Un del: Monitor.simps)
  qed
qed simp

definition demo_plugins :: plugins where
  "demo_plugins = \<lparr>ds_alive = True, ds_list = [loader_cb], cb_alive = {loader_cb}, cb_dispatcher = {loader_cb}, dl_list = []\<rparr>"

definition demo_created :: kevent where
  "demo_created = \<lparr>k_wd = 1, k_mask = IN_CREATE, k_cookie = 0, k_name = ascii ''a.so'', k_pad = 12\<rparr>"

definition demo_exit :: kevent where
  "demo_exit = \<lparr>k_wd = 1, k_mask = IN_ATTRIB, k_cookie = 0, k_name = ascii ''exit.txt'', k_pad = 8\<rparr>"

lemma demo_events:
  "batch_ok [demo_created]" "batch_ok [demo_exit]" "leaves demo_exit" "\<not> leaves demo_created" "appears demo_created" "registered demo_plugins"
  by (simp_all add: batch_ok_def k_ok_def k_len_def k_wire_def demo_created_def demo_exit_def ascii_def EVENT_BUF_LEN_def EVENT_SIZE_def
      leaves_def appears_def is_plugin_def IN_CREATE_def IN_ATTRIB_def registered_def demo_plugins_def)

lemma touch_command_fits: "touch_command path \<noteq> Inl Undefined \<longleftrightarrow> length path \<le> 184"
  by (auto simp: touch_command_def store_def c_str_def ascii_def Let_def)

text \<open>
  The destructor of the monitor returns: when the path has at most 184 bytes and touching the
  file makes the kernel report it, after any batches that were still to be read, the thread
  ends, everything that appeared before is loaded, and the watch and the descriptor are given
  back. A longer path overruns the buffer of the command.
\<close>
theorem DirMonitor_is_destroyed:
  assumes "registered w" and "\<forall>es \<in> set batches. batch_ok es" and "\<exists>e \<in> set (concat batches). leaves e"
    and "\<forall>cmd. system cmd = map (\<lambda>es. Some (batch_bytes es)) batches"
  shows "DirMonitor_dtor (loader_react dlopen) system dm w =
    Some (if length (dm_path dm) \<le> 184
      then Inr (if dm_watcher dm > 0 then [dm_watcher dm] else [], if dm_inotify_fd dm > 0 then [dm_inotify_fd dm] else [],
        fold (Load dlopen) (plugin_paths (dm_path dm) (takeWhile (\<lambda>e. \<not> leaves e) (concat batches))) w)
      else Inl Undefined)"
proof (cases "length (dm_path dm) \<le> 184")
  case True
  then obtain cmd where "touch_command (dm_path dm) = Inr cmd" by (auto simp: touch_command_def store_def c_str_def ascii_def Let_def)
  with True Monitor_batches[OF assms(1,2), of dlopen "dm_path dm"] assms(3,4) show ?thesis
    by (simp add: DirMonitor_dtor_def del: Monitor.simps)
next
  case False
  then show ?thesis using touch_command_fits[of "dm_path dm"] by (simp add: DirMonitor_dtor_def)
qed

theorem DirMonitor_is_destroyed_witness:
  "DirMonitor_dtor (loader_react (\<lambda>n lib. 5)) (\<lambda>cmd. [Some (batch_bytes [demo_created]), Some (batch_bytes [demo_exit])])
     \<lparr>dm_path = ascii ''p'', dm_inotify_fd = 4, dm_watcher = 1\<rparr> demo_plugins = Some (Inr ([1], [4], demo_plugins\<lparr>dl_list := [5]\<rparr>))"
  using DirMonitor_is_destroyed[of demo_plugins "[[demo_created], [demo_exit]]" "\<lambda>cmd. [Some (batch_bytes [demo_created]), Some (batch_bytes [demo_exit])]"
      "\<lambda>n lib. 5" "\<lparr>dm_path = ascii ''p'', dm_inotify_fd = 4, dm_watcher = 1\<rparr>"] demo_events
  by (simp add: plugin_paths_def Load_def demo_plugins_def) (simp add: ascii_def)

text \<open>What the loader does with a failed \<open>dlopen\<close>: the null handle stays, and closing it is undefined.\<close>

lemma close_loop_defined: "close_loop hs = (if 0 \<in> set hs then Inl Undefined else Inr ())"
  by (induction hs) auto

lemma failed_load_breaks_dtor: "0 \<in> set (dl_list w) \<Longrightarrow> DLLLoader_dtor w = Inl Undefined"
  by (simp add: DLLLoader_dtor_def close_loop_defined)

text \<open>
  The monitor runs before the loader is registered: what appears after the scan of the directory
  and is reported before the registration is not loaded.
\<close>

lemma reported_before_registration_is_lost:
  "ds_alive w \<Longrightarrow> ds_list w = [] \<Longrightarrow> monitored react path es w = Inr (\<exists>e \<in> set es. leaves e, w)"
  by (induction es) (auto simp: Dispatcher_Notify_def use_dispatcher_def)

text \<open>A file named only by the suffix is a plugin to the monitor and none to the scan.\<close>

lemma bare_suffix: "is_plugin (ascii ''.so'')" "extension (ascii ''.so'') = []" "extension (ascii ''a.so'') = ascii ''.so''"
  by (simp_all add: is_plugin_def extension_def ascii_def)

end
