(* ===== verification/Framework.thy ===== *)
theory Framework
  imports Reactor Dir_Monitor Command_Types
begin

text \<open>
  \<open>Framework\<close> (\<open>include/framework.hpp\<close>, \<open>src/framework.cpp\<close>): its constructor starts the monitor of the
  plugin directory, loads the plugins that are there, registers the loader with the monitor,
  fills the factory of commands and registers the descriptors with the reactor. The results of
  the system calls on the directory are a parameter. The argument \<open>DLLLoader\<close> gives for the path is
  ignored, since the monitor is a singleton that already exists.
\<close>

record plugin_env =
  pe_inotify_init :: int
  pe_inotify_add_watch :: int
  pe_dlopen :: "nat \<Rightarrow> byte list \<Rightarrow> nat"
  pe_dir_iter :: "(bool \<times> byte list) list result"

definition no_plugins :: plugins where
  "no_plugins = \<lparr>ds_alive = ds_alive Dispatcher_ctor, ds_list = ds_list Dispatcher_ctor, cb_alive = cb_alive Dispatcher_ctor,
     cb_dispatcher = cb_dispatcher Dispatcher_ctor, dl_list = []\<rparr>"

definition Framework_ctor ::
    "plugin_env \<Rightarrow> (int \<times> mode \<times> 'p) list \<Rightarrow> (int \<times> (unit \<Rightarrow> command result)) list \<Rightarrow> byte list \<Rightarrow>
      ((dir_monitor \<times> plugins) \<times> 'p reactor \<times> command_factory) result" where
  "Framework_ctor env fdCallbacks crators pluginDirPath =
     bindE (DirMonitor_ctor (pe_inotify_init env) (pe_inotify_add_watch env) pluginDirPath) (\<lambda>m_dirmonitor.
     bindE (DLLLoader_ctor (pe_dlopen env) (dm_path m_dirmonitor) (pe_dir_iter env) no_plugins) (\<lambda>w.
     bindE (DMRegister loader_cb w) (\<lambda>w.
       Inr ((m_dirmonitor, w), InputMediator Reactor_ctor fdCallbacks, Framework_factory crators))))"

subsection \<open>Plugins\<close>

primrec opened :: "(nat \<Rightarrow> byte list \<Rightarrow> nat) \<Rightarrow> nat \<Rightarrow> byte list list \<Rightarrow> nat list" where
  "opened dlopen n [] = []"
| "opened dlopen n (p # ps) = dlopen n p # opened dlopen (Suc n) ps"

lemma opened_append: "opened dlopen n (ps @ ps') = opened dlopen n ps @ opened dlopen (n + length ps) ps'"
  by (induction ps arbitrary: n) auto

lemma length_opened [simp]: "length (opened dlopen n ps) = length ps"
  by (induction ps arbitrary: n) auto

lemma fold_Load: "fold (Load dlopen) ps w = w\<lparr>dl_list := dl_list w @ opened dlopen (length (dl_list w)) ps\<rparr>"
  by (induction ps arbitrary: w) (simp_all add: Load_def)

text \<open>The shared objects the scan of the directory finds.\<close>

definition scanned :: "byte list \<Rightarrow> (bool \<times> byte list) list \<Rightarrow> byte list list" where
  "scanned dir entries = map (\<lambda>e. path_append dir (snd e)) (filter (\<lambda>e. fst e \<and> ascii ''.so'' = extension (snd e)) entries)"

lemma load_loop_scanned: "load_loop dlopen dir entries w = fold (Load dlopen) (scanned dir entries) w"
  by (induction dlopen dir entries w rule: load_loop.induct) (simp_all add: scanned_def)

definition plugins_ok :: "plugin_env \<Rightarrow> bool" where
  "plugins_ok env \<longleftrightarrow> 0 \<le> pe_inotify_init env \<and> isl (pe_dir_iter env) = False"

definition loaded :: "plugin_env \<Rightarrow> byte list list \<Rightarrow> plugins" where
  "loaded env ps = \<lparr>ds_alive = True, ds_list = [loader_cb], cb_alive = {loader_cb}, cb_dispatcher = {loader_cb},
     dl_list = opened (pe_dlopen env) 0 ps\<rparr>"

lemma Framework_ctor_entries:
  assumes "0 \<le> pe_inotify_init env" "pe_dir_iter env = Inr entries"
  shows "Framework_ctor env cbs crs path =
    Inr ((\<lparr>dm_path = path, dm_inotify_fd = pe_inotify_init env, dm_watcher = pe_inotify_add_watch env\<rparr>, loaded env (scanned path entries)),
      InputMediator Reactor_ctor cbs, Framework_factory crs)"
  using assms
  by (simp add: Framework_ctor_def DirMonitor_ctor_def DLLLoader_ctor_def ACallback_ctor_def load_loop_scanned fold_Load
      DMRegister_def Dispatcher_Register_def SetDispatcher_def use_dispatcher_def use_callback_def no_plugins_def Dispatcher_ctor_def
      loaded_def del: InputMediator.simps)

lemma Framework_ctor_ok:
  assumes "plugins_ok env"
  shows "\<exists>dm w. Framework_ctor env cbs crs path = Inr ((dm, w), InputMediator Reactor_ctor cbs, Framework_factory crs)"
proof -
  obtain entries where "pe_dir_iter env = Inr entries" using assms by (cases "pe_dir_iter env") (auto simp: plugins_ok_def)
  with assms show ?thesis using Framework_ctor_entries[of env entries cbs crs path] by (simp add: plugins_ok_def)
qed

text \<open>
  C37: the framework loads every plugin: after its constructor the shared objects found in the
  directory are open and the descriptors and creators are registered; from then on, whatever
  well-formed records the kernel delivers to the monitor, in whatever batches, the walk through
  its buffer stays inside it and ends, and the loader has in addition opened exactly the shared
  objects that were created in or moved into the directory, each once per event and in order,
  up to the first event that ends the thread; without such an event the thread goes on waiting.
\<close>
theorem framework_loads_plugins:
  assumes "0 \<le> pe_inotify_init env" and "pe_dir_iter env = Inr entries" and "\<forall>es \<in> set batches. batch_ok es"
  shows "\<exists>dm w. Framework_ctor env cbs crs path = Inr ((dm, w), InputMediator Reactor_ctor cbs, Framework_factory crs) \<and>
    dl_list w = opened (pe_dlopen env) 0 (scanned path entries) \<and>
    Monitor (loader_react (pe_dlopen env)) (dm_path dm) (map (\<lambda>es. Some (batch_bytes es)) batches) w =
      Some (if \<exists>e \<in> set (concat batches). leaves e
        then Inr (w\<lparr>dl_list := opened (pe_dlopen env) 0
          (scanned path entries @ plugin_paths path (takeWhile (\<lambda>e. \<not> leaves e) (concat batches)))\<rparr>)
        else Inl Blocked)"
proof -
  let ?w = "loaded env (scanned path entries)"
  have r: "registered ?w" "dl_list ?w = opened (pe_dlopen env) 0 (scanned path entries)" by (simp_all add: registered_def loaded_def)
  then show ?thesis
    unfolding Framework_ctor_entries[OF assms(1,2)]
    by (intro exI[of _ "\<lparr>dm_path = path, dm_inotify_fd = pe_inotify_init env, dm_watcher = pe_inotify_add_watch env\<rparr>"] exI[of _ ?w] conjI)
       (simp_all add: Monitor_batches[OF r(1) assms(3)] fold_Load opened_append del: Monitor.simps)
qed

definition demo_env :: plugin_env where
  "demo_env = \<lparr>pe_inotify_init = 4, pe_inotify_add_watch = 1, pe_dlopen = (\<lambda>n lib. n + 5),
     pe_dir_iter = Inr [(True, ascii ''b.so''), (True, ascii ''c.txt''), (False, ascii ''d.so'')]\<rparr>"

lemma demo_env_ok: "plugins_ok demo_env"
  by (simp add: plugins_ok_def demo_env_def)

theorem framework_loads_plugins_witness:
  "\<exists>dm w. Framework_ctor demo_env [(3, mode_read, ())] [] (ascii ''p'') =
      Inr ((dm, w), InputMediator Reactor_ctor [(3, mode_read, ())], Framework_factory []) \<and> dl_list w = [5] \<and>
    Monitor (loader_react (\<lambda>n lib. n + 5)) (dm_path dm) [Some (batch_bytes [demo_created]), Some (batch_bytes [demo_exit])] w =
      Some (Inr (w\<lparr>dl_list := [5, 6]\<rparr>))"
proof -
  have "scanned (ascii ''p'') [(True, ascii ''b.so''), (True, ascii ''c.txt''), (False, ascii ''d.so'')] = [ascii ''p/b.so'']"
    by (simp add: scanned_def extension_def ascii_def path_append_def)
  then show ?thesis
    using framework_loads_plugins[of demo_env "[(True, ascii ''b.so''), (True, ascii ''c.txt''), (False, ascii ''d.so'')]"
        "[[demo_created], [demo_exit]]" "[(3, mode_read, ())]" "[]" "ascii ''p''"] demo_events
    by (simp add: demo_env_def plugin_paths_def del: Monitor.simps InputMediator.simps)
qed

end
