(* ===== verification/Process.thy ===== *)
theory Process
  imports Framework Minion_Correct Master_Correct
begin

text \<open>
  The two processes from the constructor of the framework on: a minion, whose only descriptor is its
  UDP socket (\<open>test/minion_test.cpp\<close>), and the master, which listens to the block device and to
  the responses of the minions (\<open>test/master_test.cpp\<close>).
\<close>

subsection \<open>The minion\<close>

text \<open>The virtual \<open>GetArgsKey\<close> of the minion's only proxy.\<close>

definition minion_get :: "host \<Rightarrow> (unit, minion) get_args" where
  "minion_get h proxy fd mode mn = bindE (MasterProxy_GetArgsKey h mn) (\<lambda>(a, mn). Inr (Some a, mn))"

definition minion_main ::
    "host \<Rightarrow> plugin_env \<Rightarrow> ((listen_pair \<rightharpoonup> unit) \<Rightarrow> listen_pair list) \<Rightarrow> (minion \<Rightarrow> select_fun) \<Rightarrow> int \<Rightarrow> nat \<Rightarrow> minion \<times> args_key pool \<Rightarrow>
      (unit reactor \<times> minion \<times> args_key pool) result option" where
  "minion_main h env order select fd rounds w =
     (case Framework_ctor env [(fd, mode_read, ())]
             [(MINION_READ_CMD_KEY, CreateMinionReadCmd), (MINION_WRITE_CMD_KEY, CreateMinionWriteCmd)] (ascii ''./plugins'') of
        Inl e \<Rightarrow> Some (Inl e)
      | Inr (_, r, _) \<Rightarrow>
          Reactor_Run (ReactorCallback (minion_get h)) order (\<lambda>w. FDListen_Listen (select (fst w))) rounds (r, w))"

text \<open>The environment: the keys of the map are visited in some order, and \<open>select\<close> sees the arrived datagrams.\<close>

definition visits :: "((listen_pair \<rightharpoonup> 'h) \<Rightarrow> listen_pair list) \<Rightarrow> bool" where
  "visits order \<longleftrightarrow> (\<forall>m. finite (dom m) \<longrightarrow> distinct (order m) \<and> set (order m) = dom m)"

definition sees_datagrams :: "int \<Rightarrow> (minion \<Rightarrow> select_fun) \<Rightarrow> bool" where
  "sees_datagrams fd select \<longleftrightarrow> (\<forall>mn. select_meets (\<lambda>it. it = (fd, mode_read) \<and> mn_rx mn \<noteq> []) (select mn) \<and>
     (mn_rx mn \<noteq> [] \<longrightarrow> (\<forall>nfds w. fd < nfds \<longrightarrow> fst (select mn nfds {fd} w) > 0)))"

lemma visits_single: "visits order \<Longrightarrow> dom m = {k} \<Longrightarrow> order m = [k]"
  unfolding visits_def
proof -
  assume "\<forall>m. finite (dom m) \<longrightarrow> distinct (order m) \<and> set (order m) = dom m" "dom m = {k}"
  then have d: "distinct (order m)" "set (order m) = {k}" by auto
  then have "length (order m) = 1" using distinct_card[of "order m"] by simp
  with d show ?thesis by (cases "order m") auto
qed

lemma minion_vector:
  assumes "visits order" and "sees_datagrams fd select" and "mn_rx mn \<noteq> []" and "0 \<le> fd" "fd < FD_SETSIZE"
  shows "FDListen_Listen (select mn) (order (rc_map (InputMediator Reactor_ctor [(fd, mode_read, ())]))) = Inr [(fd, mode_read)]"
proof -
  have o: "order (rc_map (InputMediator Reactor_ctor [(fd, mode_read, ())])) = [(fd, mode_read)]"
    by (rule visits_single[OF assms(1)]) (auto simp: Register_def Reactor_ctor_def)
  have s: "select_meets (\<lambda>it. it = (fd, mode_read) \<and> mn_rx mn \<noteq> []) (select mn)" "fds_of mode_read [(fd, mode_read)] = {fd}"
    "fst (select mn (fd_top [(fd, mode_read)] + 1) {fd} (fds_of mode_write [(fd, mode_read)])) > 0"
    using assms(2-) by (auto simp: sees_datagrams_def fds_of_def fd_top_def)
  show ?thesis unfolding o
    using FDListen_result[of "[(fd, mode_read)]", OF _ s(1)] s(2,3) assms(3-) by (simp add: ready_in_def)
qed

text \<open>A write request with one byte changed behind the key and the size is not accepted by the proxy.\<close>

lemma GetArgsKey_corrupted:
  assumes rx: "mn_rx mn = (write_wire m)[i := b] # queue" and wf: "write_wf m"
    and key: "m_key m = WRITE_MSG_KEY" and size: "unat (m_size m) < 2 ^ 31 - 41"
    and clock: "\<not> bit (h_time h (mn_counter mn)) 31"
    and i: "8 \<le> i" "i < length (write_wire m)" and b: "b \<noteq> write_wire m ! i"
  shows "\<exists>s. MasterProxy_GetArgsKey h mn = Inl (Runtime_error s)"
proof -
  let ?d = "(write_wire m)[i := b]"
  from CreateWriteMsg_ok[OF clock] obtain m0 where
    m0: "CreateWriteMsg h (mn_counter mn) = Inr (m0, mn_counter mn + 1)" "m_size m0 = 0" .
  let ?n = "WriteMsg_GetBufferSize m0 + ucast (m_size m)"
  have n: "unat ?n = length ?d" using unat_recv_size[OF m0(2)] length_write_wire[OF wf] by simp
  have "take 8 ?d = take 8 (write_wire m)" using i(1) by simp
  then have 1: "UDPSocket_Recive (new_char (h_garbage h 0) (4 + 4)) (4 + 4) True (mn_rx mn) =
      Inr (le_bytes 4 (m_key m) @ le_bytes 4 (m_size m), ?d # queue)"
    unfolding rx take8_write_wire[symmetric] using peek8[of ?d "h_garbage h 0" queue] by (simp add: length_write_wire[OF wf])
  have 2: "UDPSocket_Recive (new_char (h_garbage h 1) (unat ?n)) (int_of_u64 ?n) False (?d # queue) = Inr (?d, queue)"
    using size n length_write_wire[OF wf] by (intro UDPSocket_Recive_whole) (simp_all add: size_t_small)
  obtain s where 3: "WriteMsg_FromBuffer m0 ?d 0 = Inl (Runtime_error s)"
    using corrupted_write_rejected[OF wf i(2) _ b] i(1) by blast
  show ?thesis
    unfolding MasterProxy_GetArgsKey_def Let_def 1 bindE_Inr prod.case
    using 2 3 by (simp add: get_key get_size key key_int write_factory_Create m0(1))
qed

text \<open>
  One corrupted datagram ends a minion: when a write request arrives with a byte changed
  behind its header, the exception of the checksum test leaves \<open>Reactor::Run\<close> in the round that
  receives it, whatever else is queued.
\<close>
theorem corrupted_datagram_stops_minion:
  assumes "mn_rx mn = (write_wire m)[i := b] # queue" and "write_wf m"
    and "m_key m = WRITE_MSG_KEY" and "unat (m_size m) < 2 ^ 31 - 41"
    and "\<not> bit (h_time h (mn_counter mn)) 31"
    and "8 \<le> i" "i < length (write_wire m)" and "b \<noteq> write_wire m ! i"
    and "visits order" and "sees_datagrams fd select" and "0 \<le> fd" "fd < FD_SETSIZE" and "plugins_ok env"
  shows "\<exists>s. minion_main h env order select fd (Suc rounds) (mn, pool) = Some (Inl (Runtime_error s))"
proof -
  let ?r = "InputMediator Reactor_ctor [(fd, mode_read, ())]"
  obtain s where s: "MasterProxy_GetArgsKey h mn = Inl (Runtime_error s)"
    using GetArgsKey_corrupted[OF assms(1-8)] by blast
  have "rc_map ?r (fd, mode_read) = Some ()" by (simp add: Register_def)
  then have "dispatch (ReactorCallback (minion_get h)) [(fd, mode_read)] (?r, mn, pool) = Inl (Runtime_error s)"
    by (simp add: ReactorCallback_result minion_get_def s del: InputMediator.simps)
  then have "Reactor_round (ReactorCallback (minion_get h)) order (\<lambda>w. FDListen_Listen (select (fst w))) (?r, mn, pool) =
      Inl (Runtime_error s)"
    using minion_vector[OF assms(9,10) _ assms(11,12), of mn] assms(1) by (simp add: Reactor_round_def del: InputMediator.simps)
  moreover have "\<not> rc_isStopped ?r" by (simp add: Reactor_ctor_def del: InputMediator.simps)
  moreover obtain dm w where "Framework_ctor env [(fd, mode_read, ())]
      [(MINION_READ_CMD_KEY, CreateMinionReadCmd), (MINION_WRITE_CMD_KEY, CreateMinionWriteCmd)] (ascii ''./plugins'') =
        Inr ((dm, w), ?r, minion_factory)"
    using Framework_ctor_ok[OF assms(13)] unfolding minion_factory_def by blast
  ultimately show ?thesis by (simp add: minion_main_def del: InputMediator.simps)
qed

text \<open>An order of the keys and a \<open>select\<close> for one descriptor, to run the loop on.\<close>

definition sorted_order :: "(listen_pair \<rightharpoonup> 'h) \<Rightarrow> listen_pair list" where
  "sorted_order m =
     map (\<lambda>fd. (fd, mode_read)) (sorted_list_of_set {fd. (fd, mode_read) \<in> dom m}) @
     map (\<lambda>fd. (fd, mode_write)) (sorted_list_of_set {fd. (fd, mode_write) \<in> dom m})"

definition datagram_select :: "int \<Rightarrow> minion \<Rightarrow> select_fun" where
  "datagram_select fd mn nfds fd_r fd_w =
     (let r = {x \<in> fd_r. x < nfds \<and> x = fd \<and> mn_rx mn \<noteq> []} in (if r = {} then 0 else 1, r, {}))"

lemma visits_sorted_order: "visits (sorted_order :: (listen_pair \<rightharpoonup> 'h) \<Rightarrow> listen_pair list)"
  unfolding visits_def
proof (intro allI impI)
  fix m :: "listen_pair \<rightharpoonup> 'h" assume f: "finite (dom m)"
  have fin: "finite {fd. (fd, mode) \<in> dom m}" for mode
    by (rule finite_subset[OF _ finite_imageI[OF f, of fst]]) force
  have "x \<in> set (sorted_order m) \<longleftrightarrow> x \<in> dom m" for x
    using fin by (cases x; cases "snd x") (auto simp: sorted_order_def)
  then have "set (sorted_order m) = dom m" by blast
  moreover have "distinct (sorted_order m)" using fin by (auto simp: sorted_order_def distinct_map inj_on_def)
  ultimately show "distinct (sorted_order m) \<and> set (sorted_order m) = dom m" by blast
qed

lemma sees_datagram_select: "sees_datagrams fd (datagram_select fd)"
  by (auto simp: sees_datagrams_def select_meets_def datagram_select_def Let_def split: if_splits)

theorem corrupted_datagram_stops_minion_witness:
  "\<exists>s. minion_main demo_host demo_env sorted_order (datagram_select 3) 3 1
     ((MasterProxy Map.empty ''7070'')\<lparr>mn_rx := [let w = write_wire (WriteMsg 4096 3 (Some [1, 2, 3]) demo_uid) in w[40 := w ! 40 XOR 1]]\<rparr>,
      ThreadPool_ctor 2) = Some (Inl (Runtime_error s))"
proof -
  let ?m = "WriteMsg 4096 3 (Some [1, 2, 3]) demo_uid"
  have wf: "write_wf ?m" by (simp add: msg_ctor_defs)
  have "write_wire ?m ! 40 XOR 1 \<noteq> write_wire ?m ! 40" by (simp add: xor_same_iff)
  moreover have "40 < length (write_wire ?m)" using length_write_wire[OF wf] by simp
  moreover have "\<not> bit (h_time demo_host m_static_counter_init) 31" using time_ok_demo by (simp add: time_ok_def)
  ultimately show ?thesis
    using corrupted_datagram_stops_minion[of "(MasterProxy Map.empty ''7070'')\<lparr>mn_rx := [(write_wire ?m)[40 := write_wire ?m ! 40 XOR 1]]\<rparr>"
        ?m 40 "write_wire ?m ! 40 XOR 1" "[]" demo_host sorted_order 3 "datagram_select 3" demo_env 0 "ThreadPool_ctor 2"]
      wf visits_sorted_order sees_datagram_select demo_env_ok
    by (simp add: Let_def MasterProxy_def msg_ctor_defs FD_SETSIZE_def)
qed

subsection \<open>The master\<close>

datatype master_proxy = NBD_proxy | Response_proxy

primrec master_get :: "host \<Rightarrow> (master_proxy, master) get_args" where
  "master_get h NBD_proxy = (\<lambda>fd mode ms. bindE (NBDProxy_GetArgsKey h ms) (\<lambda>(a, ms). Inr (Some a, ms)))"
| "master_get h Response_proxy = (\<lambda>fd mode ms. ResponseProxy_GetArgsKey h ms)"

definition reactor_vector :: "int \<Rightarrow> int \<Rightarrow> (int \<times> mode \<times> master_proxy) list" where
  "reactor_vector tcp udp = [(tcp, mode_read, NBD_proxy), (udp, mode_read, Response_proxy)]"

text \<open>
  The master catches every \<open>std::exception\<close> that leaves \<open>Run\<close> and prints it: \<open>None\<close> while the reactor
  runs, \<open>Inr None\<close> when it has been stopped, \<open>Inr (Some text)\<close> when an exception has ended it.
\<close>

fun catch_exception :: "'a result \<Rightarrow> string option result" where
  "catch_exception (Inl (Runtime_error s)) = Inr (Some s)"
| "catch_exception (Inl (Out_of_range s)) = Inr (Some s)"
| "catch_exception (Inl (Invalid_argument s)) = Inr (Some s)"
| "catch_exception (Inl e) = Inl e"
| "catch_exception (Inr _) = Inr None"

definition master_main ::
    "host \<Rightarrow> plugin_env \<Rightarrow> ((listen_pair \<rightharpoonup> master_proxy) \<Rightarrow> listen_pair list) \<Rightarrow> (master \<Rightarrow> select_fun) \<Rightarrow> int \<Rightarrow> int \<Rightarrow> nat \<Rightarrow>
      master \<times> args_key pool \<Rightarrow> string option result option" where
  "master_main h env order select tcp udp rounds w =
     (case Framework_ctor env (reactor_vector tcp udp)
             [(READ_CMD_KEY, CreateReadCommand), (WRITE_CMD_KEY, CreateWriteCommand)] (ascii ''./plugins'') of
        Inl e \<Rightarrow> Some (Inl e)
      | Inr (_, r, _) \<Rightarrow>
          map_option catch_exception
            (Reactor_Run (ReactorCallback (master_get h)) order (\<lambda>w. FDListen_Listen (select (fst w))) rounds (r, w)))"

text \<open>\<open>select\<close> reports exactly one descriptor.\<close>

definition reports :: "int \<Rightarrow> select_fun \<Rightarrow> bool" where
  "reports fd select \<longleftrightarrow> select_meets (\<lambda>it. it = (fd, mode_read)) select \<and>
     (\<forall>nfds r w. fd < nfds \<longrightarrow> fd \<in> r \<longrightarrow> fst (select nfds r w) > 0)"

lemma filter_unique: "distinct xs \<Longrightarrow> x \<in> set xs \<Longrightarrow> (\<And>y. y \<in> set xs \<Longrightarrow> P y \<longleftrightarrow> y = x) \<Longrightarrow> filter P xs = [x]"
  by (induction xs) (auto simp: filter_empty_conv)

lemma master_vector:
  assumes "visits order" and "reports fd select" and "fd \<in> {tcp, udp}" and "tcp \<noteq> udp"
    and "0 \<le> tcp" "tcp < FD_SETSIZE" "0 \<le> udp" "udp < FD_SETSIZE"
  shows "FDListen_Listen select (order (rc_map (InputMediator Reactor_ctor (reactor_vector tcp udp)))) = Inr [(fd, mode_read)]"
proof -
  let ?m = "rc_map (InputMediator Reactor_ctor (reactor_vector tcp udp))"
  have "dom ?m = {(tcp, mode_read), (udp, mode_read)}" by (auto simp: reactor_vector_def Register_def Reactor_ctor_def)
  with assms(1) have o: "distinct (order ?m)" "set (order ?m) = {(tcp, mode_read), (udp, mode_read)}"
    unfolding visits_def by (metis finite.emptyI finite.insertI)+
  have r: "fds_of mode_read (order ?m) = {tcp, udp}" by (auto simp: fds_of_def o(2))
  have "fd < fd_top (order ?m) + 1"
    using fold_max_bound[of "(fd, mode_read)" "order ?m" 0] assms(3) by (auto simp: fd_top_def o(2))
  then have "fst (select (fd_top (order ?m) + 1) (fds_of mode_read (order ?m)) (fds_of mode_write (order ?m))) > 0"
    using assms(2,3) unfolding reports_def r by blast
  moreover have "\<forall>it \<in> set (order ?m). 0 \<le> fst it \<and> fst it < FD_SETSIZE" using assms(5-) by (auto simp: o(2))
  moreover have "select_meets (\<lambda>it. it = (fd, mode_read)) select" using assms(2) by (simp add: reports_def)
  moreover have "filter (ready_in (\<lambda>it. it = (fd, mode_read)) (order ?m)) (order ?m) = [(fd, mode_read)]"
    by (rule filter_unique[OF o(1)]) (use assms(3,4) in \<open>auto simp: o(2) ready_in_def\<close>)
  ultimately show ?thesis using FDListen_result by metis
qed

lemma master_round:
  assumes "visits order" and "reports fd (select ms)" and "fd \<in> {tcp, udp}" and "tcp \<noteq> udp"
    and "0 \<le> tcp" "tcp < FD_SETSIZE" "0 \<le> udp" "udp < FD_SETSIZE"
  shows "Reactor_round (ReactorCallback (master_get h)) order (\<lambda>w. FDListen_Listen (select (fst w)))
      (InputMediator Reactor_ctor (reactor_vector tcp udp), ms, pool) =
    ReactorCallback (master_get h) (if fd = tcp then NBD_proxy else Response_proxy) fd mode_read
      (InputMediator Reactor_ctor (reactor_vector tcp udp), ms, pool)"
proof -
  let ?r = "InputMediator Reactor_ctor (reactor_vector tcp udp)"
  have "rc_map ?r (fd, mode_read) = Some (if fd = tcp then NBD_proxy else Response_proxy)"
    using assms(3,4) by (auto simp: reactor_vector_def Register_def)
  moreover have "bindE x (dispatch call []) = x" for x and call :: "(master_proxy, master \<times> args_key pool) handler_call"
    by (cases x) simp_all
  ultimately show ?thesis
    using master_vector[OF assms] by (simp add: Reactor_round_def)
qed

text \<open>The worker of a pool takes the task that was queued and runs it.\<close>

definition run_queued :: "host \<Rightarrow> args_key pool \<Rightarrow> master \<Rightarrow> ((ai_func \<times> nat) option \<times> master) result" where
  "run_queued h pool ms =
     (case tp_queue pool of
        [(UserTask a, p)] \<Rightarrow> TPTask_Run (master_Execute h) master_factory a ms
      | _ \<Rightarrow> Inl Blocked)"

text \<open>
  C31: the way through the process is the event of the system model: when \<open>select\<close> reports the
  socket of the block device, a round of the reactor, the callback of the mediator, the queue
  of the pool and the task a worker takes from it have together exactly the effect of
  \<open>master_nbd_ready\<close>, errors included; when it reports the UDP socket the round has that of
  \<open>master_udp_ready\<close> and queues nothing. The order in which the hash map is visited does not matter.
\<close>
theorem master_round_is_event:
  assumes "visits order" and "tcp \<noteq> udp" and "0 \<le> tcp" "tcp < FD_SETSIZE" "0 \<le> udp" "udp < FD_SETSIZE"
    and "reports tcp (select_tcp ms)" and "reports udp (select_udp ms)" and "tp_queue pool = []"
  shows "bindE (Reactor_round (ReactorCallback (master_get h)) order (\<lambda>w. FDListen_Listen (select_tcp (fst w)))
        (InputMediator Reactor_ctor (reactor_vector tcp udp), ms, pool)) (\<lambda>(_, ms, pool). run_queued h pool ms) =
      master_nbd_ready h ms \<and>
    Reactor_round (ReactorCallback (master_get h)) order (\<lambda>w. FDListen_Listen (select_udp (fst w)))
        (InputMediator Reactor_ctor (reactor_vector tcp udp), ms, pool) =
      bindE (master_udp_ready h ms) (\<lambda>ms. Inr (InputMediator Reactor_ctor (reactor_vector tcp udp), ms, pool))"
proof
  let ?r = "InputMediator Reactor_ctor (reactor_vector tcp udp)"
  show "bindE (Reactor_round (ReactorCallback (master_get h)) order (\<lambda>w. FDListen_Listen (select_tcp (fst w))) (?r, ms, pool))
      (\<lambda>(_, ms, pool). run_queued h pool ms) = master_nbd_ready h ms"
    using master_round[of order tcp select_tcp ms tcp udp h pool] assms
    by (cases "NBDProxy_GetArgsKey h ms")
       (auto simp: ReactorCallback_result master_nbd_ready_def run_queued_def TP_AddTask_def AdminAddTask_def WaitableQueue_Push_def PQ_push_def)
  have "fst x = None" if "ResponseProxy_GetArgsKey h ms = Inr x" for x
    using that unfolding ResponseProxy_GetArgsKey_def by (auto simp: bindE_def Let_def split: sum.splits if_splits prod.splits)
  then show "Reactor_round (ReactorCallback (master_get h)) order (\<lambda>w. FDListen_Listen (select_udp (fst w))) (?r, ms, pool) =
      bindE (master_udp_ready h ms) (\<lambda>ms. Inr (?r, ms, pool))"
    using master_round[of order udp select_udp ms tcp udp h pool] assms
    by (cases "ResponseProxy_GetArgsKey h ms") (auto simp: ReactorCallback_result master_udp_ready_def)
qed

definition select_only :: "int \<Rightarrow> master \<Rightarrow> select_fun" where
  "select_only fd ms nfds fd_r fd_w = (let r = {x \<in> fd_r. x < nfds \<and> x = fd} in (if r = {} then 0 else 1, r, {}))"

lemma reports_select_only: "reports fd (select_only fd ms)"
  by (auto simp: reports_def select_meets_def select_only_def Let_def split: if_splits)

theorem master_round_is_event_witness:
  "bindE (Reactor_round (ReactorCallback (master_get demo_host)) sorted_order (\<lambda>w. FDListen_Listen (select_only 5 (fst w)))
      (InputMediator Reactor_ctor (reactor_vector 5 4), master_init\<lparr>ms_nbd_rx := [30, 0, 0, 0, 1, 0, 0, 0]\<rparr>, ThreadPool_ctor 2))
      (\<lambda>(_, ms, pool). run_queued demo_host pool ms) =
    master_nbd_ready demo_host (master_init\<lparr>ms_nbd_rx := [30, 0, 0, 0, 1, 0, 0, 0]\<rparr>)"
  using master_round_is_event[OF visits_sorted_order, of 5 4 "select_only 5" _ "select_only 4" "ThreadPool_ctor 2"]
  by (simp add: reports_select_only FD_SETSIZE_def ThreadPool_ctor_def)

text \<open>A request with another key finds no creator.\<close>

lemma NBD_GetArgsKey_unknown:
  assumes "8 \<le> length (ms_nbd_rx ms)" and "le_word (take 4 (ms_nbd_rx ms)) \<noteq> NBD_WRITE_MSG"
    and "le_word (take 4 (ms_nbd_rx ms)) \<noteq> NBD_READ_MSG"
  shows "NBDProxy_GetArgsKey h ms = Inl (Out_of_range ''key is not in map'')"
proof -
  let ?k = "le_word (take 4 (ms_nbd_rx ms)) :: u32"
  have hd: "get_u32 (take 8 (ms_nbd_rx ms)) 0 = Inr (?k, 4)"
    "get_u32 (take 8 (ms_nbd_rx ms)) 4 = Inr (le_word (take 4 (drop 4 (ms_nbd_rx ms))), 8)"
    using assms(1) by (simp_all add: get_u32_in drop_take min_def)
  have "sint ?k \<noteq> sint NBD_WRITE_MSG" "sint ?k \<noteq> sint NBD_READ_MSG" using assms(2,3) signed_word_eqI by blast+
  then have "30 \<noteq> sint ?k" "31 \<noteq> sint ?k" by (auto simp: master_key_int)
  then show ?thesis
    unfolding NBDProxy_GetArgsKey_def Let_def tcp_peek8[OF assms(1)] bindE_Inr prod.case hd
    by (simp add: master_key_int nbd_read_factory_def Create_AddCtor Create_new)
qed

text \<open>
  Keys the master does not know: a response with such a key stays at the head of its socket,
  and the reactor, which is told of it again in every round, runs on for ever and never sees
  the responses behind it; a request with such a key ends the process, after printing that
  the key is not in the map, as if it had been stopped.
\<close>
theorem unknown_keys_at_master:
  assumes "visits order" and "tcp \<noteq> udp" and "0 \<le> tcp" "tcp < FD_SETSIZE" "0 \<le> udp" "udp < FD_SETSIZE" and "plugins_ok env"
  shows "(ms_udp_rx ms = d # queue \<and> 8 \<le> length d \<and> le_word (take 4 d) \<noteq> WRITE_MINION_MSG_KEY \<and>
      le_word (take 4 d) \<noteq> READ_MINION_MSG_KEY \<and> reports udp (select ms) \<longrightarrow>
        Reactor_round (ReactorCallback (master_get h)) order (\<lambda>w. FDListen_Listen (select (fst w)))
          (InputMediator Reactor_ctor (reactor_vector tcp udp), ms, pool) =
          Inr (InputMediator Reactor_ctor (reactor_vector tcp udp), ms, pool) \<and>
        master_main h env order select tcp udp rounds (ms, pool) = None) \<and>
    (8 \<le> length (ms_nbd_rx ms) \<and> le_word (take 4 (ms_nbd_rx ms)) \<noteq> NBD_WRITE_MSG \<and>
      le_word (take 4 (ms_nbd_rx ms)) \<noteq> NBD_READ_MSG \<and> reports tcp (select ms) \<longrightarrow>
        master_main h env order select tcp udp (Suc rounds) (ms, pool) = Some (Inr (Some ''key is not in map'')))"
proof (intro conjI impI; elim conjE)
  let ?r = "InputMediator Reactor_ctor (reactor_vector tcp udp)"
  let ?round = "Reactor_round (ReactorCallback (master_get h)) order (\<lambda>w. FDListen_Listen (select (fst w)))"
  obtain dm w where f: "Framework_ctor env (reactor_vector tcp udp)
      [(READ_CMD_KEY, CreateReadCommand), (WRITE_CMD_KEY, CreateWriteCommand)] (ascii ''./plugins'') = Inr ((dm, w), ?r, master_factory)"
    using Framework_ctor_ok[OF assms(7)] unfolding master_factory_def by blast
  have live: "\<not> rc_isStopped ?r" by (simp add: Reactor_ctor_def del: InputMediator.simps)
  {
    assume u: "ms_udp_rx ms = d # queue" "8 \<le> length d" "le_word (take 4 d) \<noteq> WRITE_MINION_MSG_KEY"
      "le_word (take 4 d) \<noteq> READ_MINION_MSG_KEY" "reports udp (select ms)"
    show same: "?round (?r, ms, pool) = Inr (?r, ms, pool)"
      using master_round[of order udp select ms tcp udp h pool] assms(1-6) u(5) ResponseProxy_other[OF u(1-4)]
      by (simp add: ReactorCallback_result)
    have "Reactor_Run (ReactorCallback (master_get h)) order (\<lambda>w. FDListen_Listen (select (fst w))) rounds (?r, ms, pool) = None"
      using same live by (induction rounds) simp_all
    then show "master_main h env order select tcp udp rounds (ms, pool) = None" by (simp add: master_main_def f)
  next
    assume u: "8 \<le> length (ms_nbd_rx ms)" "le_word (take 4 (ms_nbd_rx ms)) \<noteq> NBD_WRITE_MSG"
      "le_word (take 4 (ms_nbd_rx ms)) \<noteq> NBD_READ_MSG" "reports tcp (select ms)"
    have "?round (?r, ms, pool) = Inl (Out_of_range ''key is not in map'')"
      using master_round[of order tcp select ms tcp udp h pool] assms(1-6) u(4) NBD_GetArgsKey_unknown[OF u(1-3)]
      by (simp add: ReactorCallback_result)
    then show "master_main h env order select tcp udp (Suc rounds) (ms, pool) = Some (Inr (Some ''key is not in map''))"
      using live by (simp add: master_main_def f)
  }
qed

theorem unknown_keys_at_master_witness:
  "master_main demo_host demo_env sorted_order (select_only 5) 4 5 7
     (master_init\<lparr>ms_udp_rx := [[0, 0, 0, 0, 0, 0, 0, 0], minion_write_wire (MinionWriteMsg demo_uid True)]\<rparr>, ThreadPool_ctor 2) = None \<and>
   master_main demo_host demo_env sorted_order (select_only 4) 4 5 1 (master_init\<lparr>ms_nbd_rx := [0, 0, 0, 0, 0, 0, 0, 0]\<rparr>, ThreadPool_ctor 2) =
     Some (Inr (Some ''key is not in map''))"
  using unknown_keys_at_master[OF visits_sorted_order, of 4 5 demo_env "master_init\<lparr>ms_udp_rx := [[0, 0, 0, 0, 0, 0, 0, 0], minion_write_wire (MinionWriteMsg demo_uid True)]\<rparr>"
      "[0, 0, 0, 0, 0, 0, 0, 0]" "[minion_write_wire (MinionWriteMsg demo_uid True)]" "select_only 5" demo_host "ThreadPool_ctor 2" 7]
    unknown_keys_at_master[OF visits_sorted_order, of 4 5 demo_env "master_init\<lparr>ms_nbd_rx := [0, 0, 0, 0, 0, 0, 0, 0]\<rparr>"
      "[]" "[]" "select_only 4" demo_host "ThreadPool_ctor 2" 0]
  by (simp add: reports_select_only FD_SETSIZE_def demo_env_ok key_defs)

end
