(* ===== verification/Queue_Monitor.thy ===== *)
theory Queue_Monitor
  imports Waitable_Queue
begin

text \<open>
  \<open>WaitableQueue\<close> step by step (\<open>src/priority_queue.cpp\<close>, and the same code in
  \<open>include/priority_queue.hpp\<close>): the mutex, the wait set of the condition variable, \<open>notify_one\<close>
  behind the critical section, time limits and spurious wake-ups. The other theories use each
  operation as one atomic step; here it is shown that they may, and that no item is left behind
  while a thread waits for it.

  A state is the container, whether the mutex is taken, and the bag of the places at which the
  threads are.
\<close>

datatype 'a outcome = Pushed 'a | Popped 'a | Popped_timed int "'a option" | Was_empty bool

datatype 'a place =
    Push_start 'a | Push_locked 'a | Push_unlocked 'a
  | Pop_start | Pop_locked | Pop_waiting | Pop_woken
  | Timed_start | Timed_locked | Timed_waiting | Timed_woken | Timed_expired | Timed_last
  | IsEmpty_start | IsEmpty_locked
  | Returned "'a outcome"

type_synonym 'a shared = "'a list \<times> bool"

subsection \<open>The operations\<close>

text \<open>
  Each relation gives the steps of a thread inside one operation: the shared part and the place
  before and after, and the outcome the step fixes, if it fixes one.
\<close>

inductive Push_step :: "('a \<Rightarrow> 'a list \<Rightarrow> 'a list) \<Rightarrow> 'a shared \<Rightarrow> 'a place \<Rightarrow> 'a outcome option \<Rightarrow> 'a shared \<Rightarrow> 'a place \<Rightarrow> bool"
  for push where
  push_lock: "Push_step push (q, False) (Push_start x) None (q, True) (Push_locked x)"
| push_item: "Push_step push (q, True) (Push_locked x) (Some (Pushed x)) (push x q, False) (Push_unlocked x)"

inductive Pop_step :: "('a list \<Rightarrow> 'a \<Rightarrow> 'a list \<Rightarrow> bool) \<Rightarrow> 'a shared \<Rightarrow> 'a place \<Rightarrow> 'a outcome option \<Rightarrow> 'a shared \<Rightarrow> 'a place \<Rightarrow> bool"
  for pops where
  pop_lock: "Pop_step pops (q, False) Pop_start None (q, True) Pop_locked"
| pop_wait: "Pop_step pops ([], True) Pop_locked None ([], False) Pop_waiting"
| pop_relock: "Pop_step pops (q, False) Pop_woken None (q, True) Pop_locked"
| pop_item: "q \<noteq> [] \<Longrightarrow> pops q x q' \<Longrightarrow> Pop_step pops (q, True) Pop_locked (Some (Popped x)) (q', False) (Returned (Popped x))"

text \<open>
  With a time limit the mutex may not be had in time, and the wait may end because the limit
  has passed; then the mutex is taken once more and the condition decides.
\<close>

inductive Pop_timed_step :: "('a list \<Rightarrow> 'a \<Rightarrow> 'a list \<Rightarrow> bool) \<Rightarrow> 'a shared \<Rightarrow> 'a place \<Rightarrow> 'a outcome option \<Rightarrow> 'a shared \<Rightarrow> 'a place \<Rightarrow> bool"
  for pops where
  timed_late: "Pop_timed_step pops (q, l) Timed_start (Some (Popped_timed (-2) None)) (q, l) (Returned (Popped_timed (-2) None))"
| timed_lock: "Pop_timed_step pops (q, False) Timed_start None (q, True) Timed_locked"
| timed_wait: "Pop_timed_step pops ([], True) Timed_locked None ([], False) Timed_waiting"
| timed_relock: "Pop_timed_step pops (q, False) Timed_woken None (q, True) Timed_locked"
| timed_expire: "Pop_timed_step pops (q, l) Timed_waiting None (q, l) Timed_expired"
| timed_relock_last: "Pop_timed_step pops (q, False) Timed_expired None (q, True) Timed_last"
| timed_item: "t \<in> {Timed_locked, Timed_last} \<Longrightarrow> q \<noteq> [] \<Longrightarrow> pops q x q' \<Longrightarrow>
    Pop_timed_step pops (q, True) t (Some (Popped_timed 0 (Some x))) (q', False) (Returned (Popped_timed 0 (Some x)))"
| timed_none: "Pop_timed_step pops ([], True) Timed_last (Some (Popped_timed (-1) None)) ([], False) (Returned (Popped_timed (-1) None))"

inductive IsEmpty_step :: "'a shared \<Rightarrow> 'a place \<Rightarrow> 'a outcome option \<Rightarrow> 'a shared \<Rightarrow> 'a place \<Rightarrow> bool" where
  empty_lock: "IsEmpty_step (q, False) IsEmpty_start None (q, True) IsEmpty_locked"
| empty_test: "IsEmpty_step (q, True) IsEmpty_locked (Some (Was_empty (q = []))) (q, False) (Returned (Was_empty (q = [])))"

subsection \<open>All threads together\<close>

fun woken :: "'a place \<Rightarrow> 'a place" where
  "woken Pop_waiting = Pop_woken"
| "woken Timed_waiting = Timed_woken"
| "woken t = t"

definition is_waiting :: "'a place \<Rightarrow> bool" where
  "is_waiting t \<longleftrightarrow> t \<in> {Pop_waiting, Timed_waiting}"

definition place_step ::
    "('a \<Rightarrow> 'a list \<Rightarrow> 'a list) \<Rightarrow> ('a list \<Rightarrow> 'a \<Rightarrow> 'a list \<Rightarrow> bool) \<Rightarrow> 'a shared \<Rightarrow> 'a place \<Rightarrow> 'a outcome option \<Rightarrow> 'a shared \<Rightarrow> 'a place \<Rightarrow> bool" where
  "place_step push pops s t l s' t' \<longleftrightarrow>
     Push_step push s t l s' t' \<or> Pop_step pops s t l s' t' \<or> Pop_timed_step pops s t l s' t' \<or> IsEmpty_step s t l s' t'"

text \<open>\<open>notify_one\<close> wakes any one of the waiting threads, or none if none waits.\<close>

inductive wq_step ::
    "('a \<Rightarrow> 'a list \<Rightarrow> 'a list) \<Rightarrow> ('a list \<Rightarrow> 'a \<Rightarrow> 'a list \<Rightarrow> bool) \<Rightarrow> 'a shared \<times> 'a place multiset \<Rightarrow> 'a outcome option \<Rightarrow>
      'a shared \<times> 'a place multiset \<Rightarrow> bool"
  for push pops where
  thread_step: "place_step push pops s t l s' t' \<Longrightarrow> wq_step push pops (s, add_mset t T) l (s', add_mset t' T)"
| notify_one: "is_waiting w \<Longrightarrow>
    wq_step push pops (s, {#Push_unlocked x, w#} + T) None (s, {#Returned (Pushed x), woken w#} + T)"
| notify_nobody: "\<forall>t \<in># T. \<not> is_waiting t \<Longrightarrow>
    wq_step push pops (s, add_mset (Push_unlocked x) T) None (s, add_mset (Returned (Pushed x)) T)"

inductive spurious_wakeup :: "'s \<times> 'a place multiset \<Rightarrow> 's \<times> 'a place multiset \<Rightarrow> bool" where
  wakeup: "is_waiting w \<Longrightarrow> spurious_wakeup (s, add_mset w T) (s, add_mset (woken w) T)"

text \<open>Runs, with the outcomes in the order in which they are fixed.\<close>

inductive wq_run ::
    "('a \<Rightarrow> 'a list \<Rightarrow> 'a list) \<Rightarrow> ('a list \<Rightarrow> 'a \<Rightarrow> 'a list \<Rightarrow> bool) \<Rightarrow> 'a shared \<times> 'a place multiset \<Rightarrow> 'a outcome list \<Rightarrow>
      'a shared \<times> 'a place multiset \<Rightarrow> bool"
  for push pops c where
  run_start: "wq_run push pops c [] c"
| run_step: "wq_run push pops c os c' \<Longrightarrow> wq_step push pops c' l c'' \<Longrightarrow>
    wq_run push pops c (os @ (case l of None \<Rightarrow> [] | Some out \<Rightarrow> [out])) c''"
| run_spurious: "wq_run push pops c os c' \<Longrightarrow> spurious_wakeup c' c'' \<Longrightarrow> wq_run push pops c os c''"

lemma place_stepI:
  "Push_step push s t l s' t' \<Longrightarrow> place_step push pops s t l s' t'" "Pop_step pops s t l s' t' \<Longrightarrow> place_step push pops s t l s' t'"
  "Pop_timed_step pops s t l s' t' \<Longrightarrow> place_step push pops s t l s' t'" "IsEmpty_step s t l s' t' \<Longrightarrow> place_step push pops s t l s' t'"
  by (simp_all add: place_step_def)

lemmas place_step_intros = place_stepI(1)[OF push_lock] place_stepI(1)[OF push_item]
  place_stepI(2)[OF pop_lock] place_stepI(2)[OF pop_wait] place_stepI(2)[OF pop_relock] place_stepI(2)[OF pop_item]
  place_stepI(3)[OF timed_lock] place_stepI(3)[OF timed_wait] place_stepI(3)[OF timed_relock] place_stepI(3)[OF timed_expire]
  place_stepI(3)[OF timed_relock_last] place_stepI(3)[OF timed_item] place_stepI(3)[OF timed_none]
  place_stepI(4)[OF empty_lock] place_stepI(4)[OF empty_test]

inductive_cases place_stepE [elim]:
  "Push_step push s t l s' t'" "Pop_step pops s t l s' t'" "Pop_timed_step pops s t l s' t'" "IsEmpty_step s t l s' t'"

subsection \<open>The operations as atomic steps\<close>

fun atomic :: "('a \<Rightarrow> 'a list \<Rightarrow> 'a list) \<Rightarrow> ('a list \<Rightarrow> 'a \<Rightarrow> 'a list \<Rightarrow> bool) \<Rightarrow> 'a list \<Rightarrow> 'a outcome \<Rightarrow> 'a list \<Rightarrow> bool" where
  "atomic push pops q (Pushed x) q' \<longleftrightarrow> q' = WaitableQueue_Push push x q"
| "atomic push pops q (Popped x) q' \<longleftrightarrow> WaitableQueue_Pop pops q x q'"
| "atomic push pops q (Popped_timed code ret) q' \<longleftrightarrow> (\<exists>locked. WaitableQueue_Pop_timed pops locked q code ret q')"
| "atomic push pops q (Was_empty b) q' \<longleftrightarrow> b = WaitableQueue_IsEmpty q \<and> q' = q"

inductive atomic_run :: "('a \<Rightarrow> 'a list \<Rightarrow> 'a list) \<Rightarrow> ('a list \<Rightarrow> 'a \<Rightarrow> 'a list \<Rightarrow> bool) \<Rightarrow> 'a list \<Rightarrow> 'a outcome list \<Rightarrow> 'a list \<Rightarrow> bool"
  for push pops q where
  atomic_none: "atomic_run push pops q [] q"
| atomic_more: "atomic_run push pops q os q' \<Longrightarrow> atomic push pops q' out q'' \<Longrightarrow> atomic_run push pops q (os @ [out]) q''"

text \<open>The outcomes that the places of the threads show.\<close>

fun shown :: "'a place \<Rightarrow> 'a outcome multiset" where
  "shown (Returned out) = {#out#}"
| "shown (Push_unlocked x) = {#Pushed x#}"
| "shown _ = {#}"

definition shown_all :: "'a place multiset \<Rightarrow> 'a outcome multiset" where
  "shown_all T = (\<Sum>t \<in># T. shown t)"

lemma shown_all_simps [simp]: "shown_all {#} = {#}" "shown_all (add_mset t T) = shown t + shown_all T"
  by (simp_all add: shown_all_def)

lemma woken_simps [simp]: "is_waiting w \<Longrightarrow> shown (woken w) = {#}" "is_waiting w \<Longrightarrow> shown w = {#}"
  by (auto simp: is_waiting_def)

lemma atomic_timed [simp]:
  "atomic push pops q (Popped_timed (-2) None) q"
  "q \<noteq> [] \<Longrightarrow> pops q x q' \<Longrightarrow> atomic push pops q (Popped_timed 0 (Some x)) q'"
  "atomic push pops [] (Popped_timed (-1) None) []"
  by (auto simp: WaitableQueue_Pop_timed_def WaitableQueue_IsEmpty_def)

lemma place_step_shown:
  "place_step push pops s t l s' t' \<Longrightarrow> shown t' = shown t + (case l of None \<Rightarrow> {#} | Some out \<Rightarrow> {#out#})"
  unfolding place_step_def by auto

lemma place_step_atomic:
  "place_step push pops s t l s' t' \<Longrightarrow> case l of None \<Rightarrow> fst s' = fst s | Some out \<Rightarrow> atomic push pops (fst s) out (fst s')"
  unfolding place_step_def
  by (elim disjE place_stepE)
     (simp_all add: WaitableQueue_Push_def WaitableQueue_Pop_def WaitableQueue_IsEmpty_def del: atomic.simps(3))

lemma wq_step_shown:
  "wq_step push pops c l c' \<Longrightarrow> shown_all (snd c') = shown_all (snd c) + (case l of None \<Rightarrow> {#} | Some out \<Rightarrow> {#out#})"
  by (induction rule: wq_step.induct) (auto dest: place_step_shown)

lemma wq_step_atomic:
  "wq_step push pops c l c' \<Longrightarrow> case l of None \<Rightarrow> fst (fst c') = fst (fst c) | Some out \<Rightarrow> atomic push pops (fst (fst c)) out (fst (fst c'))"
proof (induction rule: wq_step.induct)
  case (thread_step s t l s' t' T)
  from place_step_atomic[OF this] show ?case by (simp only: fst_conv)
qed simp_all

subsection \<open>The mutex, and wake-ups under way\<close>

definition holds_mutex :: "'a place \<Rightarrow> bool" where
  "holds_mutex t \<longleftrightarrow> (\<exists>x. t = Push_locked x) \<or> t \<in> {Pop_locked, Timed_locked, Timed_last, IsEmpty_locked}"

text \<open>The threads that will look at the container or pass a notification on.\<close>

definition alert :: "'a place \<Rightarrow> bool" where
  "alert t \<longleftrightarrow> (\<exists>x. t = Push_unlocked x) \<or>
     t \<in> {Pop_locked, Pop_woken, Timed_locked, Timed_woken, Timed_expired, Timed_last}"

definition num :: "('a place \<Rightarrow> bool) \<Rightarrow> 'a place multiset \<Rightarrow> nat" where
  "num P T = size (filter_mset P T)"

lemma num_simps [simp]: "num P {#} = 0" "num P (add_mset t T) = (if P t then 1 else 0) + num P T"
  by (simp_all add: num_def)

lemma num_pos: "0 < num P T \<longleftrightarrow> (\<exists>t \<in># T. P t)"
  by (induction T) auto

definition wq_inv :: "'a shared \<times> 'a place multiset \<Rightarrow> bool" where
  "wq_inv c \<longleftrightarrow> num holds_mutex (snd c) = (if snd (fst c) then 1 else 0) \<and>
     (0 < num is_waiting (snd c) \<longrightarrow> length (fst (fst c)) \<le> num alert (snd c))"

lemmas place_defs = holds_mutex_def alert_def is_waiting_def

lemma is_waiting_simps [simp]:
  "is_waiting w \<Longrightarrow> \<not> holds_mutex w" "is_waiting w \<Longrightarrow> \<not> alert w" "is_waiting w \<Longrightarrow> \<not> is_waiting (woken w)"
  "is_waiting w \<Longrightarrow> alert (woken w)" "is_waiting w \<Longrightarrow> \<not> holds_mutex (woken w)"
  "alert (Push_unlocked x)" "\<not> holds_mutex (Push_unlocked x)" "\<not> is_waiting (Push_unlocked x)"
  "\<not> alert (Returned out)" "\<not> holds_mutex (Returned out)" "\<not> is_waiting (Returned out)"
  by (auto simp: place_defs)

text \<open>What a thread can do to make a run end: its distance from returning.\<close>

fun weight :: "'a place \<Rightarrow> nat" where
  "weight (Push_start x) = 5"
| "weight (Push_locked x) = 4"
| "weight (Push_unlocked x) = 3"
| "weight Pop_start = 3"
| "weight Pop_locked = 2"
| "weight Pop_waiting = 1"
| "weight Pop_woken = 3"
| "weight Timed_start = 5"
| "weight Timed_locked = 4"
| "weight Timed_waiting = 3"
| "weight Timed_woken = 5"
| "weight Timed_expired = 2"
| "weight Timed_last = 1"
| "weight IsEmpty_start = 2"
| "weight IsEmpty_locked = 1"
| "weight (Returned out) = 0"

definition weights :: "'a place multiset \<Rightarrow> nat" where
  "weights T = (\<Sum>t \<in># T. weight t)"

lemma weights_simps [simp]: "weights {#} = 0" "weights (add_mset t T) = weight t + weights T"
  by (simp_all add: weights_def)

lemma place_step_weight: "place_step push pops s t l s' t' \<Longrightarrow> weight t' < weight t"
  unfolding place_step_def by (elim disjE place_stepE) auto

lemma wq_step_weight: "wq_step push pops c l c' \<Longrightarrow> weights (snd c') < weights (snd c)"
proof (induction rule: wq_step.induct)
  case (notify_one w s x T)
  then show ?case by (auto simp: is_waiting_def)
qed (auto dest: place_step_weight)

subsection \<open>Items and threads are conserved\<close>

fun given :: "'a outcome \<Rightarrow> 'a multiset" where
  "given (Pushed x) = {#x#}"
| "given _ = {#}"

fun taken :: "'a outcome \<Rightarrow> 'a multiset" where
  "taken (Popped x) = {#x#}"
| "taken (Popped_timed code (Some x)) = {#x#}"
| "taken _ = {#}"

fun in_push :: "'a place \<Rightarrow> bool" where
  "in_push (Push_start x) = True"
| "in_push (Push_locked x) = True"
| "in_push (Push_unlocked x) = True"
| "in_push (Returned (Pushed x)) = True"
| "in_push _ = False"

fun in_pop :: "'a place \<Rightarrow> bool" where
  "in_pop (Returned (Popped x)) = True"
| "in_pop (Returned (Popped_timed code ret)) = True"
| "in_pop (Returned _) = False"
| "in_pop IsEmpty_start = False"
| "in_pop IsEmpty_locked = False"
| "in_pop t = (\<not> in_push t)"

lemma place_step_kind: "place_step push pops s t l s' t' \<Longrightarrow> in_push t' = in_push t \<and> in_pop t' = in_pop t"
  unfolding place_step_def by (elim disjE place_stepE) auto

lemma woken_kind [simp]: "is_waiting w \<Longrightarrow> in_push (woken w) = in_push w" "is_waiting w \<Longrightarrow> in_pop (woken w) = in_pop w"
  by (auto simp: is_waiting_def)

lemma wq_step_kind:
  "wq_step push pops c l c' \<Longrightarrow> num in_push (snd c') = num in_push (snd c) \<and> num in_pop (snd c') = num in_pop (snd c)"
  by (induction rule: wq_step.induct) (auto dest: place_step_kind)

lemma run_kind:
  "wq_run push pops c os c' \<Longrightarrow> num in_push (snd c') = num in_push (snd c) \<and> num in_pop (snd c') = num in_pop (snd c)"
proof (induction rule: wq_run.induct)
  case (run_spurious os c' c'')
  from run_spurious.hyps(2) run_spurious.IH show ?case by (induction rule: spurious_wakeup.induct) simp
qed (auto dest: wq_step_kind)

text \<open>The threads of a state in which only waiting is left: what their outcomes say about the items.\<close>

lemma final_counts:
  assumes "\<forall>t \<in># T. (\<exists>out. t = Returned out) \<or> t = Pop_waiting"
  shows "size (\<Sum>out \<in># shown_all T. given out) = num in_push T"
    and "size (\<Sum>out \<in># shown_all T. taken out) + num is_waiting T \<le> num in_pop T"
proof -
  have 1: "size (given out) = (if in_push (Returned out) then 1 else 0)" for out :: "'a outcome" by (cases out) auto
  have none: "\<not> in_push (Returned out) \<Longrightarrow> given out = {#}" for out :: "'a outcome" by (cases out) auto
  have 2: "size (taken out) \<le> (if in_pop (Returned out) then 1 else 0)" for out :: "'a outcome"
    by (cases out rule: taken.cases) auto
  show "size (\<Sum>out \<in># shown_all T. given out) = num in_push T"
    using assms by (induction T) (auto simp: 1 none)
  show "size (\<Sum>out \<in># shown_all T. taken out) + num is_waiting T \<le> num in_pop T"
    using assms
  proof (induction T)
    case (add t T)
    then show ?case
    proof (cases "t = Pop_waiting")
      case False
      with add.prems obtain out where "t = Returned out" by auto
      with add.IH add.prems 2[of out] show ?thesis by auto
    qed (auto simp: is_waiting_def)
  qed simp
qed

subsection \<open>Any container\<close>

locale wait_queue = container push pops mset
  for push :: "'a \<Rightarrow> 'a list \<Rightarrow> 'a list" and pops
begin

lemma length_push: "length (push x q) = Suc (length q)"
  using arg_cong[OF items_push[of x q], of size] by simp

lemma length_pops: "pops q x q' \<Longrightarrow> length q = Suc (length q')"
  using arg_cong[OF items_pops, of q x q' size] by simp

lemma place_step_inv:
  assumes "place_step push pops s t l s' t'" "wq_inv (s, add_mset t T)"
  shows "wq_inv (s', add_mset t' T)"
  using assms unfolding place_step_def
  by (elim disjE place_stepE) (auto simp: wq_inv_def place_defs length_push dest: length_pops split: if_splits)

lemma wq_step_inv: "wq_step push pops c l c' \<Longrightarrow> wq_inv c \<Longrightarrow> wq_inv c'"
proof (induction rule: wq_step.induct)
  case (thread_step s t l s' t' T)
  then show ?case by (rule place_step_inv)
next
  case (notify_one w s x T)
  then show ?case by (auto simp: wq_inv_def)
next
  case (notify_nobody T s x)
  then have "num is_waiting T = 0" using num_pos[of is_waiting T] by auto
  with notify_nobody show ?case by (simp add: wq_inv_def)
qed

lemma spurious_inv: "spurious_wakeup c c' \<Longrightarrow> wq_inv c \<Longrightarrow> wq_inv c'"
  by (induction rule: spurious_wakeup.induct) (auto simp: wq_inv_def)

lemma run_inv: "wq_run push pops c os c' \<Longrightarrow> wq_inv c \<Longrightarrow> wq_inv c'"
  by (induction rule: wq_run.induct) (auto dest: wq_step_inv spurious_inv)

text \<open>A thread that is neither done nor waiting without a limit can move, or the holder of the mutex can.\<close>

lemma holder_moves:
  assumes "holds_mutex t"
  shows "\<exists>l s' t'. place_step push pops (q, True) t l s' t'"
proof (cases "q = []")
  case True
  then show ?thesis using assms unfolding holds_mutex_def by (blast intro: place_step_intros)
next
  case False
  then obtain x q' where "pops q x q'" using pops_total[of q] by auto
  with False show ?thesis using assms unfolding holds_mutex_def by (blast intro: place_step_intros)
qed

lemma free_moves:
  assumes "\<not> holds_mutex t" "\<not> (\<exists>x. t = Push_unlocked x)" "\<not> (\<exists>out. t = Returned out)" "t \<noteq> Pop_waiting"
  shows "\<exists>l s' t'. place_step push pops (q, False) t l s' t'"
  using assms by (cases t) (blast intro: place_step_intros | simp add: holds_mutex_def)+

lemma notify_moves: "\<exists>l c'. wq_step push pops (s, add_mset (Push_unlocked x) T) l c'"
proof (cases "\<exists>w \<in># T. is_waiting w")
  case True
  then obtain w T' where "T = add_mset w T'" "is_waiting w" by (auto dest: multi_member_split)
  then show ?thesis using notify_one[of w push pops s x T'] by (simp del: split_paired_Ex) blast
next
  case False
  then show ?thesis using notify_nobody[of T push pops s x] by blast
qed

lemma stopped:
  assumes "wq_inv c" "\<nexists>l c'. wq_step push pops c l c'" "t \<in># snd c"
  shows "\<not> snd (fst c) \<and> ((\<exists>out. t = Returned out) \<or> t = Pop_waiting \<and> fst (fst c) = [])"
proof -
  obtain q l T where c: "c = ((q, l), T)" by (metis prod.exhaust)
  have no: "\<not> place_step push pops (q, l) u o' s' u'" if "u \<in># T" for u o' s' u'
    using assms(2) thread_step[of push pops "(q, l)" u o' s' u' "T - {#u#}"] unfolding c insert_DiffM[OF that] by blast
  have l: "\<not> l"
  proof
    assume l
    then obtain u where "u \<in># T" "holds_mutex u" using assms(1) num_pos[of holds_mutex T] by (auto simp: wq_inv_def c)
    with holder_moves[of u q] no \<open>l\<close> show False by metis
  qed
  have free: "(\<exists>out. u = Returned out) \<or> u = Pop_waiting" if "u \<in># T" for u
  proof -
    have "\<not> holds_mutex u" using assms(1) l num_pos[of holds_mutex T] that by (auto simp: wq_inv_def c)
    moreover have "\<not> (\<exists>x. u = Push_unlocked x)"
      using notify_moves[of "(q, l)" _ "T - {#u#}"] assms(2) insert_DiffM[OF that] unfolding c by metis
    ultimately show ?thesis using free_moves[of u q] no[OF that] l by metis
  qed
  then have "num alert T = 0" using num_pos[of alert T] by (fastforce simp: alert_def)
  moreover have "0 < num is_waiting T" if "t = Pop_waiting" using num_pos[of is_waiting T] assms(3) that by (auto simp: c is_waiting_def)
  ultimately show ?thesis using assms(1) free[of t] assms(3) l by (auto simp: wq_inv_def c)
qed

lemma run_atomic:
  "wq_run push pops c os c' \<Longrightarrow> atomic_run push pops (fst (fst c)) os (fst (fst c')) \<and> shown_all (snd c') = shown_all (snd c) + mset os"
proof (induction rule: wq_run.induct)
  case run_start
  then show ?case by (simp add: atomic_none)
next
  case (run_step os c' l c'')
  from wq_step_atomic[OF run_step.hyps(2)] wq_step_shown[OF run_step.hyps(2)] run_step.IH show ?case
    by (cases l) (auto intro: atomic_more)
next
  case (run_spurious os c' c'')
  from run_spurious.hyps(2) run_spurious.IH show ?case by (induction rule: spurious_wakeup.induct) simp
qed

lemma atomic_items: "atomic push pops q out q' \<Longrightarrow> mset q' + taken out = mset q + given out"
  by (cases out rule: taken.cases)
     (auto simp: WaitableQueue_Push_def WaitableQueue_Pop_def WaitableQueue_Pop_timed_def items_push items_pops split: if_splits option.splits)

lemma atomic_run_items:
  "atomic_run push pops q os q' \<Longrightarrow> mset q' + (\<Sum>out \<in># mset os. taken out) = mset q + (\<Sum>out \<in># mset os. given out)"
proof (induction rule: atomic_run.induct)
  case (atomic_more os q' out q'')
  let ?t = "\<Sum>out \<in># mset os. taken out" and ?g = "\<Sum>out \<in># mset os. given out"
  have "mset q'' + (taken out + ?t) = (mset q' + ?t) + given out"
    unfolding union_assoc[symmetric] atomic_items[OF atomic_more.hyps(2)] by (simp add: ac_simps)
  then show ?case unfolding atomic_more.IH by (simp add: ac_simps)
qed simp

lemma all_return:
  assumes "wq_run push pops ((q, False), T) os c" "wq_inv ((q, False), T)" "shown_all T = {#}"
    and "num in_pop T \<le> length q + num in_push T" "\<nexists>l c'. wq_step push pops c l c'"
  shows "\<forall>t \<in># snd c. \<exists>out. t = Returned out"
proof (rule ccontr)
  assume no: "\<not> (\<forall>t \<in># snd c. \<exists>out. t = Returned out)"
  have inv: "wq_inv c" using run_inv[OF assms(1,2)] .
  have st: "\<forall>t \<in># snd c. (\<exists>out. t = Returned out) \<or> t = Pop_waiting \<and> fst (fst c) = []"
    using stopped[OF inv assms(5)] by blast
  with no have w: "Pop_waiting \<in># snd c" "fst (fst c) = []" by auto
  then have "0 < num is_waiting (snd c)" using num_pos[of is_waiting "snd c"] by (auto simp: is_waiting_def)
  moreover note final_counts[of "snd c"]
  moreover have "size (\<Sum>out \<in># mset os. taken out) = length q + size (\<Sum>out \<in># mset os. given out)"
    using arg_cong[OF atomic_run_items[OF conjunct1[OF run_atomic[OF assms(1)]]], of size] w(2) by simp
  moreover have "shown_all (snd c) = mset os" using run_atomic[OF assms(1)] assms(3) by simp
  ultimately show False using st run_kind[OF assms(1)] assms(4) by auto
qed

end

subsection \<open>Properties\<close>

interpretation fifo_queue: wait_queue fifo_push fifo_pops
  by unfold_locales

text \<open>The queue \<open>wq\<close> of \<open>src/priority_queue.cpp\<close> is a \<open>std::priority_queue\<close> of \<open>int\<close>: the greatest item first.\<close>

lemma int_pq_ranked: "ranked_container PQ_push (PQ_pops (\<lambda>a b :: int. a < b)) mset uminus"
  by (rule PQ_ranked) (auto simp: comes_after_def)

interpretation int_pq: wait_queue PQ_push "PQ_pops (\<lambda>a b :: int. a < b)"
  using int_pq_ranked by (simp add: wait_queue_def ranked_container_def)

fun starts :: "'a place \<Rightarrow> bool" where
  "starts (Push_start x) = True"
| "starts Pop_start = True"
| "starts Timed_start = True"
| "starts IsEmpty_start = True"
| "starts _ = False"

lemma starts_inv: "\<forall>t \<in># T. starts t \<Longrightarrow> wq_inv ((q, False), T) \<and> shown_all T = {#}"
proof -
  assume s: "\<forall>t \<in># T. starts t"
  have t: "\<not> holds_mutex t \<and> \<not> is_waiting t \<and> shown t = {#}" if "starts t" for t :: "'a place"
    using that by (cases t rule: starts.cases) (auto simp: place_defs)
  have "num holds_mutex T = 0" "num is_waiting T = 0" using s t num_pos[of _ T] by (metis neq0_conv)+
  moreover have "shown_all T = {#}" using s t by (induction T) auto
  ultimately show ?thesis by (simp add: wq_inv_def)
qed

text \<open>
  C29: the operations of a waitable queue may be taken for atomic: in every interleaving of any
  number of threads, with waiting, notifications, time limits and spurious wake-ups, the
  container is what the atomic operations leave when they are carried out one after the other
  in the order in which the outcomes are fixed; every outcome is returned by one thread; at
  most one thread holds the mutex; and items are neither lost nor duplicated.
\<close>
theorem queue_operations_are_atomic:
  assumes "wait_queue push pops" and "\<forall>t \<in># T. starts t" and "wq_run push pops ((q, False), T) os ((q', l), T')"
  shows "atomic_run push pops q os q' \<and> shown_all T' = mset os \<and> num holds_mutex T' = (if l then 1 else 0) \<and>
    mset q' + (\<Sum>out \<in># mset os. taken out) = mset q + (\<Sum>out \<in># mset os. given out)"
proof -
  note r = wait_queue.run_atomic[OF assms(1,3)]
  have "wq_inv ((q', l), T')" using wait_queue.run_inv[OF assms(1,3)] starts_inv[OF assms(2)] by blast
  then show ?thesis
    using r starts_inv[OF assms(2)] wait_queue.atomic_run_items[OF assms(1) conjunct1[OF r]] by (simp add: wq_inv_def)
qed

text \<open>
  C30: no item is left behind: a run without spurious wake-ups ends, since every step brings the
  threads closer to their return; where it ends every thread has returned, except those in a
  \<open>Pop\<close> without a limit if the container is empty; and if there are no more threads in \<open>Pop\<close> than items
  in the container and threads in \<open>Push\<close>, all have returned. Spurious wake-ups on the way do no
  harm.
\<close>
theorem no_item_left_behind:
  assumes "wait_queue push pops" and "\<forall>t \<in># T. starts t" and "wq_run push pops ((q, False), T) os c"
  shows "(\<forall>l c'. wq_step push pops c l c' \<longrightarrow> weights (snd c') < weights (snd c)) \<and>
    ((\<nexists>l c'. wq_step push pops c l c') \<longrightarrow>
      (\<forall>t \<in># snd c. (\<exists>out. t = Returned out) \<or> t = Pop_waiting \<and> fst (fst c) = []) \<and>
      (num in_pop T \<le> length q + num in_push T \<longrightarrow> (\<forall>t \<in># snd c. \<exists>out. t = Returned out)))"
proof -
  have i: "wq_inv ((q, False), T)" "shown_all T = {#}" using starts_inv[OF assms(2)] by blast+
  have c: "wq_inv c" using wait_queue.run_inv[OF assms(1,3) i(1)] .
  show ?thesis
    using wq_step_weight[of push pops c] wait_queue.stopped[OF assms(1) c] wait_queue.all_return[OF assms(1,3) i] by blast
qed

subsection \<open>The test threads of the queue\<close>

text \<open>\<open>func1\<close> to \<open>func5\<close>: the operation a thread carries out and what it prints of its outcome; \<open>x\<close> starts at 0.\<close>

fun ret_value :: "int outcome \<Rightarrow> int" where
  "ret_value (Popped x) = x"
| "ret_value (Popped_timed code (Some x)) = x"
| "ret_value _ = 0"

fun ret_code :: "'a outcome \<Rightarrow> int" where
  "ret_code (Popped_timed code ret) = code"
| "ret_code _ = 0"

type_synonym test_thread = "int place \<times> (int outcome \<Rightarrow> (string \<times> int) list)"

definition func1 :: test_thread where
  "func1 = (Pop_start, \<lambda>out. [(''pop/push test: 5 = success '', ret_value out)])"

definition func2 :: test_thread where
  "func2 = (Push_start 5, \<lambda>out. [])"

definition func3 :: test_thread where
  "func3 = (Timed_start, \<lambda>out. [(''push/pop(timeout not reached) test: 5 = success '', ret_value out)])"

definition func4 :: test_thread where
  "func4 = (Timed_start, \<lambda>out. [(''push/pop(timeout reached) test: 0 = success '', ret_value out)])"

definition func5 :: test_thread where
  "func5 = (Timed_start, \<lambda>out. [(''mutex timeout -2 = success: '', ret_code out)])"

lemma run_thread:
  assumes "wq_run push pops c os (s, add_mset t T)" "place_step push pops s t l s' t'"
  shows "wq_run push pops c (os @ (case l of None \<Rightarrow> [] | Some out \<Rightarrow> [out])) (s', add_mset t' T)"
  using run_step[OF assms(1) thread_step[OF assms(2)]] .

text \<open>\<open>func1\<close> waits, \<open>func2\<close> pushes and wakes it up, and \<open>func1\<close> takes the item.\<close>

lemma func1_func2_run:
  fixes pops :: "int list \<Rightarrow> int \<Rightarrow> int list \<Rightarrow> bool"
  assumes "pops [5] 5 []"
  shows "wq_run PQ_push pops (([], False), {#fst func1, fst func2#}) [Pushed 5] (([5], True), {#Pop_locked, Returned (Pushed 5)#})"
    and "wq_run PQ_push pops (([], False), {#fst func1, fst func2#}) [Pushed 5, Popped 5]
      (([], False), {#Returned (Popped 5), Returned (Pushed 5)#})"
proof -
  let ?run = "wq_run PQ_push pops (([], False), {#Pop_start, Push_start 5#})"
  have "?run [] (([], True), {#Pop_locked, Push_start 5#})"
    using run_thread[OF run_start place_step_intros(3)] by simp
  from run_thread[OF this place_step_intros(4)] have "?run [] (([], False), {#Push_start 5, Pop_waiting#})"
    by (simp add: add_mset_commute)
  from run_thread[OF this place_step_intros(1)] have "?run [] (([], True), {#Push_locked 5, Pop_waiting#})" by simp
  from run_thread[OF this place_step_intros(2)] have "?run [Pushed 5] (([5], False), {#Push_unlocked 5, Pop_waiting#})"
    by (simp add: PQ_push_def)
  from run_step[OF this, of None "(([5], False), {#Returned (Pushed 5), Pop_woken#})"]
  have "?run [Pushed 5] (([5], False), {#Pop_woken, Returned (Pushed 5)#})"
    using notify_one[of Pop_waiting PQ_push pops "([5], False)" 5 "{#}"] by (simp add: is_waiting_def add_mset_commute)
  from run_thread[OF this place_step_intros(5)] have r: "?run [Pushed 5] (([5], True), {#Pop_locked, Returned (Pushed 5)#})" by simp
  then show "wq_run PQ_push pops (([], False), {#fst func1, fst func2#}) [Pushed 5] (([5], True), {#Pop_locked, Returned (Pushed 5)#})"
    by (simp add: func1_def func2_def)
  from run_thread[OF r place_step_intros(6)] assms
  show "wq_run PQ_push pops (([], False), {#fst func1, fst func2#}) [Pushed 5, Popped 5]
      (([], False), {#Returned (Popped 5), Returned (Pushed 5)#})"
    by (simp add: func1_def func2_def)
qed

lemma int_pq_single: "PQ_pops (\<lambda>a b :: int. a < b) [5] 5 []"
  by (simp add: PQ_pops_def PQ_front_def comes_after_def)

theorem queue_operations_are_atomic_witness:
  "wq_run PQ_push (PQ_pops (<)) (([], False), {#fst func1, fst func2#}) [Pushed 5] (([5], True), {#Pop_locked, Returned (Pushed 5)#}) \<and>
   atomic_run PQ_push (PQ_pops (<)) [] [Pushed (5 :: int)] [5]"
  using queue_operations_are_atomic[OF int_pq.wait_queue_axioms _ func1_func2_run(1)[of "PQ_pops (<)", OF int_pq_single]] func1_func2_run(1)[of "PQ_pops (<)", OF int_pq_single]
  by (simp add: func1_def func2_def)

theorem no_item_left_behind_witness:
  "wq_run PQ_push (PQ_pops (<)) (([], False), {#fst func1, fst func2#}) [Pushed 5, Popped 5]
     (([], False), {#Returned (Popped 5), Returned (Pushed 5)#}) \<and>
   (\<nexists>l c'. wq_step PQ_push (PQ_pops (<)) (([], False), {#Returned (Popped (5 :: int)), Returned (Pushed 5)#}) l c')"
  using no_item_left_behind[OF int_pq.wait_queue_axioms _ func1_func2_run(2)[of "PQ_pops (<)", OF int_pq_single]] func1_func2_run(2)[of "PQ_pops (<)", OF int_pq_single]
  by (simp add: func1_def func2_def)

end
