(* ===== verification/Singleton.thy ===== *)
theory Singleton
  imports Main
begin

text \<open>
  \<open>Singleton<T, CtorArgs...>::GetInstance\<close> (\<open>include/singleton.hpp\<close>): double-checked locking, with a
  flag in front of it that sends later calls to \<open>Supply\<close>. Any number of threads, identified by
  numbers, call it; each step is one access to shared memory, and the memory is sequentially
  consistent. The n-th object constructed is the number n.
\<close>

text \<open>
  Where a thread stands: outside, having made no call yet; before the test of \<open>m_supply_flag\<close>; in \<open>Init\<close> before the first load, before
  the lock, before the second load, before the constructor, before the store, before the flag,
  before the unlock; in \<open>Supply\<close>; and returned with a pointer (\<open>None\<close> is null).
\<close>

datatype pc = Idle | Calling | Init_load | Init_lock | Init_reload | Init_new | Init_store nat | Init_flag nat
  | Init_unlock nat | Supply_load | Returned "nat option"

record singleton =
  sg_instance :: "nat option"
  sg_supply_flag :: bool
  sg_mutex :: "nat option"
  sg_built :: nat
  sg_pc :: "nat \<Rightarrow> pc"

definition singleton_start :: singleton where
  "singleton_start = \<lparr>sg_instance = None, sg_supply_flag = False, sg_mutex = None, sg_built = 0, sg_pc = (\<lambda>_. Idle)\<rparr>"

definition goes :: "nat \<Rightarrow> pc \<Rightarrow> singleton \<Rightarrow> singleton" where
  "goes t c s = s\<lparr>sg_pc := (sg_pc s)(t := c)\<rparr>"

text \<open>The next step of a thread; \<open>None\<close> when it waits for the mutex or is not inside a call.\<close>

definition GetInstance_step :: "nat \<Rightarrow> singleton \<Rightarrow> singleton option" where
  "GetInstance_step t s =
     (case sg_pc s t of
        Idle \<Rightarrow> None
      | Calling \<Rightarrow> Some (goes t (if sg_supply_flag s = False then Init_load else Supply_load) s)
      | Init_load \<Rightarrow> Some (goes t (case sg_instance s of None \<Rightarrow> Init_lock | Some p \<Rightarrow> Returned (Some p)) s)
      | Init_lock \<Rightarrow> (if sg_mutex s = None then Some (goes t Init_reload (s\<lparr>sg_mutex := Some t\<rparr>)) else None)
      | Init_reload \<Rightarrow> Some (goes t (case sg_instance s of None \<Rightarrow> Init_new | Some p \<Rightarrow> Init_unlock p) s)
      | Init_new \<Rightarrow> Some (goes t (Init_store (sg_built s)) (s\<lparr>sg_built := sg_built s + 1\<rparr>))
      | Init_store p \<Rightarrow> Some (goes t (Init_flag p) (s\<lparr>sg_instance := Some p\<rparr>))
      | Init_flag p \<Rightarrow> Some (goes t (Init_unlock p) (s\<lparr>sg_supply_flag := True\<rparr>))
      | Init_unlock p \<Rightarrow> Some (goes t (Returned (Some p)) (s\<lparr>sg_mutex := None\<rparr>))
      | Supply_load \<Rightarrow> Some (goes t (Returned (sg_instance s)) s)
      | Returned p \<Rightarrow> None)"

text \<open>The runs of any interleaving; any thread may call, and call again when it has returned.\<close>

inductive singleton_reachable :: "singleton \<Rightarrow> bool" where
  sg_start: "singleton_reachable singleton_start"
| sg_step: "singleton_reachable s \<Longrightarrow> GetInstance_step t s = Some s' \<Longrightarrow> singleton_reachable s'"
| sg_call: "singleton_reachable s \<Longrightarrow> sg_pc s t = Idle \<or> sg_pc s t = Returned p \<Longrightarrow> singleton_reachable (goes t Calling s)"

text \<open>A schedule of the calls under way: it names the thread of each step.\<close>

fun run_schedule :: "nat list \<Rightarrow> singleton \<Rightarrow> singleton option" where
  "run_schedule [] s = Some s"
| "run_schedule (t # ts) s = (case GetInstance_step t s of Some s' \<Rightarrow> run_schedule ts s' | None \<Rightarrow> None)"

subsection \<open>The invariant\<close>

definition holds_lock :: "pc \<Rightarrow> bool" where
  "holds_lock c = (case c of Init_reload \<Rightarrow> True | Init_new \<Rightarrow> True | Init_store _ \<Rightarrow> True | Init_flag _ \<Rightarrow> True
     | Init_unlock _ \<Rightarrow> True | _ \<Rightarrow> False)"

text \<open>What a thread at a given place may rely on.\<close>

definition pc_ok :: "singleton \<Rightarrow> pc \<Rightarrow> bool" where
  "pc_ok s c = (case c of
     Init_new \<Rightarrow> sg_built s = 0 \<and> sg_instance s = None
   | Init_store p \<Rightarrow> p = 0 \<and> sg_built s = 1 \<and> sg_instance s = None
   | Init_flag p \<Rightarrow> p = 0 \<and> sg_instance s = Some 0
   | Init_unlock p \<Rightarrow> p = 0 \<and> sg_instance s = Some 0
   | Supply_load \<Rightarrow> sg_instance s = Some 0
   | Returned q \<Rightarrow> q = Some 0 \<and> sg_instance s = Some 0
   | _ \<Rightarrow> True)"

definition storing :: "singleton \<Rightarrow> bool" where
  "storing s = (case sg_mutex s of Some t \<Rightarrow> sg_pc s t = Init_store 0 | None \<Rightarrow> False)"

definition singleton_inv :: "singleton \<Rightarrow> bool" where
  "singleton_inv s \<longleftrightarrow>
     (\<forall>t. holds_lock (sg_pc s t) \<longleftrightarrow> sg_mutex s = Some t) \<and> (\<forall>t. pc_ok s (sg_pc s t)) \<and>
     (sg_supply_flag s \<longrightarrow> sg_instance s = Some 0) \<and> (sg_instance s = None \<or> sg_instance s = Some 0) \<and>
     sg_built s = (if sg_instance s = Some 0 \<or> storing s then 1 else 0)"

lemma singleton_inv_start: "singleton_inv singleton_start"
  by (simp add: singleton_inv_def singleton_start_def pc_ok_def holds_lock_def storing_def)

lemma goes_sel [simp]: "sg_instance (goes t c s) = sg_instance s" "sg_supply_flag (goes t c s) = sg_supply_flag s"
  "sg_mutex (goes t c s) = sg_mutex s" "sg_built (goes t c s) = sg_built s"
  "sg_pc (goes t c s) t' = (if t' = t then c else sg_pc s t')"
  by (simp_all add: goes_def)

lemma pc_ok_cong: "sg_instance s' = sg_instance s \<Longrightarrow> sg_built s' = sg_built s \<Longrightarrow> pc_ok s' c = pc_ok s c"
  by (cases c) (simp_all add: pc_ok_def)

lemma pc_ok_free: "pc_ok s c \<Longrightarrow> \<not> holds_lock c \<Longrightarrow> sg_instance s = None \<or> sg_instance s' = sg_instance s \<Longrightarrow> pc_ok s' c"
  by (cases c) (auto simp: pc_ok_def holds_lock_def)

text \<open>A step of a thread outside the lock that writes nothing.\<close>

lemma inv_move:
  assumes "singleton_inv s" "\<not> holds_lock (sg_pc s t)" "\<not> holds_lock c" "pc_ok s c"
  shows "singleton_inv (goes t c s)"
proof -
  have "sg_mutex s \<noteq> Some t" using assms(1,2) by (simp add: singleton_inv_def)
  then have "storing (goes t c s) = storing s" by (auto simp: storing_def split: option.splits)
  then show ?thesis using assms pc_ok_cong[of "goes t c s" s] unfolding singleton_inv_def by auto
qed

text \<open>A step of the thread inside the lock: the others are outside.\<close>

lemma inv_locked:
  assumes i: "singleton_inv s" and h: "sg_mutex s = None \<or> sg_mutex s = Some t"
    and s': "s' = goes t c (s\<lparr>sg_instance := x, sg_supply_flag := f, sg_mutex := m, sg_built := n\<rparr>)"
    and m: "m = (if holds_lock c then Some t else None)" and c: "pc_ok s' c"
    and x: "sg_instance s = None \<or> x = sg_instance s" "x = None \<or> x = Some 0" "f \<longrightarrow> x = Some 0"
    and n: "n = (if x = Some 0 \<or> c = Init_store 0 then 1 else 0)"
  shows "singleton_inv s'"
proof -
  have free: "\<not> holds_lock (sg_pc s t')" if "t' \<noteq> t" for t'
    using i h that unfolding singleton_inv_def by auto
  have ok: "pc_ok s' (sg_pc s t')" if "t' \<noteq> t" for t'
    by (rule pc_ok_free[OF _ free[OF that]]) (use i x in \<open>auto simp: singleton_inv_def s'\<close>)
  have "storing s' \<longleftrightarrow> c = Init_store 0" by (cases c) (simp_all add: storing_def s' m holds_lock_def)
  then show ?thesis unfolding singleton_inv_def using c ok free x n by (auto simp: s' m)
qed

lemma singleton_inv_step:
  assumes i: "singleton_inv s" and st: "GetInstance_step t s = Some s'"
  shows "singleton_inv s'"
proof -
  have ok: "pc_ok s (sg_pc s t)" "holds_lock (sg_pc s t) \<longleftrightarrow> sg_mutex s = Some t" "sg_supply_flag s \<longrightarrow> sg_instance s = Some 0"
    "sg_instance s = None \<or> sg_instance s = Some 0" "sg_built s = (if sg_instance s = Some 0 \<or> storing s then 1 else 0)"
    using i unfolding singleton_inv_def by blast+
  note defs = holds_lock_def pc_ok_def GetInstance_step_def
  note locked = inv_locked[OF i, where s' = s' and t = t and x = "sg_instance s'" and f = "sg_supply_flag s'" and m = "sg_mutex s'" and n = "sg_built s'"]
  have free: ?thesis if "s' = goes t c s" "\<not> holds_lock (sg_pc s t)" "\<not> holds_lock c" "pc_ok s c" for c
    using inv_move[OF i that(2-4)] that(1) by simp
  show ?thesis
  proof (cases "sg_pc s t")
    case Idle
    with st show ?thesis by (simp add: defs)
  next
    case Calling
    with st ok show ?thesis by (intro free[of "if sg_supply_flag s then Supply_load else Init_load"]) (auto simp: defs)
  next
    case Init_load
    with st ok show ?thesis
      by (intro free[of "case sg_instance s of None \<Rightarrow> Init_lock | Some p \<Rightarrow> Returned (Some p)"]) (auto simp: defs)
  next
    case Init_lock
    with st ok show ?thesis
      by (intro locked[where c = Init_reload]) (auto simp: defs storing_def goes_def split: if_splits)
  next
    case Init_reload
    with st ok show ?thesis
      by (intro locked[where c = "case sg_instance s of None \<Rightarrow> Init_new | Some p \<Rightarrow> Init_unlock p"])
         (auto simp: defs storing_def goes_def)
  next
    case Init_new
    with st ok show ?thesis by (intro locked[where c = "Init_store 0"]) (auto simp: defs goes_def)
  next
    case (Init_store p)
    with st ok show ?thesis by (intro locked[where c = "Init_flag 0"]) (auto simp: defs goes_def)
  next
    case (Init_flag p)
    with st ok show ?thesis by (intro locked[where c = "Init_unlock 0"]) (auto simp: defs goes_def)
  next
    case (Init_unlock p)
    with st ok show ?thesis by (intro locked[where c = "Returned (Some 0)"]) (auto simp: defs goes_def)
  next
    case Supply_load
    with st ok show ?thesis by (intro free[of "Returned (sg_instance s)"]) (auto simp: defs)
  next
    case (Returned p)
    with st show ?thesis by (simp add: defs)
  qed
qed

lemma reachable_singleton_inv: "singleton_reachable s \<Longrightarrow> singleton_inv s"
proof (induction rule: singleton_reachable.induct)
  case (sg_call s t p)
  then show ?case by (intro inv_move) (auto simp: holds_lock_def pc_ok_def)
qed (simp_all add: singleton_inv_start singleton_inv_step)

subsection \<open>Progress\<close>

text \<open>The threads that have called, and the steps a call still has to take at most.\<close>

definition callers :: "singleton \<Rightarrow> nat set" where
  "callers s = {t. sg_pc s t \<noteq> Idle}"

fun to_go :: "pc \<Rightarrow> nat" where
  "to_go Idle = 0" | "to_go Calling = 8" | "to_go Init_load = 7" | "to_go Init_lock = 6" | "to_go Init_reload = 5"
| "to_go Init_new = 4" | "to_go (Init_store p) = 3" | "to_go (Init_flag p) = 2" | "to_go (Init_unlock p) = 1"
| "to_go Supply_load = 1" | "to_go (Returned p) = 0"

lemma finite_callers: "singleton_reachable s \<Longrightarrow> finite (callers s)"
proof (induction rule: singleton_reachable.induct)
  case sg_start
  then show ?case by (simp add: callers_def singleton_start_def)
next
  case (sg_step s t s')
  from sg_step.hyps(2) have "callers s' \<subseteq> insert t (callers s)"
    by (auto simp: callers_def GetInstance_step_def split: pc.splits option.splits if_splits)
  with sg_step.IH show ?case by (meson finite_insert finite_subset)
next
  case (sg_call s t p)
  have "callers (goes t Calling s) \<subseteq> insert t (callers s)" by (auto simp: callers_def)
  with sg_call.IH show ?case by (meson finite_insert finite_subset)
qed

lemma GetInstance_step_pc:
  assumes "GetInstance_step t s = Some s'"
  shows "sg_pc s t \<noteq> Idle" and "to_go (sg_pc s' t) < to_go (sg_pc s t)" and "callers s' = callers s"
    and "t' \<noteq> t \<Longrightarrow> sg_pc s' t' = sg_pc s t'"
  using assms by (auto simp: callers_def GetInstance_step_def goes_def split: pc.splits option.splits if_splits)

lemma schedule_bound:
  "run_schedule ts s = Some s' \<Longrightarrow> finite (callers s) \<Longrightarrow>
   length ts + (\<Sum>t \<in> callers s. to_go (sg_pc s' t)) \<le> (\<Sum>t \<in> callers s. to_go (sg_pc s t)) \<and> callers s' = callers s"
proof (induction ts arbitrary: s)
  case (Cons t ts)
  then obtain s1 where s: "GetInstance_step t s = Some s1" "run_schedule ts s1 = Some s'" by (auto split: option.splits)
  note pc = GetInstance_step_pc[OF s(1)]
  have "to_go (sg_pc s1 x) \<le> to_go (sg_pc s x)" for x using pc(2) pc(4)[of x] by (cases "x = t") simp_all
  with pc(1,2) have "(\<Sum>t \<in> callers s. to_go (sg_pc s1 t)) < (\<Sum>t \<in> callers s. to_go (sg_pc s t))"
    by (intro sum_strict_mono_ex1 Cons.prems(2)) (auto simp: callers_def)
  with Cons.IH[OF s(2)] Cons.prems(2) pc(3) show ?case by simp
qed simp

lemma run_schedule_reachable: "run_schedule ts s = Some s' \<Longrightarrow> singleton_reachable s \<Longrightarrow> singleton_reachable s'"
  by (induction ts arbitrary: s) (auto split: option.splits intro: sg_step)

text \<open>Nobody waits for a mutex that nobody is about to release.\<close>

lemma no_step_returned:
  assumes "singleton_inv s" and stuck: "\<forall>t. GetInstance_step t s = None" and "t \<in> callers s"
  shows "sg_pc s t = Returned (Some 0)"
proof -
  have "\<not> holds_lock (sg_pc s t')" for t'
    using stuck[rule_format, of t'] by (auto simp: GetInstance_step_def holds_lock_def split: pc.splits if_splits)
  then have "sg_mutex s = None" using assms(1) unfolding singleton_inv_def by (cases "sg_mutex s") auto
  with stuck[rule_format, of t] assms(3) have "\<exists>p. sg_pc s t = Returned p"
    by (auto simp: GetInstance_step_def callers_def split: pc.splits)
  moreover have "pc_ok s (sg_pc s t)" using assms(1) unfolding singleton_inv_def by blast
  ultimately show ?thesis by (auto simp: pc_ok_def)
qed

subsection \<open>Properties\<close>

text \<open>
  C27: in every interleaving of any number of threads that call \<open>GetInstance\<close>, at most one object
  is constructed, and every call that has returned has returned that object: it is the one
  stored, fully constructed before, and never null, on the way through \<open>Init\<close> as well as
  through \<open>Supply\<close>. No call gets stuck: from any reachable state the calls made so far take at most
  eight steps each, and once none of them can go on all have returned the object.
\<close>

theorem singleton_unique:
  assumes "singleton_reachable s"
  shows "sg_built s \<le> 1 \<and> (\<forall>t p. sg_pc s t = Returned p \<longrightarrow> p = Some 0 \<and> sg_instance s = Some 0 \<and> sg_built s = 1) \<and>
    (\<forall>ts s'. run_schedule ts s = Some s' \<longrightarrow> length ts \<le> 8 * card (callers s) \<and>
      ((\<forall>t. GetInstance_step t s' = None) \<longrightarrow> (\<forall>t \<in> callers s. sg_pc s' t = Returned (Some 0))))"
proof -
  have i: "singleton_inv s" using reachable_singleton_inv[OF assms] .
  have "length ts \<le> 8 * card (callers s)" and "(\<forall>t. GetInstance_step t s' = None) \<longrightarrow> (\<forall>t \<in> callers s. sg_pc s' t = Returned (Some 0))"
    if r: "run_schedule ts s = Some s'" for ts s'
  proof -
    note b = schedule_bound[OF r finite_callers[OF assms]]
    have "to_go c \<le> 8" for c by (cases c) simp_all
    then have "(\<Sum>t \<in> callers s. to_go (sg_pc s t)) \<le> 8 * card (callers s)"
      by (metis sum_bounded_above mult.commute of_nat_id)
    with b show "length ts \<le> 8 * card (callers s)" by linarith
    show "(\<forall>t. GetInstance_step t s' = None) \<longrightarrow> (\<forall>t \<in> callers s. sg_pc s' t = Returned (Some 0))"
      using no_step_returned[OF reachable_singleton_inv[OF run_schedule_reachable[OF r assms]]] b by blast
  qed
  moreover have "p = Some 0 \<and> sg_instance s = Some 0" if "sg_pc s t = Returned p" for t p
  proof -
    have "pc_ok s (sg_pc s t)" using i unfolding singleton_inv_def by blast
    with that show ?thesis by (simp add: pc_ok_def)
  qed
  ultimately show ?thesis using i unfolding singleton_inv_def by auto
qed

theorem singleton_unique_witness:
  "\<exists>s. run_schedule [0, 1, 0, 1, 0, 0, 0, 0, 0, 0, 1, 1, 1] (goes 1 Calling (goes 0 Calling singleton_start)) = Some s \<and>
     sg_pc s 0 = Returned (Some 0) \<and> sg_pc s 1 = Returned (Some 0) \<and> sg_built s = 1"
proof -
  let ?s = "goes 1 Calling (goes 0 Calling singleton_start)"
  have r: "singleton_reachable ?s" by (intro sg_call sg_start) (simp_all add: singleton_start_def)
  obtain s where s: "run_schedule [0, 1, 0, 1, 0, 0, 0, 0, 0, 0, 1, 1, 1] ?s = Some s"
    and "\<exists>p q. sg_pc s 0 = Returned p \<and> sg_pc s 1 = Returned q"
    by (simp add: GetInstance_step_def singleton_start_def goes_def)
  with singleton_unique[OF run_schedule_reachable[OF s r]] show ?thesis by metis
qed

end
