(* ===== verification/Logger.thy ===== *)
theory Logger
  imports Waitable_Queue Error_Handler
begin

text \<open>
  \<open>Logger\<close> (\<open>include/logger.hpp\<close>, \<open>src/logger.cpp\<close>): callers push log tasks into a waitable FIFO
  queue, a thread of the logger pops them one by one and writes a line for each, until a task
  with the stop flag, which the destructor pushes, has been written. Formatting the time with
  \<open>std::put_time\<close> is the parameter \<open>fmt\<close>.
\<close>

datatype SEVERITY = INFO | WARNING | ERROR

record log_task =
  lt_string :: string
  lt_severity :: SEVERITY
  lt_time :: int
  lt_stop :: bool

record logger =
  lg_wq :: "log_task list"
  lg_fout :: "string list"
  lg_running :: bool

definition LogTask_Run :: "(int \<Rightarrow> string) \<Rightarrow> log_task \<Rightarrow> string" where
  "LogTask_Run fmt task =
     (let sever_str = (case lt_severity task of INFO \<Rightarrow> ''INFO - '' | WARNING \<Rightarrow> ''WARNING - '' | ERROR \<Rightarrow> ''ERROR - '')
      in fmt (lt_time task) @ '' - '' @ sever_str @ lt_string task)"

definition LogTask_IsStop :: "log_task \<Rightarrow> bool" where
  "LogTask_IsStop task = lt_stop task"

text \<open>
  \<open>PhraseLine\<close> of the logger puts its own file, name and line into the text and not those it is
  given. The expansion of \<open>__PRETTY_FUNCTION__\<close> is the compiler's, a parameter.
\<close>

definition Logger_PhraseLine :: "string \<Rightarrow> string \<Rightarrow> loc \<Rightarrow> string" where
  "Logger_PhraseLine pretty_function message l =
     ''  '' @ ''logger.cpp'' @ ''                                '' @ pretty_function @ ''                   '' @
     to_string 38 @ ''       '' @ message"

text \<open>The constructor writes the headline; the line that it formats after it is dropped.\<close>

definition headline :: string where
  "headline = ''Date           | Time    | Type   | File                      | Function                                                                                        | Line | Message''"

definition Logger_ctor :: logger where
  "Logger_ctor = \<lparr>lg_wq = [], lg_fout = [headline], lg_running = True\<rparr>"

definition Log :: "SEVERITY \<Rightarrow> string \<Rightarrow> int \<Rightarrow> logger \<Rightarrow> logger" where
  "Log severity string_to_log now lg =
     lg\<lparr>lg_wq := WaitableQueue_Push fifo_push
       \<lparr>lt_string = string_to_log, lt_severity = severity, lt_time = now, lt_stop = False\<rparr> (lg_wq lg)\<rparr>"

text \<open>The destructor up to the join, which waits for the thread to end.\<close>

definition Logger_dtor :: "int \<Rightarrow> logger \<Rightarrow> logger" where
  "Logger_dtor now lg =
     lg\<lparr>lg_wq := WaitableQueue_Push fifo_push
       \<lparr>lt_string = ''Log End'' @ [CHR 10], lt_severity = INFO, lt_time = now, lt_stop = True\<rparr> (lg_wq lg)\<rparr>"

text \<open>One iteration of \<open>LogThreadFunc\<close>.\<close>

inductive log_step :: "(int \<Rightarrow> string) \<Rightarrow> logger \<Rightarrow> logger \<Rightarrow> bool" for fmt where
  log_line: "lg_running lg \<Longrightarrow> WaitableQueue_Pop fifo_pops (lg_wq lg) out q' \<Longrightarrow>
    log_step fmt lg (lg\<lparr>lg_wq := q', lg_fout := lg_fout lg @ [LogTask_Run fmt out], lg_running := \<not> LogTask_IsStop out\<rparr>)"

text \<open>Lines phrased at different places cannot be told apart.\<close>

lemma Logger_PhraseLine_ignores_place:
  "Logger_PhraseLine f m l = Logger_PhraseLine f m' l' \<longleftrightarrow> m = m'"
  by (simp add: Logger_PhraseLine_def)

text \<open>What happens in a run: calls of \<open>Log\<close> by any thread, of the destructor, and iterations.\<close>

inductive log_run :: "(int \<Rightarrow> string) \<Rightarrow> log_task list \<Rightarrow> logger \<Rightarrow> bool" for fmt where
  lr_start: "log_run fmt [] Logger_ctor"
| lr_log: "log_run fmt ts lg \<Longrightarrow> log_run fmt (ts @ [\<lparr>lt_string = m, lt_severity = sev, lt_time = now, lt_stop = False\<rparr>]) (Log sev m now lg)"
| lr_dtor: "log_run fmt ts lg \<Longrightarrow> log_run fmt (ts @ [\<lparr>lt_string = ''Log End'' @ [CHR 10], lt_severity = INFO, lt_time = now, lt_stop = True\<rparr>]) (Logger_dtor now lg)"
| lr_step: "log_run fmt ts lg \<Longrightarrow> log_step fmt lg lg' \<Longrightarrow> log_run fmt ts lg'"

text \<open>The tasks up to and including the first that stops the thread.\<close>

fun until_stop :: "log_task list \<Rightarrow> log_task list" where
  "until_stop [] = []"
| "until_stop (t # ts) = (if lt_stop t then [t] else t # until_stop ts)"

lemma until_stop_append: "until_stop (ts @ us) = (if \<exists>t \<in> set ts. lt_stop t then until_stop ts else ts @ until_stop us)"
  by (induction ts) auto

lemma until_stop_id: "\<not> (\<exists>t \<in> set ts. lt_stop t) \<Longrightarrow> until_stop ts = ts"
  by (induction ts) auto

text \<open>The lines written are the tasks taken, in order, and the thread runs until a stop is taken.\<close>

definition log_inv :: "(int \<Rightarrow> string) \<Rightarrow> log_task list \<Rightarrow> logger \<Rightarrow> bool" where
  "log_inv fmt ts lg \<longleftrightarrow> (\<exists>done. ts = done @ lg_wq lg \<and> lg_fout lg = headline # map (LogTask_Run fmt) done \<and>
     until_stop done = done \<and> (lg_running lg \<longleftrightarrow> \<not> (\<exists>t \<in> set done. lt_stop t)))"

lemma log_run_inv: "log_run fmt ts lg \<Longrightarrow> log_inv fmt ts lg"
proof (induction rule: log_run.induct)
  case lr_start
  then show ?case by (simp add: log_inv_def Logger_ctor_def)
next
  case (lr_step ts lg lg')
  from lr_step.hyps(2) obtain out q' where r: "lg_running lg" "lg_wq lg = out # q'"
    "lg' = lg\<lparr>lg_wq := q', lg_fout := lg_fout lg @ [LogTask_Run fmt out], lg_running := \<not> LogTask_IsStop out\<rparr>"
    by (auto simp: log_step.simps WaitableQueue_Pop_def fifo_pops_def)
  from lr_step.IH obtain don where "ts = don @ lg_wq lg" "lg_fout lg = headline # map (LogTask_Run fmt) don"
    "until_stop don = don" "lg_running lg \<longleftrightarrow> \<not> (\<exists>t \<in> set don. lt_stop t)" by (auto simp: log_inv_def)
  with r show ?case unfolding log_inv_def
    by (intro exI[of _ "don @ [out]"]) (auto simp: until_stop_append LogTask_IsStop_def)
qed (auto simp: log_inv_def Log_def Logger_dtor_def WaitableQueue_Push_def fifo_push_def)

text \<open>
  In every run the file holds the headline and then the lines of a prefix of the tasks in the
  order in which they were pushed, and the thread never blocks before a task is written that
  was pushed before the destructor's: when it can do nothing more, everything up to and
  including the destructor's last line has been written, and nothing pushed after it.
\<close>
theorem log_is_complete:
  assumes "log_run fmt ts lg"
  shows "(\<exists>n. lg_fout lg = headline # map (LogTask_Run fmt) (take n (until_stop ts))) \<and>
    ((\<forall>lg'. \<not> log_step fmt lg lg') \<longrightarrow> lg_fout lg = headline # map (LogTask_Run fmt) (until_stop ts))"
proof -
  obtain don where d: "ts = don @ lg_wq lg" "lg_fout lg = headline # map (LogTask_Run fmt) don"
    "until_stop don = don" "lg_running lg \<longleftrightarrow> \<not> (\<exists>t \<in> set don. lt_stop t)"
    using log_run_inv[OF assms] by (auto simp: log_inv_def)
  have "don = take (length don) (until_stop ts)" using d(1,3) by (auto simp: until_stop_append)
  moreover have "until_stop ts = don" if "\<forall>lg'. \<not> log_step fmt lg lg'"
  proof (cases "lg_running lg")
    case True
    then have "lg_wq lg = []"
      using that fifo.pops_total[of "lg_wq lg"] by (fastforce simp: log_step.simps WaitableQueue_Pop_def WaitableQueue_IsEmpty_def)
    then show ?thesis using d by simp
  next
    case False
    then show ?thesis using d by (simp add: until_stop_append)
  qed
  ultimately show ?thesis using d(2) by metis
qed

theorem log_is_complete_witness:
  "\<exists>lg. log_run (\<lambda>_. ''now'') [\<lparr>lt_string = ''hello'', lt_severity = WARNING, lt_time = 5, lt_stop = False\<rparr>] lg \<and>
     lg_fout lg = [headline, ''now - WARNING - hello'']"
proof -
  let ?t = "\<lparr>lt_string = ''hello'', lt_severity = WARNING, lt_time = 5, lt_stop = False\<rparr>"
  let ?lg = "\<lparr>lg_wq = [], lg_fout = [headline, ''now - WARNING - hello''], lg_running = True\<rparr>"
  have 1: "log_run (\<lambda>_. ''now'') ([] @ [?t]) (Log WARNING ''hello'' 5 Logger_ctor)" by (intro lr_log lr_start)
  have "log_step (\<lambda>_. ''now'') (Log WARNING ''hello'' 5 Logger_ctor) ?lg"
    by (auto simp: log_step.simps Log_def Logger_ctor_def WaitableQueue_Push_def fifo_push_def fifo_pops_def
        WaitableQueue_Pop_def WaitableQueue_IsEmpty_def LogTask_Run_def LogTask_IsStop_def)
  from lr_step[OF 1 this] have r: "log_run (\<lambda>_. ''now'') [?t] ?lg" by simp
  have "\<forall>lg'. \<not> log_step (\<lambda>_. ''now'') ?lg lg'" by (auto simp: log_step.simps WaitableQueue_Pop_def WaitableQueue_IsEmpty_def)
  with log_is_complete[OF r] r show ?thesis by (intro exI[of _ ?lg]) (simp add: LogTask_Run_def)
qed

end
