(* ===== verification/Pool_Tasks.thy ===== *)
theory Pool_Tasks
  imports Logger
begin

text \<open>
  The tasks a thread pool offers its users (\<open>include/threadpool.hpp\<close>, \<open>src/threadpool.cpp\<close>): a function, a line
  for the log, and a function with a result that another thread waits for on a semaphore.
\<close>

text \<open>A task acts on the rest of the process and may throw.\<close>

definition FunctionTPTask_Run :: "('w \<Rightarrow> 'w result) \<Rightarrow> 'w \<Rightarrow> 'w result" where
  "FunctionTPTask_Run m_func w = m_func w"

definition TPLogTask_Run :: "string \<Rightarrow> int \<Rightarrow> logger \<Rightarrow> logger" where
  "TPLogTask_Run m_str now lg = Log INFO m_str now lg"

record 'o future =
  fu_sem :: nat
  fu_output :: "'o option"

text \<open>The output is indeterminate until the first run.\<close>

definition FutureFuncTPTask_ctor :: "'o future" where
  "FutureFuncTPTask_ctor = \<lparr>fu_sem = 0, fu_output = None\<rparr>"

definition FutureFuncTPTask_Run :: "('w \<Rightarrow> ('o \<times> 'w) result) \<Rightarrow> 'o future \<Rightarrow> 'w \<Rightarrow> ('o future \<times> 'w) result" where
  "FutureFuncTPTask_Run m_func t w =
     bindE (m_func w) (\<lambda>(r, w). Inr (t\<lparr>fu_output := Some r, fu_sem := Suc (fu_sem t)\<rparr>, w))"

definition GetOutput :: "'o future \<Rightarrow> ('o \<times> 'o future) result" where
  "GetOutput t =
     (if fu_sem t = 0 then Inl Blocked
      else case fu_output t of None \<Rightarrow> Inl Undefined | Some r \<Rightarrow> Inr (r, t\<lparr>fu_sem := fu_sem t - 1\<rparr>))"

text \<open>
  A history of a task in a process with states \<open>'w\<close>: runs of it, with the result of the function, and
  waits that have returned; a run in which the function throws leaves the task as it was.
\<close>

inductive future_run :: "('w \<Rightarrow> ('o \<times> 'w) result) \<Rightarrow> 'o list \<Rightarrow> 'o list \<Rightarrow> 'o future \<Rightarrow> bool" for m_func where
  fr_new: "future_run m_func [] [] FutureFuncTPTask_ctor"
| fr_run: "future_run m_func rs gs t \<Longrightarrow> m_func w = Inr (r, w') \<Longrightarrow> FutureFuncTPTask_Run m_func t w = Inr (t', w') \<Longrightarrow>
    future_run m_func (rs @ [r]) gs t'"
| fr_get: "future_run m_func rs gs t \<Longrightarrow> GetOutput t = Inr (g, t') \<Longrightarrow> future_run m_func rs (gs @ [g]) t'"

lemma future_inv: "future_run m_func rs gs t \<Longrightarrow> fu_sem t + length gs = length rs \<and> fu_output t = (if rs = [] then None else Some (last rs))"
  by (induction rule: future_run.induct)
     (auto simp: FutureFuncTPTask_ctor_def FutureFuncTPTask_Run_def GetOutput_def split: if_splits option.splits)

text \<open>
  \<open>GetOutput\<close> never reads an output that has not been written: it returns the result of the last run
  as long as fewer waits than runs have returned, and blocks otherwise; so of several threads
  that wait for one run of a task only one ever gets its result.
\<close>
theorem GetOutput_waits_for_run:
  assumes "future_run m_func rs gs t"
  shows "(length gs < length rs \<longrightarrow> (\<exists>t'. GetOutput t = Inr (last rs, t'))) \<and>
    (length gs = length rs \<longrightarrow> GetOutput t = Inl Blocked) \<and> length gs \<le> length rs"
  using future_inv[OF assms] by (auto simp: GetOutput_def)

theorem GetOutput_waits_for_run_witness:
  "\<exists>t t'. GetOutput t = Inr (7, t') \<and> GetOutput (t' :: nat future) = Inl Blocked"
proof -
  let ?t = "\<lparr>fu_sem = 1, fu_output = Some (7 :: nat)\<rparr>" and ?f = "\<lambda>w :: unit. Inr (7 :: nat, w)"
  have "FutureFuncTPTask_Run ?f FutureFuncTPTask_ctor () = Inr (?t, ())"
    by (simp add: FutureFuncTPTask_Run_def FutureFuncTPTask_ctor_def)
  from fr_run[OF fr_new _ this] have 1: "future_run ?f [7] [] ?t" by simp
  with GetOutput_waits_for_run[OF 1] obtain t' where t': "GetOutput ?t = Inr (7, t')" by auto
  from fr_get[OF 1 t'] GetOutput_waits_for_run[of ?f "[7]" "[7]" t'] t' show ?thesis by auto
qed

end
