(* ===== verification/Data_Base.thy ===== *)
theory Data_Base
  imports Error_Handler
begin

text \<open>
  \<open>DataBase\<close> (\<open>include/database.hpp\<close>, \<open>src/database.cpp\<close>): its constructor opens a file and creates a table;
  \<open>Print\<close> is a callback for the rows of a query. The two calls of SQLite are a parameter that acts
  on the state of the files. The class declares a destructor and \<open>Write\<close> without defining them,
  and nothing constructs it.
\<close>

record 's sqlite =
  sqlite3_open :: "string \<Rightarrow> 's \<Rightarrow> int \<times> 's"
  sqlite3_exec :: "string \<Rightarrow> 's \<Rightarrow> int \<times> 's"

definition SQLITE_OK :: int where "SQLITE_OK = 0"

definition sql :: string where
  "sql = ''CREATE TABLE Request('' @ ''UID INT PRIMARY KEY     NOT NULL, '' @ ''TYPE           TEXT    NOT NULL, '' @
     ''MINION_NUM     INT     NOT NULL, '' @ ''OFFSET         SIZE_T     NOT NULL, '' @ ''SIZE           INT         NOT NULL);''"

definition db_loc :: "nat \<Rightarrow> loc" where
  "db_loc line = Loc ''database.cpp'' ''DataBase::DataBase()'' line"

text \<open>The state of the files is what the constructor leaves, also when it throws: nothing is closed.\<close>

definition DataBase_ctor :: "'s sqlite \<Rightarrow> 's \<Rightarrow> unit result \<times> 's" where
  "DataBase_ctor lib s =
     (case sqlite3_open lib ''database.db'' s of (r, s) \<Rightarrow>
        (case snd (NotEqualToCheck r 0 ''sqlite3_open'' (db_loc 15)) of
           Inl e \<Rightarrow> (Inl e, s)
         | Inr _ \<Rightarrow>
             (case sqlite3_exec lib sql s of (r, s) \<Rightarrow>
                (snd (NotEqualToCheck r SQLITE_OK ''sqlite3_exec'' (db_loc 16)), s))))"

text \<open>\<open>Print\<close>: the text on the standard error, that on the standard output, and the result.\<close>

fun print_loop :: "string list \<Rightarrow> string option list \<Rightarrow> string" where
  "print_loop (c # azColName) (v # argv) =
     c @ '' = '' @ (case v of Some s \<Rightarrow> s | None \<Rightarrow> ''NULL'') @ [CHR 10] @ print_loop azColName argv"
| "print_loop _ _ = []"

definition Print :: "string \<Rightarrow> string option list \<Rightarrow> string list \<Rightarrow> string \<times> string \<times> int" where
  "Print data argv azColName = (data @ '': '', print_loop azColName argv @ [CHR 10], 0)"

text \<open>
  SQLite creates a table once and refuses a table that is already there; opening a file keeps its
  tables. So the constructor works once for a file: every later start of the program throws.
\<close>

definition creates_once :: "'s sqlite \<Rightarrow> ('s \<Rightarrow> bool) \<Rightarrow> bool" where
  "creates_once lib has_table \<longleftrightarrow>
     (\<forall>s. fst (sqlite3_open lib ''database.db'' s) = 0 \<and> has_table (snd (sqlite3_open lib ''database.db'' s)) = has_table s \<and>
       (if has_table s then sqlite3_exec lib sql s = (1, s)
        else fst (sqlite3_exec lib sql s) = 0 \<and> has_table (snd (sqlite3_exec lib sql s))))"

text \<open>
  The data base can be created once only: on a file without the table the constructor returns
  and the table is there, and from then on every construction on that file throws and changes
  no table.
\<close>
theorem DataBase_constructed_once:
  assumes "creates_once lib has_table"
  shows "(\<not> has_table s \<longrightarrow> fst (DataBase_ctor lib s) = Inr () \<and> has_table (snd (DataBase_ctor lib s))) \<and>
    (has_table s \<longrightarrow> fst (DataBase_ctor lib s) =
        Inl (Runtime_error (CheckAndLog_PhraseLine ''sqlite3_exec'' (db_loc 16) @ '' FAIL'')) \<and>
      has_table (snd (DataBase_ctor lib s)))"
proof -
  obtain r s1 where o: "sqlite3_open lib ''database.db'' s = (r, s1)" by force
  obtain r' s2 where e: "sqlite3_exec lib sql s1 = (r', s2)" by force
  have "fst (sqlite3_open lib ''database.db'' s) = 0 \<and> has_table (snd (sqlite3_open lib ''database.db'' s)) = has_table s"
    "if has_table s1 then sqlite3_exec lib sql s1 = (1, s1) else fst (sqlite3_exec lib sql s1) = 0 \<and> has_table (snd (sqlite3_exec lib sql s1))"
    using assms unfolding creates_once_def by blast+
  with o e have "r = 0" "has_table s1 = has_table s" "if has_table s then r' = 1 \<and> s2 = s1 else r' = 0 \<and> has_table s2" by auto
  then show ?thesis using o e by (auto simp: DataBase_ctor_def SQLITE_OK_def NotEqualToCheck_differ)
qed

theorem DataBase_constructed_once_witness:
  "let lib = \<lparr>sqlite3_open = (\<lambda>f s. (0, s)), sqlite3_exec = (\<lambda>q s. if s then (1, s) else (0, True))\<rparr> in
   fst (DataBase_ctor lib False) = Inr () \<and>
   fst (DataBase_ctor lib True) = Inl (Runtime_error (CheckAndLog_PhraseLine ''sqlite3_exec'' (db_loc 16) @ '' FAIL''))"
proof -
  let ?lib = "\<lparr>sqlite3_open = (\<lambda>f s. (0, s)), sqlite3_exec = (\<lambda>q s. if s then (1, s) else (0, True))\<rparr>"
  have "creates_once ?lib (\<lambda>s. s)" by (simp add: creates_once_def)
  from DataBase_constructed_once[OF this, of False] DataBase_constructed_once[OF this, of True] show ?thesis by simp
qed

end
