(* ===== verification/Network.thy ===== *)
theory Network
  imports Device
begin

text \<open>
  The system over the network as it is: UDP loses, duplicates, delays and reorders datagrams,
  minions restart, and the handlers of the four processes interleave in any order. What has
  been sent is never taken out of a channel, and any datagram of a channel may arrive at any
  time, any number of times or never. The steps are those of the code: every transition runs a
  handler of \<open>Master\<close> or \<open>Minion\<close> on one input. A run is the list of its events.
\<close>

record network =
  nt_master :: master
  nt_minions :: "minion list"
  nt_wire :: "(minion_proxy \<times> datagram) set"
  nt_back :: "datagram set"
  nt_polls :: "ai_func list"
  nt_waiting :: "request option"

text \<open>
  The events: a write or a read of the block device is accepted and its commands are sent
  under the given identifiers; minion \<open>i\<close> handles a datagram; the master handles a response; a
  functor is polled, with its result and what it told the block device; the callback of the
  block device returns, with the bytes a read returns; minion \<open>i\<close> is started again.
\<close>

datatype event =
    Wrote u64 "byte list" uid uid
  | Asked u64 u32 uid
  | Delivered nat datagram
  | Answered datagram
  | Polled ai_func bool "byte list"
  | Replied "byte list"
  | Restarted nat

definition files_ok :: "(string \<rightharpoonup> byte list) \<Rightarrow> bool" where
  "files_ok fs \<longleftrightarrow> (\<forall>name bytes. fs name = Some bytes \<longrightarrow> length bytes < 2 ^ 63)"

definition net_start :: "(string \<rightharpoonup> byte list) \<Rightarrow> network" where
  "net_start fs = \<lparr>nt_master = sy_master (start fs), nt_minions = sy_minions (start fs),
     nt_wire = {}, nt_back = {}, nt_polls = [], nt_waiting = None\<rparr>"

text \<open>
  What a request leaves behind once the master has handled it: its datagrams are on the wire,
  its poll is with the scheduler and the callback waits for the answer.
\<close>

definition net_issue :: "request \<Rightarrow> ai_func \<Rightarrow> master \<Rightarrow> network \<Rightarrow> network" where
  "net_issue r f ms s = s\<lparr>nt_master := ms\<lparr>ms_udp_tx := []\<rparr>, nt_wire := nt_wire s \<union> set (ms_udp_tx ms),
     nt_polls := f # nt_polls s, nt_waiting := Some r\<rparr>"

definition net_serve :: "nat \<Rightarrow> minion \<Rightarrow> network \<Rightarrow> network" where
  "net_serve i mn s = s\<lparr>nt_minions := (nt_minions s)[i := mn\<lparr>mn_tx := []\<rparr>],
     nt_back := nt_back s \<union> set (mn_tx mn)\<rparr>"

definition net_poll :: "ai_func \<Rightarrow> bool \<Rightarrow> master \<Rightarrow> network \<Rightarrow> network" where
  "net_poll f r ms s = s\<lparr>nt_master := ms,
     nt_polls := (if r then remove1 f (nt_polls s) else nt_polls s)\<rparr>"

definition net_reply :: "master \<Rightarrow> network \<Rightarrow> network" where
  "net_reply ms s = s\<lparr>nt_master := ms, nt_waiting := None\<rparr>"

inductive net_step :: "host \<Rightarrow> (nat \<Rightarrow> host) \<Rightarrow> nat \<Rightarrow> network \<Rightarrow> event \<Rightarrow> network \<Rightarrow> bool"
  for h :: host and hm :: "nat \<Rightarrow> host" and limit :: nat where
  Write: "nt_waiting s = None \<Longrightarrow> fits limit (Write_req off d) \<Longrightarrow>
    NBDWrite_request h d (of_nat (length d)) off (nt_master s) = Inr ms \<Longrightarrow>
    master_nbd_ready h ms = Inr (Some (WriteAIFunc og bk, t), ms') \<Longrightarrow>
    net_step h hm limit s (Wrote off d og bk)
      (net_issue (Write_req off d) (WriteAIFunc og bk) ms' s)"
| Read: "nt_waiting s = None \<Longrightarrow> fits limit (Read_req off n) \<Longrightarrow>
    NBDRead_request h n off (nt_master s) = Inr ms \<Longrightarrow>
    master_nbd_ready h ms = Inr (Some (ReadAIFunc u, t), ms') \<Longrightarrow>
    net_step h hm limit s (Asked off n u) (net_issue (Read_req off n) (ReadAIFunc u) ms' s)"
| Deliver: "i < 3 \<Longrightarrow> (Raid01_ctor ! i, d) \<in> nt_wire s \<Longrightarrow>
    minion_handle (hm i) ((nt_minions s ! i)\<lparr>mn_rx := [d]\<rparr>) = Inr mn \<Longrightarrow>
    net_step h hm limit s (Delivered i d) (net_serve i mn s)"
| Answer: "d \<in> nt_back s \<Longrightarrow> master_udp_ready h ((nt_master s)\<lparr>ms_udp_rx := [d]\<rparr>) = Inr ms \<Longrightarrow>
    net_step h hm limit s (Answered d) (s\<lparr>nt_master := ms\<rparr>)"
| Poll: "f \<in> set (nt_polls s) \<Longrightarrow> ai_call f (nt_master s) = Inr (r, ms) \<Longrightarrow>
    net_step h hm limit s (Polled f r (drop (length (ms_nbd_tx (nt_master s))) (ms_nbd_tx ms)))
      (net_poll f r ms s)"
| Reply_write: "nt_waiting s = Some (Write_req off d) \<Longrightarrow> ms_nbd_tx (nt_master s) \<noteq> [] \<Longrightarrow>
    NBDWrite_reply h (of_nat (length d)) (nt_master s) = Inr (r, ms) \<Longrightarrow>
    net_step h hm limit s (Replied []) (net_reply ms s)"
| Reply_read: "nt_waiting s = Some (Read_req off n) \<Longrightarrow> ms_nbd_tx (nt_master s) \<noteq> [] \<Longrightarrow>
    NBDRead_reply (new_char (h_garbage h 4) (unat n)) n (nt_master s) = Inr (buf, ms) \<Longrightarrow>
    net_step h hm limit s (Replied buf) (net_reply ms s)"
| Restart: "i < 3 \<Longrightarrow> files_ok fs \<Longrightarrow>
    net_step h hm limit s (Restarted i)
      (s\<lparr>nt_minions := (nt_minions s)[i := MasterProxy fs (mp_port (Raid01_ctor ! i))]\<rparr>)"

inductive net_run :: "host \<Rightarrow> (nat \<Rightarrow> host) \<Rightarrow> nat \<Rightarrow> event list \<Rightarrow> network \<Rightarrow> bool"
  for h :: host and hm :: "nat \<Rightarrow> host" and limit :: nat where
  Start: "files_ok fs \<Longrightarrow> net_run h hm limit [] (net_start fs)"
| Step: "net_run h hm limit es s \<Longrightarrow> net_step h hm limit s e s' \<Longrightarrow> net_run h hm limit (es @ [e]) s'"

inductive_cases net_run_snocE: "net_run h hm limit (es @ [e]) s"

subsection \<open>Messages\<close>

abbreviation put_wire :: "nat \<times> nat \<Rightarrow> byte list \<Rightarrow> uid \<Rightarrow> datagram" where
  "put_wire at d u \<equiv> write_wire (WriteMsg (of_nat (snd at)) (of_nat (length d)) (Some d) u)"

abbreviation get_wire :: "nat \<times> nat \<Rightarrow> u32 \<Rightarrow> uid \<Rightarrow> datagram" where
  "get_wire at n u \<equiv> read_wire (ReadMsg (of_nat (snd at)) n u)"

abbreviation data_response :: "uid \<Rightarrow> byte list \<Rightarrow> u32 \<Rightarrow> datagram" where
  "data_response u d n \<equiv> minion_read_wire (MinionReadMsg u True (Some d) n)"

text \<open>What an event put on the wire, and the identifiers it drew for it.\<close>

fun sent_by :: "event \<Rightarrow> (minion_proxy \<times> datagram) set" where
  "sent_by (Wrote off d og bk) =
     {(Raid01_ctor ! fst (raid_primary (unat off)), put_wire (raid_primary (unat off)) d og),
      (Raid01_ctor ! fst (raid_backup (unat off)), put_wire (raid_backup (unat off)) d bk)}"
| "sent_by (Asked off n u) =
     {(Raid01_ctor ! fst (raid_primary (unat off)), get_wire (raid_primary (unat off)) n u)}"
| "sent_by _ = {}"

fun ids :: "event \<Rightarrow> u32 list" where
  "ids (Wrote off d og bk) = [GetUniqueCounter og, GetUniqueCounter bk]"
| "ids (Asked off n u) = [GetUniqueCounter u]"
| "ids _ = []"

fun issued_ok :: "nat \<Rightarrow> event \<Rightarrow> bool" where
  "issued_ok limit (Wrote off d og bk) \<longleftrightarrow>
     fits limit (Write_req off d) \<and> GetUniqueCounter og \<noteq> GetUniqueCounter bk"
| "issued_ok limit (Asked off n u) \<longleftrightarrow> fits limit (Read_req off n)"
| "issued_ok limit _ \<longleftrightarrow> True"

subsection \<open>The invariant of every run\<close>

text \<open>The identifiers that a command of the run carried and that a minion has handled.\<close>

definition handled :: "event list \<Rightarrow> uid \<Rightarrow> bool" where
  "handled es u \<longleftrightarrow>
     (\<exists>off d og bk. Wrote off d og bk \<in> set es \<and>
        (u = og \<and> Delivered (fst (raid_primary (unat off))) (put_wire (raid_primary (unat off)) d og) \<in> set es \<or>
         u = bk \<and> Delivered (fst (raid_backup (unat off))) (put_wire (raid_backup (unat off)) d bk) \<in> set es)) \<or>
     (\<exists>off n. Asked off n u \<in> set es \<and>
        Delivered (fst (raid_primary (unat off))) (get_wire (raid_primary (unat off)) n u) \<in> set es)"

definition response_ok :: "nat \<Rightarrow> event list \<Rightarrow> datagram \<Rightarrow> bool" where
  "response_ok limit es x \<longleftrightarrow> (\<exists>u. handled es u \<and>
     (x = write_response u \<and> (\<exists>off d v. Wrote off d u v \<in> set es \<or> Wrote off d v u \<in> set es) \<or>
      (\<exists>off d n. Asked off n u \<in> set es \<and> x = data_response u d n \<and> length d = unat n \<and> unat n \<le> limit)))"

definition poll_ok :: "event list \<Rightarrow> ai_func \<Rightarrow> bool" where
  "poll_ok es f \<longleftrightarrow> (case f of ReadAIFunc u \<Rightarrow> \<exists>off n. Asked off n u \<in> set es
     | WriteAIFunc og bk \<Rightarrow> \<exists>off d. Wrote off d og bk \<in> set es)"

definition minion_ok :: "minion \<Rightarrow> bool" where
  "minion_ok mn \<longleftrightarrow> minion_wf mn \<and> mn_rx mn = [] \<and> mn_tx mn = []"

definition net_inv :: "nat \<Rightarrow> event list \<Rightarrow> network \<Rightarrow> bool" where
  "net_inv limit es s \<longleftrightarrow>
     length (nt_minions s) = 3 \<and> list_all minion_ok (nt_minions s) \<and>
     ms_nbd_rx (nt_master s) = [] \<and> ms_udp_rx (nt_master s) = [] \<and> ms_udp_tx (nt_master s) = [] \<and>
     list_all (issued_ok limit) es \<and>
     nt_wire s = \<Union> (sent_by ` set es) \<and>
     (\<forall>x \<in> nt_back s. response_ok limit es x) \<and>
     list_all (poll_ok es) (nt_polls s) \<and> pred_option (fits limit) (nt_waiting s) \<and>
     (\<forall>c \<in> answered (ms_watch (nt_master s)). \<exists>u. handled es u \<and> GetUniqueCounter u = c)"

subsection \<open>The handlers on the messages of a run\<close>

lemma serve_one: "serve h 1 mn = Inr mn' \<longleftrightarrow> minion_handle h mn = Inr mn'"
  by (simp add: bindE_eq_Inr_iff)

lemma length_u32: "length d \<le> limit \<Longrightarrow> limit < 2 ^ 31 - 41 \<Longrightarrow> unat (of_nat (length d) :: u32) = length d"
  by (simp add: unat_of_nat)

lemma fits_write:
  assumes "fits limit (Write_req off d)"
  shows "unat off < raid_capacity" and "raid.in_stripe (unat off) (length d)" and "0 < length d"
    and "8 \<le> length d" and "length d \<le> limit"
    and "snd (raid_primary (unat off)) + length d \<le> 8 * MB"
    and "snd (raid_backup (unat off)) + length d \<le> 8 * MB"
proof -
  from assms show s: "raid.in_stripe (unat off) (length d)" and "8 \<le> length d" and "length d \<le> limit" by simp_all
  from \<open>8 \<le> length d\<close> show d: "0 < length d" by linarith
  from in_stripe_off[OF s d] show "unat off < raid_capacity" .
  from placement_addresses[OF s d] show "snd (raid_primary (unat off)) + length d \<le> 8 * MB"
    and "snd (raid_backup (unat off)) + length d \<le> 8 * MB" .
qed

lemma fits_read:
  assumes "fits limit (Read_req off n)"
  shows "unat off < raid_capacity" and "raid.in_stripe (unat off) (unat n)" and "0 < unat n"
    and "unat n \<le> limit" and "snd (raid_primary (unat off)) + unat n \<le> 8 * MB"
proof -
  from assms show s: "raid.in_stripe (unat off) (unat n)" and n: "0 < unat n" and "unat n \<le> limit" by simp_all
  from in_stripe_off[OF s n] show "unat off < raid_capacity" .
  from placement_addresses(1)[OF s n] show "snd (raid_primary (unat off)) + unat n \<le> 8 * MB" .
qed

lemma handle_put:
  assumes mn: "minion_ok mn" and ok: "hosts_ok h hm limit" and l: "limit < 2 ^ 31 - 41"
    and d: "length d \<le> limit" and a: "snd at + length d \<le> 8 * MB"
  shows "minion_handle (hm i) (mn\<lparr>mn_rx := [put_wire at d u]\<rparr>) = Inr (wrote u (snd at) d mn)"
proof -
  have n: "length d = unat (of_nat (length d) :: u32)" using length_u32[OF d l] by simp
  have n1: "unat (of_nat (length d) :: u32) < 2 ^ 31 - 41" using n d l by simp
  have ok1: "hosts_ok h hm (unat (of_nat (length d) :: u32))" using n d by (intro hosts_ok_mono[OF ok]) simp
  have a1: "snd at < 2 ^ 63" using a by (simp add: size_consts)
  from mn have w: "minion_wf mn" and t: "mn_tx mn = []" by (simp_all add: minion_ok_def)
  show ?thesis using serve_write[OF w t n n1 a1 ok1] unfolding serve_one .
qed

lemma handle_get:
  assumes mn: "minion_ok mn" and ok: "hosts_ok h hm limit" and l: "limit < 2 ^ 31 - 41"
    and n: "unat n \<le> limit" and a: "snd at + unat n \<le> 8 * MB"
  shows "minion_handle (hm i) (mn\<lparr>mn_rx := [get_wire at n u]\<rparr>) = Inr (have_read u (snd at) n mn)"
proof -
  from mn have w: "minion_wf mn" and t: "mn_tx mn = []" by (simp_all add: minion_ok_def)
  have n1: "unat n < 2 ^ 31 - 41" using n l by simp
  show ?thesis using serve_read[OF w t n1 a hosts_ok_mono[OF ok n]] unfolding serve_one .
qed

lemma minion_ok_wrote:
  assumes "minion_ok mn" and "a + length d \<le> 8 * MB"
  shows "minion_ok ((wrote u a d mn)\<lparr>mn_tx := []\<rparr>)"
proof -
  from assms have w: "minion_wf mn" by (simp add: minion_ok_def)
  show ?thesis using minion_wf_write[OF w assms(2)] by (simp add: minion_ok_def minion_wf_def wrote_def)
qed

lemma minion_ok_have_read: "minion_ok mn \<Longrightarrow> minion_ok ((have_read u a n mn)\<lparr>mn_tx := []\<rparr>)"
  using minion_wf_read[of mn] by (simp add: minion_ok_def minion_wf_def have_read_def)

lemma store_wrote:
  assumes "minion_ok mn" and "a + length d \<le> 8 * MB"
  shows "bf_data (mn_store ((wrote u a d mn)\<lparr>mn_tx := []\<rparr>)) =
    (\<lambda>x. if a \<le> x \<and> x < a + length d then d ! (x - a) else bf_data (mn_store mn) x)"
proof -
  from assms have w: "minion_wf mn" by (simp add: minion_ok_def)
  show ?thesis
    using minion_wf_store[OF w] assms(2) by (simp add: wrote_def store.wr_cell fun_eq_iff)
qed

lemma store_have_read: "bf_data (mn_store ((have_read u a n mn)\<lparr>mn_tx := []\<rparr>)) = bf_data (mn_store mn)"
  by (simp add: have_read_def)

lemma handle_write_response:
  assumes "time_ok h"
  shows "master_udp_ready h (ms\<lparr>ms_udp_rx := [write_response u]\<rparr>) =
    Inr (ms\<lparr>ms_counter := ms_counter ms + 1, ms_udp_rx := [], ms_watch := RegisterResponse u (ms_watch ms)\<rparr>)"
  using udp_ready_write_response[of "ms\<lparr>ms_udp_rx := [write_response u]\<rparr>" u "[]", OF _ assms] by simp

lemma handle_data_response:
  assumes "time_ok h" and "length d = unat n" and "unat n < 2 ^ 31 - 41"
  shows "master_udp_ready h (ms\<lparr>ms_udp_rx := [data_response u d n]\<rparr>) =
    Inr (ms\<lparr>ms_counter := ms_counter ms + 1, ms_udp_rx := [], ms_watch := RegisterResponse u (ms_watch ms),
      ms_nbd_tx := ms_nbd_tx ms @ d\<rparr>)"
  using udp_ready_read_response[of "ms\<lparr>ms_udp_rx := [data_response u d n]\<rparr>" u d n, OF _ assms(2,3,1)] by simp

subsection \<open>What each step does\<close>

text \<open>The addressee and the content of a datagram on the wire.\<close>

lemma sent_byE:
  assumes "(Raid01_ctor ! i, x) \<in> sent_by e" and "issued_ok limit e" and "i < 3"
  obtains (Put) off d og bk at u where "e = Wrote off d og bk" and "i = fst at" and "x = put_wire at d u"
      and "at = raid_primary (unat off) \<and> u = og \<or> at = raid_backup (unat off) \<and> u = bk"
      and "snd at + length d \<le> 8 * MB" and "length d \<le> limit"
  | (Get) off n u where "e = Asked off n u" and "i = fst (raid_primary (unat off))"
      and "x = get_wire (raid_primary (unat off)) n u"
      and "snd (raid_primary (unat off)) + unat n \<le> 8 * MB" and "unat n \<le> limit"
proof (cases e)
  case (Wrote off d og bk)
  with assms(2) have f: "fits limit (Write_req off d)" by simp
  note node = placement_nodes[OF fits_write(1)[OF f]]
  from assms Wrote have "i = fst (raid_primary (unat off)) \<and> x = put_wire (raid_primary (unat off)) d og \<or>
      i = fst (raid_backup (unat off)) \<and> x = put_wire (raid_backup (unat off)) d bk"
    using proxy_inject[OF assms(3) node(1)] proxy_inject[OF assms(3) node(2)] by auto
  then show thesis
    using Put[OF Wrote, of "raid_primary (unat off)" og] Put[OF Wrote, of "raid_backup (unat off)" bk]
      fits_write(5-7)[OF f] by blast
next
  case (Asked off n u)
  with assms(2) have f: "fits limit (Read_req off n)" by simp
  note node = placement_nodes[OF fits_read(1)[OF f]]
  from assms Asked proxy_inject[OF assms(3) node(1)] fits_read[OF f] show thesis
    by (intro Get[OF Asked]) auto
qed (use assms in auto)

lemma net_invD:
  assumes "net_inv limit es s"
  shows "length (nt_minions s) = 3" and "i < 3 \<Longrightarrow> minion_ok (nt_minions s ! i)"
    and "ms_nbd_rx (nt_master s) = []" and "ms_udp_rx (nt_master s) = []" and "ms_udp_tx (nt_master s) = []"
    and "e \<in> set es \<Longrightarrow> issued_ok limit e"
    and "nt_wire s = \<Union> (sent_by ` set es)"
    and "x \<in> nt_back s \<Longrightarrow> response_ok limit es x"
    and "f \<in> set (nt_polls s) \<Longrightarrow> poll_ok es f"
    and "nt_waiting s = Some r \<Longrightarrow> fits limit r"
    and "c \<in> answered (ms_watch (nt_master s)) \<Longrightarrow> \<exists>u. handled es u \<and> GetUniqueCounter u = c"
  using assms by (auto simp: net_inv_def list_all_iff)

lemma hosts_ok_time: "hosts_ok h hm n \<Longrightarrow> time_ok h"
  by (simp add: hosts_ok_def)

lemma write_issued:
  assumes rx: "ms_nbd_rx ms = []" and tx: "ms_udp_tx ms = []" and f: "fits limit (Write_req off d)"
    and ok: "hosts_ok h hm limit" and l: "limit < 2 ^ 31 - 41"
    and req: "NBDWrite_request h d (of_nat (length d)) off ms = Inr ms1"
      "master_nbd_ready h ms1 = Inr (Some (WriteAIFunc og bk, t), ms2)"
  shows "og = uid_of h (ms_counter ms + 2)" and "bk = uid_of h (ms_counter ms + 3)"
    and "ms2 = ms\<lparr>ms_counter := ms_counter ms + 4,
      ms_watch := (ms_watch ms)(ms_counter ms + 2 \<mapsto> PROCESSING_REQUEST, ms_counter ms + 3 \<mapsto> PROCESSING_REQUEST),
      ms_udp_tx := ms_udp_tx ms2\<rparr>"
    and "set (ms_udp_tx ms2) = sent_by (Wrote off d og bk)"
proof -
  note fd = fits_write[OF f]
  have n: "length d = unat (of_nat (length d) :: u32)" using length_u32[OF fd(5) l] by simp
  have n1: "unat (of_nat (length d) :: u32) < 2 ^ 31 - 41" using n fd(5) l by simp
  have ok1: "hosts_ok h hm (unat (of_nat (length d) :: u32))" using n fd(5) by (intro hosts_ok_mono[OF ok]) simp
  obtain ms1' where "NBDWrite_request h d (of_nat (length d)) off ms = Inr ms1'"
    "master_nbd_ready h ms1' =
      (let c = ms_counter ms + 2
       in Inr (Some (WriteAIFunc (uid_of h c) (uid_of h (c + 1)), 500),
         ms\<lparr>ms_counter := c + 2,
            ms_watch := (ms_watch ms)(c \<mapsto> PROCESSING_REQUEST, c + 1 \<mapsto> PROCESSING_REQUEST),
            ms_udp_tx := ms_udp_tx ms @ write_datagrams h c off (of_nat (length d)) d\<rparr>))"
    using write_event[OF rx fd(1) n n1 ok1] by blast
  with req tx show "og = uid_of h (ms_counter ms + 2)" and "bk = uid_of h (ms_counter ms + 3)"
    and "ms2 = ms\<lparr>ms_counter := ms_counter ms + 4,
      ms_watch := (ms_watch ms)(ms_counter ms + 2 \<mapsto> PROCESSING_REQUEST, ms_counter ms + 3 \<mapsto> PROCESSING_REQUEST),
      ms_udp_tx := ms_udp_tx ms2\<rparr>"
    and "set (ms_udp_tx ms2) = sent_by (Wrote off d og bk)"
    by (auto simp: Let_def write_datagrams_def ac_simps)
qed

lemma read_issued:
  assumes rx: "ms_nbd_rx ms = []" and tx: "ms_udp_tx ms = []" and f: "fits limit (Read_req off n)"
    and ok: "hosts_ok h hm limit"
    and req: "NBDRead_request h n off ms = Inr ms1"
      "master_nbd_ready h ms1 = Inr (Some (ReadAIFunc u, t), ms2)"
  shows "u = uid_of h (ms_counter ms + 2)"
    and "ms2 = ms\<lparr>ms_counter := ms_counter ms + 3,
      ms_watch := (ms_watch ms)(ms_counter ms + 2 \<mapsto> PROCESSING_REQUEST), ms_udp_tx := ms_udp_tx ms2\<rparr>"
    and "set (ms_udp_tx ms2) = sent_by (Asked off n u)"
proof -
  note fd = fits_read[OF f]
  obtain ms1' where "NBDRead_request h n off ms = Inr ms1'"
    "master_nbd_ready h ms1' =
      (let c = ms_counter ms + 2
       in Inr (Some (ReadAIFunc (uid_of h c), 5000),
         ms\<lparr>ms_counter := c + 1, ms_watch := (ms_watch ms)(c \<mapsto> PROCESSING_REQUEST),
            ms_udp_tx := ms_udp_tx ms @ read_datagrams h c off n\<rparr>))"
    using read_event[OF rx fd(1) hosts_ok_mono[OF ok fd(4)]] by blast
  with req tx show "u = uid_of h (ms_counter ms + 2)"
    and "ms2 = ms\<lparr>ms_counter := ms_counter ms + 3,
      ms_watch := (ms_watch ms)(ms_counter ms + 2 \<mapsto> PROCESSING_REQUEST), ms_udp_tx := ms_udp_tx ms2\<rparr>"
    and "set (ms_udp_tx ms2) = sent_by (Asked off n u)"
    by (auto simp: Let_def read_datagrams_def ac_simps)
qed

lemma TCPSocket_Recive_part:
  assumes "rx \<noteq> []" and "size_t_of_int n = length buf"
  shows "TCPSocket_Recive buf n False rx =
    Inr (take (length buf) rx @ drop (length rx) buf, drop (length buf) rx)"
  using assms by (cases "length buf \<le> length rx") (simp_all add: TCPSocket_Recive_def Let_def store_def NegativeCheck_ok)

lemma callback_returns:
  assumes tx: "ms_nbd_tx ms \<noteq> []" and n: "unat n < 2 ^ 31"
  shows "NBDWrite_reply h n ms = Inr (0, ms\<lparr>ms_nbd_tx := drop (unat n) (ms_nbd_tx ms)\<rparr>)"
    and "length buf = unat n \<Longrightarrow> NBDRead_reply buf n ms =
      Inr (take (unat n) (ms_nbd_tx ms) @ drop (length (ms_nbd_tx ms)) buf,
           ms\<lparr>ms_nbd_tx := drop (unat n) (ms_nbd_tx ms)\<rparr>)"
  by (simp_all add: NBDWrite_reply_def NBDRead_reply_def Let_def TCPSocket_Recive_part[OF tx] size_t_sint[OF n])

text \<open>What the transitions come to once their handlers are evaluated.\<close>

definition issue_write :: "host \<Rightarrow> u64 \<Rightarrow> byte list \<Rightarrow> network \<Rightarrow> network" where
  "issue_write h off d s =
     (let c = ms_counter (nt_master s); og = uid_of h (c + 2); bk = uid_of h (c + 3)
      in s\<lparr>nt_master := (nt_master s)\<lparr>ms_counter := c + 4, ms_watch := (ms_watch (nt_master s))
             (c + 2 \<mapsto> PROCESSING_REQUEST, c + 3 \<mapsto> PROCESSING_REQUEST)\<rparr>,
           nt_wire := nt_wire s \<union> sent_by (Wrote off d og bk), nt_polls := WriteAIFunc og bk # nt_polls s,
           nt_waiting := Some (Write_req off d)\<rparr>)"

definition issue_read :: "host \<Rightarrow> u64 \<Rightarrow> u32 \<Rightarrow> network \<Rightarrow> network" where
  "issue_read h off n s =
     (let c = ms_counter (nt_master s); u = uid_of h (c + 2)
      in s\<lparr>nt_master := (nt_master s)\<lparr>ms_counter := c + 3, ms_watch := (ms_watch (nt_master s))
             (c + 2 \<mapsto> PROCESSING_REQUEST)\<rparr>,
           nt_wire := nt_wire s \<union> sent_by (Asked off n u), nt_polls := ReadAIFunc u # nt_polls s,
           nt_waiting := Some (Read_req off n)\<rparr>)"

definition take_put :: "nat \<times> nat \<Rightarrow> byte list \<Rightarrow> uid \<Rightarrow> network \<Rightarrow> network" where
  "take_put at d u s =
     s\<lparr>nt_minions := (nt_minions s)[fst at := (wrote u (snd at) d (nt_minions s ! fst at))\<lparr>mn_tx := []\<rparr>],
       nt_back := insert (write_response u) (nt_back s)\<rparr>"

definition read_run :: "nat \<times> nat \<Rightarrow> nat \<Rightarrow> network \<Rightarrow> byte list" where
  "read_run at n s = map (bf_data (mn_store (nt_minions s ! fst at))) [snd at..<snd at + n]"

definition take_get :: "nat \<times> nat \<Rightarrow> u32 \<Rightarrow> uid \<Rightarrow> network \<Rightarrow> network" where
  "take_get at n u s =
     s\<lparr>nt_minions := (nt_minions s)[fst at := (have_read u (snd at) n (nt_minions s ! fst at))\<lparr>mn_tx := []\<rparr>],
       nt_back := insert (data_response u (read_run at (unat n) s) n) (nt_back s)\<rparr>"

definition take_answer :: "uid \<Rightarrow> byte list \<Rightarrow> network \<Rightarrow> network" where
  "take_answer u d s = s\<lparr>nt_master := (nt_master s)\<lparr>ms_counter := ms_counter (nt_master s) + 1,
     ms_watch := RegisterResponse u (ms_watch (nt_master s)), ms_nbd_tx := ms_nbd_tx (nt_master s) @ d\<rparr>\<rparr>"

definition callback_return :: "byte list \<Rightarrow> network \<Rightarrow> network" where
  "callback_return rest s = s\<lparr>nt_master := (nt_master s)\<lparr>ms_nbd_tx := rest\<rparr>, nt_waiting := None\<rparr>"

text \<open>
  The transitions with their handlers evaluated: in a state of the invariant a step has one
  of these forms.
\<close>

lemma net_stepE [consumes 4, case_names Write Read Put Get Ack Data Poll_write Poll_read Reply Restart]:
  assumes step: "net_step h hm limit s e s'" and inv: "net_inv limit es s"
    and ok: "hosts_ok h hm limit" and l: "limit < 2 ^ 31 - 41"
  obtains (Write) off d c where "e = Wrote off d (uid_of h (c + 2)) (uid_of h (c + 3))"
      and "c = ms_counter (nt_master s)" and "nt_waiting s = None" and "fits limit (Write_req off d)"
      and "s' = issue_write h off d s"
  | (Read) off n c where "e = Asked off n (uid_of h (c + 2))"
      and "c = ms_counter (nt_master s)" and "nt_waiting s = None" and "fits limit (Read_req off n)"
      and "s' = issue_read h off n s"
  | (Put) off d og bk at u where "Wrote off d og bk \<in> set es" and "e = Delivered (fst at) (put_wire at d u)"
      and "at = raid_primary (unat off) \<and> u = og \<or> at = raid_backup (unat off) \<and> u = bk"
      and "fst at < 3" and "snd at + length d \<le> 8 * MB" and "s' = take_put at d u s"
  | (Get) off n u at where "Asked off n u \<in> set es" and "e = Delivered (fst at) (get_wire at n u)"
      and "at = raid_primary (unat off)" and "fst at < 3" and "snd at + unat n \<le> 8 * MB" and "unat n \<le> limit"
      and "s' = take_get at n u s"
  | (Ack) u off d v where "e = Answered (write_response u)" and "write_response u \<in> nt_back s" and "handled es u"
      and "Wrote off d u v \<in> set es \<or> Wrote off d v u \<in> set es"
      and "s' = take_answer u [] s"
  | (Data) u d n off where "e = Answered (data_response u d n)" and "data_response u d n \<in> nt_back s"
      and "handled es u" and "Asked off n u \<in> set es" and "length d = unat n" and "unat n \<le> limit"
      and "s' = take_answer u d s"
  | (Poll_write) og bk off d r ms where "WriteAIFunc og bk \<in> set (nt_polls s)" and "Wrote off d og bk \<in> set es"
      and "write_poll_spec og bk (nt_master s) = (r, ms)"
      and "e = Polled (WriteAIFunc og bk) r (drop (length (ms_nbd_tx (nt_master s))) (ms_nbd_tx ms))"
      and "s' = net_poll (WriteAIFunc og bk) r ms s"
  | (Poll_read) u where "ReadAIFunc u \<in> set (nt_polls s)"
      and "e = Polled (ReadAIFunc u) (GetUniqueCounter u \<in> answered (ms_watch (nt_master s))) []"
      and "s' = net_poll (ReadAIFunc u) (GetUniqueCounter u \<in> answered (ms_watch (nt_master s)))
             ((nt_master s)\<lparr>ms_watch := snd (HasResponseRecived u (ms_watch (nt_master s)))\<rparr>) s"
  | (Reply) r buf rest where "e = Replied buf" and "nt_waiting s = Some r" and "ms_nbd_tx (nt_master s) \<noteq> []"
      and "case r of Write_req off d \<Rightarrow> buf = [] \<and> rest = drop (length d) (ms_nbd_tx (nt_master s))
        | Read_req off n \<Rightarrow> rest = drop (unat n) (ms_nbd_tx (nt_master s)) \<and>
            buf = take (unat n) (ms_nbd_tx (nt_master s)) @
                  drop (length (ms_nbd_tx (nt_master s))) (new_char (h_garbage h 4) (unat n))"
      and "s' = callback_return rest s"
  | (Restart) i fs where "e = Restarted i" and "i < 3" and "files_ok fs"
      and "s' = s\<lparr>nt_minions := (nt_minions s)[i := MasterProxy fs (mp_port (Raid01_ctor ! i))]\<rparr>"
  using step
proof cases
  case (Write off d ms og bk t ms')
  note w = write_issued[OF net_invD(3,5)[OF inv] Write(4) ok l Write(5,6)]
  have "ms'\<lparr>ms_udp_tx := []\<rparr> = (nt_master s)\<lparr>ms_counter := ms_counter (nt_master s) + 4,
      ms_watch := (ms_watch (nt_master s))(ms_counter (nt_master s) + 2 \<mapsto> PROCESSING_REQUEST,
        ms_counter (nt_master s) + 3 \<mapsto> PROCESSING_REQUEST)\<rparr>"
    by (subst w(3)) (simp add: net_invD(5)[OF inv])
  with Write w show thesis by (intro that(1)) (auto simp: net_issue_def issue_write_def Let_def)
next
  case (Read off n ms u t ms')
  note w = read_issued[OF net_invD(3,5)[OF inv] Read(4) ok Read(5,6)]
  have "ms'\<lparr>ms_udp_tx := []\<rparr> = (nt_master s)\<lparr>ms_counter := ms_counter (nt_master s) + 3,
      ms_watch := (ms_watch (nt_master s))(ms_counter (nt_master s) + 2 \<mapsto> PROCESSING_REQUEST)\<rparr>"
    by (subst w(2)) (simp add: net_invD(5)[OF inv])
  with Read w show thesis by (intro that(2)) (auto simp: net_issue_def issue_read_def Let_def)
next
  case (Deliver i x mn)
  note mn = net_invD(2)[OF inv Deliver(3)]
  from Deliver(4) net_invD(7)[OF inv] obtain e' where e': "e' \<in> set es" "(Raid01_ctor ! i, x) \<in> sent_by e'" by auto
  from e'(2) net_invD(6)[OF inv e'(1)] Deliver(3) show thesis
  proof (cases rule: sent_byE)
    case (Put off d og bk at u)
    with handle_put[OF mn ok l Put(6,5), of i u] Deliver have "mn = wrote u (snd at) d (nt_minions s ! fst at)"
      by simp
    with Put Deliver e' show thesis
      by (intro that(3)[of off d og bk at u]) (auto simp: net_serve_def take_put_def wrote_def)
  next
    case (Get off n u)
    with handle_get[OF mn ok l Get(5,4), of i u] Deliver
    have "mn = have_read u (snd (raid_primary (unat off))) n (nt_minions s ! fst (raid_primary (unat off)))"
      by simp
    with Get Deliver e' show thesis
      by (intro that(4)[of off n u "raid_primary (unat off)"]) (auto simp: net_serve_def take_get_def read_run_def have_read_def)
  qed
next
  case (Answer x ms)
  from net_invD(8)[OF inv Answer(3)] obtain u where u: "handled es u" and
    "x = write_response u \<and> (\<exists>off d v. Wrote off d u v \<in> set es \<or> Wrote off d v u \<in> set es) \<or>
     (\<exists>off d n. Asked off n u \<in> set es \<and> x = data_response u d n \<and> length d = unat n \<and> unat n \<le> limit)"
    unfolding response_ok_def by blast
  then consider off d v where "x = write_response u" "Wrote off d u v \<in> set es \<or> Wrote off d v u \<in> set es"
    | d n off where "x = data_response u d n" "length d = unat n" "unat n \<le> limit" "Asked off n u \<in> set es"
    by blast
  then show thesis
  proof cases
    case 1
    with Answer u handle_write_response[OF hosts_ok_time[OF ok], where ms = "nt_master s" and u = u] net_invD(4)[OF inv]
    show thesis by (intro that(5)[of u off d v]) (auto simp: take_answer_def)
  next
    case 2
    then have "unat n < 2 ^ 31 - 41" using l by simp
    with 2 Answer u handle_data_response[OF hosts_ok_time[OF ok] 2(2), where ms = "nt_master s" and u = u] net_invD(4)[OF inv]
    show thesis by (intro that(6)[of u d n off]) (auto simp: take_answer_def)
  qed
next
  case (Poll f r ms)
  show thesis
  proof (cases f)
    case (ReadAIFunc u)
    with Poll show thesis by (intro that(8)[of u]) (auto simp: ai_call_def ReadAIFunc_call_spec)
  next
    case (WriteAIFunc og bk)
    with net_invD(9)[OF inv Poll(3)] obtain off d where w: "Wrote off d og bk \<in> set es" by (auto simp: poll_ok_def)
    with net_invD(6)[OF inv] have "GetUniqueCounter og \<noteq> GetUniqueCounter bk" by force
    with Poll WriteAIFunc w show thesis
      by (intro that(7)[of og bk off d r ms]) (auto simp: ai_call_def WriteAIFunc_call_spec)
  qed
next
  case (Reply_write off d r ms)
  note f = fits_write(5)[OF net_invD(10)[OF inv Reply_write(3)]]
  have n: "unat (of_nat (length d) :: u32) = length d" by (rule length_u32[OF f l])
  with callback_returns(1)[OF Reply_write(4), of "of_nat (length d)" h] f l Reply_write
  show thesis by (intro that(9)) (auto simp: net_reply_def callback_return_def)
next
  case (Reply_read off n buf ms)
  have "unat n < 2 ^ 31" using fits_read(4)[OF net_invD(10)[OF inv Reply_read(3)]] l by simp
  with callback_returns(2)[OF Reply_read(4) this, of "new_char (h_garbage h 4) (unat n)"] Reply_read
  show thesis by (intro that(9)) (auto simp: net_reply_def callback_return_def)
next
  case (Restart i fs)
  show thesis by (rule that(10)[OF Restart(1,3,4,2)])
qed

subsection \<open>Every step that may happen succeeds\<close>

lemma step_write:
  assumes inv: "net_inv limit es s" and ok: "hosts_ok h hm limit" and l: "limit < 2 ^ 31 - 41"
    and w: "nt_waiting s = None" and f: "fits limit (Write_req off d)"
  shows "net_step h hm limit s (Wrote off d (uid_of h (ms_counter (nt_master s) + 2))
    (uid_of h (ms_counter (nt_master s) + 3))) (issue_write h off d s)"
proof -
  note fd = fits_write[OF f]
  have n: "length d = unat (of_nat (length d) :: u32)" using length_u32[OF fd(5) l] by simp
  have n1: "unat (of_nat (length d) :: u32) < 2 ^ 31 - 41" using n fd(5) l by simp
  have ok1: "hosts_ok h hm (unat (of_nat (length d) :: u32))" using n fd(5) by (intro hosts_ok_mono[OF ok]) simp
  obtain ms1 t ms2 where r: "NBDWrite_request h d (of_nat (length d)) off (nt_master s) = Inr ms1"
    "master_nbd_ready h ms1 = Inr (Some (WriteAIFunc (uid_of h (ms_counter (nt_master s) + 2))
       (uid_of h (ms_counter (nt_master s) + 2 + 1)), t), ms2)"
    using write_event[OF net_invD(3)[OF inv] fd(1) n n1 ok1] by (metis (no_types, lifting))
  note step = Write[OF w f r]
  from step inv ok l show ?thesis by (cases rule: net_stepE) (use step in \<open>auto simp: add.assoc\<close>)
qed

lemma step_read:
  assumes inv: "net_inv limit es s" and ok: "hosts_ok h hm limit" and l: "limit < 2 ^ 31 - 41"
    and w: "nt_waiting s = None" and f: "fits limit (Read_req off n)"
  shows "net_step h hm limit s (Asked off n (uid_of h (ms_counter (nt_master s) + 2))) (issue_read h off n s)"
proof -
  note fd = fits_read[OF f]
  obtain ms1 t ms2 where r: "NBDRead_request h n off (nt_master s) = Inr ms1"
    "master_nbd_ready h ms1 = Inr (Some (ReadAIFunc (uid_of h (ms_counter (nt_master s) + 2)), t), ms2)"
    using read_event[OF net_invD(3)[OF inv] fd(1) hosts_ok_mono[OF ok fd(4)]] by (metis (no_types, lifting))
  note step = Read[OF w f r]
  from step inv ok l show ?thesis by (cases rule: net_stepE) (use step in auto)
qed

lemma deliver_succeeds:
  assumes inv: "net_inv limit es s" and ok: "hosts_ok h hm limit" and l: "limit < 2 ^ 31 - 41"
    and i: "i < 3" and x: "(Raid01_ctor ! i, x) \<in> nt_wire s"
  shows "\<exists>mn. minion_handle (hm i) ((nt_minions s ! i)\<lparr>mn_rx := [x]\<rparr>) = Inr mn"
proof -
  from x net_invD(7)[OF inv] obtain e where e: "e \<in> set es" "(Raid01_ctor ! i, x) \<in> sent_by e" by auto
  from e(2) net_invD(6)[OF inv e(1)] i show ?thesis
    by (cases rule: sent_byE)
       (use handle_put[OF net_invD(2)[OF inv i] ok l] handle_get[OF net_invD(2)[OF inv i] ok l] in blast)+
qed

lemma answer_succeeds:
  assumes inv: "net_inv limit es s" and ok: "hosts_ok h hm limit" and l: "limit < 2 ^ 31 - 41"
    and x: "x \<in> nt_back s"
  shows "\<exists>ms. master_udp_ready h ((nt_master s)\<lparr>ms_udp_rx := [x]\<rparr>) = Inr ms"
proof -
  from net_invD(8)[OF inv x] obtain u where
    "x = write_response u \<or> (\<exists>d n. x = data_response u d n \<and> length d = unat n \<and> unat n \<le> limit)"
    unfolding response_ok_def by blast
  then consider "x = write_response u" | d n where "x = data_response u d n" "length d = unat n" "unat n \<le> limit"
    by blast
  then show ?thesis
  proof cases
    case 1
    then show ?thesis using handle_write_response[OF hosts_ok_time[OF ok]] by blast
  next
    case 2
    then have "unat n < 2 ^ 31 - 41" using l by simp
    with 2 show ?thesis using handle_data_response[OF hosts_ok_time[OF ok] 2(2)] by blast
  qed
qed

lemma poll_succeeds:
  assumes inv: "net_inv limit es s" and f: "f \<in> set (nt_polls s)"
  shows "\<exists>r ms. ai_call f (nt_master s) = Inr (r, ms)"
proof (cases f)
  case (ReadAIFunc u)
  then show ?thesis by (simp add: ai_call_def ReadAIFunc_call_spec)
next
  case (WriteAIFunc og bk)
  with net_invD(9)[OF inv f] obtain off d where "Wrote off d og bk \<in> set es" by (auto simp: poll_ok_def)
  with net_invD(6)[OF inv] have "GetUniqueCounter og \<noteq> GetUniqueCounter bk" by force
  then have "ai_call f (nt_master s) = Inr (fst (write_poll_spec og bk (nt_master s)), snd (write_poll_spec og bk (nt_master s)))"
    by (simp add: ai_call_def WriteAIFunc_call_spec WriteAIFunc)
  then show ?thesis by blast
qed

lemma step_put:
  assumes inv: "net_inv limit es s" and ok: "hosts_ok h hm limit" and l: "limit < 2 ^ 31 - 41"
    and w: "Wrote off d og bk \<in> set es"
    and at: "at = raid_primary (unat off) \<and> u = og \<or> at = raid_backup (unat off) \<and> u = bk"
  shows "net_step h hm limit s (Delivered (fst at) (put_wire at d u)) (take_put at d u s)"
proof -
  have f: "fits limit (Write_req off d)" using net_invD(6)[OF inv w] by simp
  note fd = fits_write[OF f]
  have i: "fst at < 3" and a: "snd at + length d \<le> 8 * MB"
    using at placement_nodes[OF fd(1)] fd(6,7) by auto
  have x: "(Raid01_ctor ! fst at, put_wire at d u) \<in> nt_wire s"
    using w at net_invD(7)[OF inv] by (force intro: rev_bexI)
  have "net_serve (fst at) (wrote u (snd at) d (nt_minions s ! fst at)) s = take_put at d u s"
    by (simp add: net_serve_def take_put_def wrote_def)
  with Deliver[of "fst at" _ s hm, OF i x handle_put[OF net_invD(2)[OF inv i] ok l fd(5) a]] show ?thesis by simp
qed

lemma step_get:
  assumes inv: "net_inv limit es s" and ok: "hosts_ok h hm limit" and l: "limit < 2 ^ 31 - 41"
    and w: "Asked off n u \<in> set es" and at: "at = raid_primary (unat off)"
  shows "net_step h hm limit s (Delivered (fst at) (get_wire at n u)) (take_get at n u s)"
proof -
  have f: "fits limit (Read_req off n)" using net_invD(6)[OF inv w] by simp
  note fd = fits_read[OF f]
  have i: "fst at < 3" and a: "snd at + unat n \<le> 8 * MB"
    using at placement_nodes[OF fd(1)] fd(5) by auto
  have x: "(Raid01_ctor ! fst at, get_wire at n u) \<in> nt_wire s"
    using w at net_invD(7)[OF inv] by (force intro: rev_bexI)
  have "net_serve (fst at) (have_read u (snd at) n (nt_minions s ! fst at)) s = take_get at n u s"
    by (simp add: net_serve_def take_get_def read_run_def have_read_def)
  with Deliver[of "fst at" _ s hm, OF i x handle_get[OF net_invD(2)[OF inv i] ok l fd(4) a]] show ?thesis by simp
qed

lemma step_ack:
  assumes inv: "net_inv limit es s" and ok: "hosts_ok h hm limit" and x: "write_response u \<in> nt_back s"
  shows "net_step h hm limit s (Answered (write_response u)) (take_answer u [] s)"
proof -
  have "(nt_master s)\<lparr>ms_counter := ms_counter (nt_master s) + 1, ms_udp_rx := [],
      ms_watch := RegisterResponse u (ms_watch (nt_master s))\<rparr> = nt_master (take_answer u [] s)"
    by (rule master.equality) (simp_all add: take_answer_def net_invD(4)[OF inv])
  then show ?thesis
    using Answer[OF x handle_write_response[OF hosts_ok_time[OF ok]], of hm limit] by (simp add: take_answer_def)
qed

lemma step_data:
  assumes inv: "net_inv limit es s" and ok: "hosts_ok h hm limit" and l: "limit < 2 ^ 31 - 41"
    and x: "data_response u d n \<in> nt_back s" and n: "length d = unat n" "unat n \<le> limit"
  shows "net_step h hm limit s (Answered (data_response u d n)) (take_answer u d s)"
proof -
  have "unat n < 2 ^ 31 - 41" using n l by simp
  note handled = handle_data_response[OF hosts_ok_time[OF ok] n(1) this]
  have "(nt_master s)\<lparr>ms_counter := ms_counter (nt_master s) + 1, ms_udp_rx := [],
      ms_watch := RegisterResponse u (ms_watch (nt_master s)), ms_nbd_tx := ms_nbd_tx (nt_master s) @ d\<rparr> =
    nt_master (take_answer u d s)"
    by (rule master.equality) (simp_all add: take_answer_def net_invD(4)[OF inv])
  then show ?thesis using Answer[OF x handled, of hm limit] by (simp add: take_answer_def)
qed

subsection \<open>Every run keeps the invariant\<close>

lemma handled_mono: "handled es u \<Longrightarrow> set es \<subseteq> set es' \<Longrightarrow> handled es' u"
  unfolding handled_def by blast

lemma response_ok_mono: "response_ok limit es x \<Longrightarrow> set es \<subseteq> set es' \<Longrightarrow> response_ok limit es' x"
  unfolding response_ok_def using handled_mono by blast

lemma poll_ok_mono: "poll_ok es f \<Longrightarrow> set es \<subseteq> set es' \<Longrightarrow> poll_ok es' f"
  by (auto simp: poll_ok_def split: ai_func.splits)

text \<open>An event that sends nothing is recorded; the state has not changed yet.\<close>

lemma net_inv_record:
  assumes "net_inv limit es s" and "sent_by e = {}" and "issued_ok limit e"
  shows "net_inv limit (es @ [e]) s"
proof -
  have sub: "set es \<subseteq> set (es @ [e])" by auto
  have "list_all (poll_ok (es @ [e])) (nt_polls s)"
    using net_invD(9)[OF assms(1)] poll_ok_mono[OF _ sub] by (auto simp: list_all_iff)
  moreover have "\<forall>x \<in> nt_back s. response_ok limit (es @ [e]) x"
    using net_invD(8)[OF assms(1)] response_ok_mono[OF _ sub] by blast
  moreover have "\<forall>c \<in> answered (ms_watch (nt_master s)). \<exists>u. handled (es @ [e]) u \<and> GetUniqueCounter u = c"
    using net_invD(11)[OF assms(1)] handled_mono[OF _ sub] by blast
  ultimately show ?thesis using assms by (simp add: net_inv_def)
qed

lemma net_inv_issue:
  assumes inv: "net_inv limit es s" and e: "issued_ok limit e" "fits limit r" "poll_ok (es @ [e]) f"
    and w: "answered w \<subseteq> answered (ms_watch (nt_master s))"
  shows "net_inv limit (es @ [e]) (s\<lparr>nt_master := (nt_master s)\<lparr>ms_counter := c, ms_watch := w\<rparr>,
    nt_wire := nt_wire s \<union> sent_by e, nt_polls := f # nt_polls s, nt_waiting := Some r\<rparr>)"
proof -
  have sub: "set es \<subseteq> set (es @ [e])" by auto
  have "list_all (poll_ok (es @ [e])) (nt_polls s)"
    using net_invD(9)[OF inv] poll_ok_mono[OF _ sub] by (auto simp: list_all_iff)
  moreover have "\<forall>x \<in> nt_back s. response_ok limit (es @ [e]) x"
    using net_invD(8)[OF inv] response_ok_mono[OF _ sub] by blast
  moreover have "\<forall>c \<in> answered w. \<exists>u. handled (es @ [e]) u \<and> GetUniqueCounter u = c"
    using net_invD(11)[OF inv] handled_mono[OF _ sub] w by blast
  ultimately show ?thesis using inv e by (simp add: net_inv_def Un_commute)
qed

lemma net_inv_serve:
  assumes inv: "net_inv limit es s" and mn: "minion_ok mn" and x: "response_ok limit es x"
  shows "net_inv limit es (s\<lparr>nt_minions := (nt_minions s)[i := mn], nt_back := insert x (nt_back s)\<rparr>)"
  using assms by (auto simp: net_inv_def list_all_iff dest: set_update_subset_insert[THEN subsetD])

lemma net_inv_master:
  assumes "net_inv limit es s" and "ms_nbd_rx ms = []" and "ms_udp_rx ms = []" and "ms_udp_tx ms = []"
    and "\<And>c. c \<in> answered (ms_watch ms) \<Longrightarrow>
      c \<in> answered (ms_watch (nt_master s)) \<or> (\<exists>u. handled es u \<and> GetUniqueCounter u = c)"
    and "set fs \<subseteq> set (nt_polls s)" and "w = None \<or> w = nt_waiting s"
  shows "net_inv limit es (s\<lparr>nt_master := ms, nt_polls := fs, nt_waiting := w\<rparr>)"
proof -
  have "\<forall>c \<in> answered (ms_watch ms). \<exists>u. handled es u \<and> GetUniqueCounter u = c"
    using assms(5) net_invD(11)[OF assms(1)] by blast
  with assms(1-4,6,7) show ?thesis by (auto simp: net_inv_def list_all_iff)
qed

lemma answered_watch [simp]:
  "answered (w(c \<mapsto> PROCESSING_REQUEST)) = answered w - {c}"
  by (auto simp: answered_def)

lemma poll_frame:
  assumes "write_poll_spec og bk ms = (r, ms')"
  shows "ms_nbd_rx ms' = ms_nbd_rx ms" and "ms_udp_rx ms' = ms_udp_rx ms" and "ms_udp_tx ms' = ms_udp_tx ms"
    and "ms_counter ms' = ms_counter ms"
    and "answered (ms_watch ms') = answered (ms_watch ms) - {GetUniqueCounter og, GetUniqueCounter bk}"
proof -
  have "ms' = snd (write_poll_spec og bk ms)" by (simp add: assms)
  then show "ms_nbd_rx ms' = ms_nbd_rx ms" and "ms_udp_rx ms' = ms_udp_rx ms" and "ms_udp_tx ms' = ms_udp_tx ms"
    and "ms_counter ms' = ms_counter ms"
    and "answered (ms_watch ms') = answered (ms_watch ms) - {GetUniqueCounter og, GetUniqueCounter bk}"
    by (simp_all only: answered_after_poll) (simp_all add: write_poll_spec_def Let_def)
qed

lemma net_inv_start: "files_ok fs \<Longrightarrow> net_inv limit [] (net_start fs)"
  using idle_start[of fs]
  by (simp add: net_inv_def net_start_def idle_def files_ok_def list_all_iff minion_ok_def)
     (simp add: start_def master_init_def answered_def)

lemma net_inv_step:
  assumes step: "net_step h hm limit s e s'" and inv: "net_inv limit es s"
    and ok: "hosts_ok h hm limit" and l: "limit < 2 ^ 31 - 41"
  shows "net_inv limit (es @ [e]) s'"
  using step inv ok l
proof (cases rule: net_stepE)
  case (Write off d c)
  then show ?thesis
    unfolding Write(5) issue_write_def Let_def Write(1,2) by (intro net_inv_issue[OF inv]) (auto simp: poll_ok_def)
next
  case (Read off n c)
  then show ?thesis
    unfolding Read(5) issue_read_def Let_def Read(1,2) by (intro net_inv_issue[OF inv]) (auto simp: poll_ok_def)
next
  case (Put off d og bk at u)
  have "handled (es @ [e]) u" using Put by (auto simp: handled_def)
  then have "response_ok limit (es @ [e]) (write_response u)" using Put(1,3) by (auto simp: response_ok_def)
  moreover have "net_inv limit (es @ [e]) s" by (rule net_inv_record[OF inv]) (simp_all add: Put(2))
  ultimately show ?thesis
    unfolding Put(6) take_put_def by (intro net_inv_serve minion_ok_wrote net_invD(2)[OF inv] Put)
next
  case (Get off n u at)
  have "handled (es @ [e]) u" using Get by (auto simp: handled_def)
  then have "response_ok limit (es @ [e]) (data_response u (read_run at (unat n) s) n)"
    using Get(1,6) by (force simp: response_ok_def read_run_def)
  moreover have "net_inv limit (es @ [e]) s" by (rule net_inv_record[OF inv]) (simp_all add: Get(2))
  ultimately show ?thesis
    unfolding Get(7) take_get_def by (intro net_inv_serve minion_ok_have_read net_invD(2)[OF inv] Get)
next
  case (Ack u off d v)
  have i: "net_inv limit (es @ [e]) s" by (rule net_inv_record[OF inv]) (simp_all add: Ack(1))
  have "handled (es @ [e]) u" by (rule handled_mono[OF Ack(3)]) auto
  with net_inv_master[OF i, of "nt_master s'" "nt_polls s" "nt_waiting s"] net_invD(3-5)[OF inv]
  show ?thesis by (auto simp: Ack(5) take_answer_def rm.view_respond)
next
  case (Data u d n off)
  have i: "net_inv limit (es @ [e]) s" by (rule net_inv_record[OF inv]) (simp_all add: Data(1))
  have "handled (es @ [e]) u" by (rule handled_mono[OF Data(3)]) auto
  with net_inv_master[OF i, of "nt_master s'" "nt_polls s" "nt_waiting s"] net_invD(3-5)[OF inv]
  show ?thesis by (auto simp: Data(7) take_answer_def rm.view_respond)
next
  case (Poll_write og bk off d r ms)
  have i: "net_inv limit (es @ [e]) s" by (rule net_inv_record[OF inv]) (simp_all add: Poll_write(4))
  have "set (nt_polls s') \<subseteq> set (nt_polls s)"
    using set_remove1_subset[of "WriteAIFunc og bk" "nt_polls s"] by (simp add: Poll_write(5) net_poll_def)
  with net_inv_master[OF i, of "nt_master s'" "nt_polls s'" "nt_waiting s"] net_invD(3-5)[OF inv]
    poll_frame[OF Poll_write(3)]
  show ?thesis by (auto simp: Poll_write(5) net_poll_def)
next
  case (Poll_read u)
  have i: "net_inv limit (es @ [e]) s" by (rule net_inv_record[OF inv]) (simp_all add: Poll_read(2))
  have "set (nt_polls s') \<subseteq> set (nt_polls s)"
    using set_remove1_subset[of "ReadAIFunc u" "nt_polls s"] by (simp add: Poll_read(3) net_poll_def)
  with net_inv_master[OF i, of "nt_master s'" "nt_polls s'" "nt_waiting s"] net_invD(3-5)[OF inv]
  show ?thesis by (auto simp: Poll_read(3) net_poll_def rm.view_ask)
next
  case (Reply r buf rest)
  have i: "net_inv limit (es @ [e]) s" by (rule net_inv_record[OF inv]) (simp_all add: Reply(1))
  from net_inv_master[OF i, of "nt_master s'" "nt_polls s" None] net_invD(3-5)[OF inv]
  show ?thesis by (auto simp: Reply(5) callback_return_def)
next
  case (Restart i fs)
  have "net_inv limit (es @ [e]) s" by (rule net_inv_record[OF inv]) (simp_all add: Restart(1))
  moreover have "minion_ok (MasterProxy fs (mp_port (Raid01_ctor ! i)))"
    using minion_wf_MasterProxy[of fs "mp_port (Raid01_ctor ! i)"] Restart(3)
    by (simp add: files_ok_def minion_ok_def) (simp add: MasterProxy_def)
  ultimately show ?thesis
    unfolding Restart(4) by (auto simp: net_inv_def list_all_iff dest: set_update_subset_insert[THEN subsetD])
qed

lemma net_inv_run:
  assumes "net_run h hm limit es s" and "hosts_ok h hm limit" and "limit < 2 ^ 31 - 41"
  shows "net_inv limit es s"
  using assms(1) by induction (auto intro: net_inv_start net_inv_step assms(2,3))

subsection \<open>Identifiers are not reused\<close>

definition ids_ok :: "event list \<Rightarrow> network \<Rightarrow> bool" where
  "ids_ok es s \<longleftrightarrow> distinct (concat (map ids es)) \<and>
     (\<forall>c \<in> set (concat (map ids es)). unat c < unat (ms_counter (nt_master s))) \<and>
     unat (ms_counter (nt_master s)) \<le> 1 + 4 * length es"

lemma unat_counter:
  assumes "unat (c :: u32) + 4 < 2 ^ 32"
  shows "unat (c + 1) = unat c + 1" and "unat (c + 2) = unat c + 2" and "unat (c + 3) = unat c + 3"
    and "unat (c + 4) = unat c + 4"
  using assms by (simp_all add: unat_word_ariths)

lemma ids_ok_step:
  assumes step: "net_step h hm limit s e s'" and inv: "net_inv limit es s" and ids: "ids_ok es s"
    and ok: "hosts_ok h hm limit" and l: "limit < 2 ^ 31 - 41" and b: "5 + 4 * length es < 2 ^ 32"
  shows "ids_ok (es @ [e]) s'"
proof -
  from ids b have "unat (ms_counter (nt_master s)) + 4 < 2 ^ 32" by (simp add: ids_ok_def)
  note u = unat_counter[OF this]
  from step inv ok l show ?thesis
  proof (cases rule: net_stepE)
    case (Write off d c)
    with ids u show ?thesis by (fastforce simp: ids_ok_def issue_write_def issue_read_def Let_def)
  next
    case (Read off n c)
    with ids u show ?thesis by (fastforce simp: ids_ok_def issue_write_def issue_read_def Let_def)
  next
    case (Poll_write og bk off d r ms)
    with ids poll_frame(4)[OF Poll_write(3)] show ?thesis by (simp add: ids_ok_def net_poll_def)
  qed (use ids u in \<open>fastforce simp: ids_ok_def net_poll_def take_put_def take_get_def take_answer_def callback_return_def\<close>)+
qed

lemma ids_ok_run:
  assumes "net_run h hm limit es s" and "hosts_ok h hm limit" and "limit < 2 ^ 31 - 41"
  shows "1 + 4 * length es < 2 ^ 32 \<Longrightarrow> ids_ok es s"
  using assms(1)
proof induction
  case (Start fs)
  show ?case by (simp add: ids_ok_def net_start_def start_def master_init_def m_static_counter_init_def)
next
  case (Step es s e s')
  then show ?case
    using ids_ok_step[OF Step(2) net_inv_run[OF Step(1) assms(2,3)] _ assms(2,3)] by simp
qed

lemma concat_map_unique:
  assumes "distinct (concat (map f xs))" and "x \<in> set xs" and "y \<in> set xs" and "c \<in> set (f x)" and "c \<in> set (f y)"
  shows "x = y"
  using assms by (induction xs) (auto simp: image_iff)

text \<open>The event that drew an identifier is determined by it.\<close>

lemma ids_unique:
  assumes "ids_ok es s" and "e \<in> set es" and "e' \<in> set es" and "c \<in> set (ids e)" and "c \<in> set (ids e')"
  shows "e = e'"
  using assms concat_map_unique[of ids es e e' c] by (simp add: ids_ok_def)

subsection \<open>Successes are true\<close>

lemma handledE:
  assumes "handled es u"
  obtains (Original) off d bk where "Wrote off d u bk \<in> set es"
      and "Delivered (fst (raid_primary (unat off))) (put_wire (raid_primary (unat off)) d u) \<in> set es"
  | (Backup) off d og where "Wrote off d og u \<in> set es"
      and "Delivered (fst (raid_backup (unat off))) (put_wire (raid_backup (unat off)) d u) \<in> set es"
  | (Query) off n where "Asked off n u \<in> set es"
      and "Delivered (fst (raid_primary (unat off))) (get_wire (raid_primary (unat off)) n u) \<in> set es"
  using assms unfolding handled_def by blast

lemma handled_write:
  assumes ids: "ids_ok es s" and inv: "net_inv limit es s" and w: "Wrote off d og bk \<in> set es" and u: "handled es u"
  shows "GetUniqueCounter u = GetUniqueCounter og \<Longrightarrow>
      Delivered (fst (raid_primary (unat off))) (put_wire (raid_primary (unat off)) d og) \<in> set es"
    and "GetUniqueCounter u = GetUniqueCounter bk \<Longrightarrow>
      Delivered (fst (raid_backup (unat off))) (put_wire (raid_backup (unat off)) d bk) \<in> set es"
proof -
  have ne: "GetUniqueCounter og \<noteq> GetUniqueCounter bk" using net_invD(6)[OF inv w] by simp
  have same: "e = Wrote off d og bk"
    if "e \<in> set es" "GetUniqueCounter u \<in> set (ids e)" "GetUniqueCounter u \<in> {GetUniqueCounter og, GetUniqueCounter bk}" for e
    by (rule ids_unique[OF ids that(1) w that(2)]) (use that(3) in auto)
  from u have "(GetUniqueCounter u = GetUniqueCounter og \<longrightarrow>
      Delivered (fst (raid_primary (unat off))) (put_wire (raid_primary (unat off)) d og) \<in> set es) \<and>
    (GetUniqueCounter u = GetUniqueCounter bk \<longrightarrow>
      Delivered (fst (raid_backup (unat off))) (put_wire (raid_backup (unat off)) d bk) \<in> set es)"
  proof (cases rule: handledE)
    case (Original off' d' bk')
    with same[OF Original(1)] ne show ?thesis by auto
  next
    case (Backup off' d' og')
    with same[OF Backup(1)] ne show ?thesis by auto
  next
    case (Query off' n)
    with same[OF Query(1)] show ?thesis by auto
  qed
  then show "GetUniqueCounter u = GetUniqueCounter og \<Longrightarrow>
      Delivered (fst (raid_primary (unat off))) (put_wire (raid_primary (unat off)) d og) \<in> set es"
    and "GetUniqueCounter u = GetUniqueCounter bk \<Longrightarrow>
      Delivered (fst (raid_backup (unat off))) (put_wire (raid_backup (unat off)) d bk) \<in> set es" by auto
qed

lemma success_text:
  assumes "write_poll_spec og bk ms = (r, ms')"
    and "drop (length (ms_nbd_tx ms)) (ms_nbd_tx ms') = c_str ''Success''"
  shows "GetUniqueCounter og \<in> answered (ms_watch ms)" and "GetUniqueCounter bk \<in> answered (ms_watch ms)"
proof -
  have "give_up_text oc \<noteq> c_str ''Success''" for oc by (simp add: give_up_text_def c_str_def)
  moreover have "c_str ''Success'' \<noteq> []" by (simp add: c_str_def)
  ultimately have "GetUniqueCounter og \<in> answered (ms_watch ms) \<and> GetUniqueCounter bk \<in> answered (ms_watch ms)"
    using assms by (auto simp: write_poll_spec_def Let_def split: if_splits)
  then show "GetUniqueCounter og \<in> answered (ms_watch ms)" and "GetUniqueCounter bk \<in> answered (ms_watch ms)" by auto
qed

subsection \<open>Where bytes come from\<close>

text \<open>
  A byte in a cell of a minion is zero, or the byte that some write of the run has for the
  offset whose primary or backup copy the cell is.
\<close>

definition origin :: "event list \<Rightarrow> nat \<times> nat \<Rightarrow> byte \<Rightarrow> bool" where
  "origin es cell b \<longleftrightarrow> b = 0 \<or>
     (\<exists>off d og bk k. Wrote off d og bk \<in> set es \<and> k < length d \<and> b = d ! k \<and>
        cell \<in> {raid_primary (unat off + k), raid_backup (unat off + k)})"

definition stores_ok :: "event list \<Rightarrow> network \<Rightarrow> bool" where
  "stores_ok es s \<longleftrightarrow> (\<forall>i < 3. \<forall>a < 8 * MB. origin es (i, a) (bf_data (mn_store (nt_minions s ! i)) a))"

definition data_ok :: "event list \<Rightarrow> datagram \<Rightarrow> bool" where
  "data_ok es x \<longleftrightarrow> (\<exists>u. x = write_response u) \<or>
     (\<exists>off n u d. Asked off n u \<in> set es \<and> x = data_response u d n \<and> length d = unat n \<and>
        (\<forall>k < unat n. origin es (raid_primary (unat off + k)) (d ! k)))"

lemma origin_mono: "origin es c b \<Longrightarrow> origin (es @ [e]) c b"
  unfolding origin_def by auto

lemma stores_ok_mono: "stores_ok es s \<Longrightarrow> stores_ok (es @ [e]) s"
  unfolding stores_ok_def using origin_mono by blast

lemma data_ok_mono: "data_ok es x \<Longrightarrow> data_ok (es @ [e]) x"
  unfolding data_ok_def using origin_mono by (metis Un_iff set_append)

lemma stores_ok_update:
  assumes "stores_ok es s" and "length (nt_minions s) = 3"
    and "\<And>a. a < 8 * MB \<Longrightarrow> origin es (i, a) (bf_data (mn_store mn) a)"
  shows "stores_ok es (s\<lparr>nt_minions := (nt_minions s)[i := mn], nt_back := b\<rparr>)"
proof -
  have "origin es (j, a) (bf_data (mn_store ((nt_minions s)[i := mn] ! j)) a)" if "j < 3" "a < 8 * MB" for j a
    using assms that by (cases "i = j") (simp_all add: stores_ok_def)
  then show ?thesis by (simp add: stores_ok_def)
qed

lemma stores_ok_put:
  assumes st: "stores_ok es s" and inv: "net_inv limit es s" and w: "Wrote off d og bk \<in> set es"
    and at: "at = raid_primary (unat off) \<and> u = og \<or> at = raid_backup (unat off) \<and> u = bk"
    and i: "fst at < 3" and a: "snd at + length d \<le> 8 * MB"
  shows "stores_ok es (take_put at d u s)"
  unfolding take_put_def
proof (rule stores_ok_update[OF st net_invD(1)[OF inv]])
  fix x assume x: "x < 8 * MB"
  have f: "fits limit (Write_req off d)" using net_invD(6)[OF inv w] by simp
  have cell: "(fst at, snd at + k) \<in> {raid_primary (unat off + k), raid_backup (unat off + k)}" if "k < length d" for k
    using at raid.run_placements(1,2)[OF fits_write(2)[OF f] that] by auto
  have old: "origin es (fst at, x) (bf_data (mn_store (nt_minions s ! fst at)) x)"
    using st i x by (simp add: stores_ok_def)
  have new: "origin es (fst at, x) (d ! (x - snd at))" if "snd at \<le> x" "x < snd at + length d"
  proof -
    have k: "x - snd at < length d" "snd at + (x - snd at) = x" using that by simp_all
    show ?thesis unfolding origin_def using w k cell[OF k(1)] by metis
  qed
  show "origin es (fst at, x) (bf_data (mn_store ((wrote u (snd at) d (nt_minions s ! fst at))\<lparr>mn_tx := []\<rparr>)) x)"
    using store_wrote[OF net_invD(2)[OF inv i] a, of u] old new by simp
qed

lemma data_ok_get:
  assumes st: "stores_ok es s" and inv: "net_inv limit es s" and w: "Asked off n u \<in> set es"
    and at: "at = raid_primary (unat off)"
  shows "data_ok es (data_response u (read_run at (unat n) s) n)"
proof -
  have f: "fits limit (Read_req off n)" using net_invD(6)[OF inv w] by simp
  have i: "fst at < 3" and a: "snd at + unat n \<le> 8 * MB"
    using at placement_nodes(1)[OF fits_read(1)[OF f]] fits_read(5)[OF f] by auto
  have "origin es (raid_primary (unat off + k)) (read_run at (unat n) s ! k)" if "k < unat n" for k
    using raid.run_placements(1)[OF fits_read(2)[OF f] that] st i a at that
    by (simp add: read_run_def stores_ok_def)
  moreover have "length (read_run at (unat n) s) = unat n" by (simp add: read_run_def)
  ultimately show ?thesis unfolding data_ok_def using w by blast
qed

lemma provenance_step:
  assumes step: "net_step h hm limit s e s'" and inv: "net_inv limit es s"
    and ok: "hosts_ok h hm limit" and l: "limit < 2 ^ 31 - 41"
    and st: "stores_ok es s" and dt: "\<forall>x \<in> nt_back s. data_ok es x"
  shows "stores_ok (es @ [e]) s' \<and> (\<forall>x \<in> nt_back s'. data_ok (es @ [e]) x)"
proof -
  have "stores_ok es s' \<and> (\<forall>x \<in> nt_back s'. data_ok es x)"
    using step inv ok l
  proof (cases rule: net_stepE)
    case (Put off d og bk at u)
    from stores_ok_put[OF st inv Put(1,3,4,5)] dt show ?thesis
      unfolding Put(6) by (auto simp: take_put_def data_ok_def)
  next
    case (Get off n u at)
    have "stores_ok es (take_get at n u s)"
      unfolding take_get_def
      by (rule stores_ok_update[OF st net_invD(1)[OF inv]])
         (use st Get(4) in \<open>simp add: have_read_def stores_ok_def\<close>)
    with data_ok_get[OF st inv Get(1,3)] dt show ?thesis unfolding Get(7) by (simp add: take_get_def)
  next
    case (Restart i fs)
    have "stores_ok es (s\<lparr>nt_minions := (nt_minions s)[i := MasterProxy fs (mp_port (Raid01_ctor ! i))], nt_back := nt_back s\<rparr>)"
      by (rule stores_ok_update[OF st net_invD(1)[OF inv]])
         (use start_store_zero[of fs] Restart(3) in \<open>simp add: origin_def files_ok_def\<close>)
    with dt show ?thesis unfolding Restart(4) by simp
  qed (use st dt in \<open>simp_all add: stores_ok_def net_poll_def issue_write_def issue_read_def take_answer_def
        callback_return_def Let_def\<close>)
  then show ?thesis using stores_ok_mono data_ok_mono by blast
qed

lemma provenance_run:
  assumes "net_run h hm limit es s" and "hosts_ok h hm limit" and "limit < 2 ^ 31 - 41"
  shows "stores_ok es s \<and> (\<forall>x \<in> nt_back s. data_ok es x)"
  using assms(1)
proof induction
  case (Start fs)
  have "origin [] (i, a) (bf_data (mn_store (nt_minions (net_start fs) ! i)) a)" if "i < 3" "a < 8 * MB" for i a
    using start_cells[of fs a i] that Start by (simp add: cells_def files_ok_def net_start_def origin_def)
  then show ?case by (simp add: stores_ok_def) (simp add: net_start_def)
next
  case (Step es s e s')
  then show ?case using provenance_step[OF Step(2) net_inv_run[OF Step(1) assms(2,3)] assms(2,3)] by simp
qed

end
