(* ===== verification/Network_Linear.thy ===== *)
theory Network_Linear
  imports Network
begin

text \<open>
  The asynchronous system as a block device: in every run in which no datagram arrives twice,
  no minion restarts and no write is given up, whatever is lost, delayed or reordered, the
  requests take effect one after the other, and every read returns what the device of the
  writes before it holds.
\<close>

subsection \<open>The runs and what they should do\<close>

fun is_transfer :: "event \<Rightarrow> bool" where
  "is_transfer (Delivered i x) \<longleftrightarrow> True"
| "is_transfer (Answered x) \<longleftrightarrow> True"
| "is_transfer _ \<longleftrightarrow> False"

fun is_fault :: "event \<Rightarrow> bool" where
  "is_fault (Restarted i) \<longleftrightarrow> True"
| "is_fault (Polled f r told) \<longleftrightarrow> told \<noteq> [] \<and> told \<noteq> c_str ''Success''"
| "is_fault _ \<longleftrightarrow> False"

definition orderly :: "event list \<Rightarrow> bool" where
  "orderly es \<longleftrightarrow> distinct (filter is_transfer es) \<and> \<not> list_ex is_fault es"

fun requests :: "event list \<Rightarrow> request list" where
  "requests [] = []"
| "requests (Wrote off d og bk # es) = Write_req off d # requests es"
| "requests (Asked off n u # es) = Read_req off n # requests es"
| "requests (_ # es) = requests es"

fun read_results :: "event list \<Rightarrow> byte list list" where
  "read_results [] = []"
| "read_results (Replied buf # es) = (if buf = [] then read_results es else buf # read_results es)"
| "read_results (_ # es) = read_results es"

abbreviation spec_outs :: "event list \<Rightarrow> byte list list" where
  "spec_outs es \<equiv> fst (dev_run (requests es) (\<lambda>_. 0))"

abbreviation spec_dev :: "event list \<Rightarrow> device" where
  "spec_dev es \<equiv> snd (dev_run (requests es) (\<lambda>_. 0))"

lemma requests_append [simp]: "requests (es @ es') = requests es @ requests es'"
  by (induction es rule: requests.induct) simp_all

lemma read_results_append [simp]: "read_results (es @ es') = read_results es @ read_results es'"
  by (induction es rule: read_results.induct) simp_all

lemma dev_run_append:
  "dev_run (rs @ rs') dev = (fst (dev_run rs dev) @ fst (dev_run rs' (snd (dev_run rs dev))),
     snd (dev_run rs' (snd (dev_run rs dev))))"
  by (induction rs dev rule: dev_run.induct) (simp_all add: split_beta Let_def)

lemma orderly_snoc:
  assumes "orderly (es @ [e])"
  shows "orderly es" and "is_transfer e \<Longrightarrow> e \<notin> set es" and "\<not> is_fault e"
  using assms by (auto simp: orderly_def)

subsection \<open>Different messages have different datagrams\<close>

lemma put_wire_inject:
  assumes "put_wire at d u = put_wire at' d' u'"
    and "length d \<le> limit" "length d' \<le> limit" "limit < 2 ^ 31 - 41"
    and "snd at + length d \<le> 8 * MB" "snd at' + length d' \<le> 8 * MB"
  shows "snd at = snd at' \<and> d = d' \<and> u = u'"
proof -
  have len: "length d = unat (of_nat (length d) :: u32)" "length d' = unat (of_nat (length d') :: u32)"
    using length_u32[OF assms(2,4)] length_u32[OF assms(3,4)] by simp_all
  have "WriteMsg (of_nat (snd at)) (of_nat (length d)) (Some d) u =
      WriteMsg (of_nat (snd at')) (of_nat (length d')) (Some d') u'"
    by (rule write_codec.wire_inject[OF _ _ assms(1)]) (use len in simp_all)
  then have "(of_nat (snd at) :: u64) = of_nat (snd at')" and e: "d = d'" "u = u'"
    by (simp_all add: msg_ctor_defs)
  moreover have "snd at < 2 ^ 64" "snd at' < 2 ^ 64" using assms(5,6) by (simp_all add: size_consts)
  ultimately show ?thesis using of_nat_u64_inj by simp
qed

lemma put_get_differ:
  assumes "length d \<le> limit" and "limit < 2 ^ 31 - 41"
  shows "put_wire at d u \<noteq> get_wire at' n v"
proof
  assume e: "put_wire at d u = get_wire at' n v"
  have "take 8 (put_wire at d u) = take 8 (get_wire at' n v)" by (simp only: e)
  then show False
    unfolding take8_write_wire take8_read_wire by (simp add: le_bytes_inject32 msg_ctor_defs key_defs)
qed

lemma get_wire_inject:
  assumes "get_wire at n u = get_wire at' n' u'" and "snd at \<le> 8 * MB" and "snd at' \<le> 8 * MB"
  shows "snd at = snd at' \<and> n = n' \<and> u = u'"
proof -
  have "ReadMsg (of_nat (snd at)) n u = ReadMsg (of_nat (snd at')) n' u'"
    by (rule read_codec.wire_inject[OF _ _ assms(1)]) simp_all
  then have "(of_nat (snd at) :: u64) = of_nat (snd at')" and e: "n = n'" "u = u'"
    by (simp_all add: msg_ctor_defs)
  moreover have "snd at < 2 ^ 64" "snd at' < 2 ^ 64" using assms(2,3) by (simp_all add: size_consts)
  ultimately show ?thesis using of_nat_u64_inj by simp
qed

lemma data_response_inject:
  assumes "data_response u d n = data_response u' d' n'" and "length d = unat n" and "length d' = unat n'"
  shows "u = u' \<and> d = d' \<and> n = n'"
proof -
  have "MinionReadMsg u True (Some d) n = MinionReadMsg u' True (Some d') n'"
    by (rule minion_read_codec.wire_inject[OF _ _ assms(1)]) (use assms in \<open>simp_all add: msg_ctor_defs\<close>)
  then show ?thesis by (simp add: msg_ctor_defs)
qed

lemma responses_differ: "write_response u \<noteq> data_response v d n"
proof
  assume e: "write_response u = data_response v d n"
  have "take 8 (write_response u) = take 8 (data_response v d n)" by (simp only: e)
  then show False unfolding take8_responses by (simp add: le_bytes_inject32 msg_ctor_defs key_defs)
qed

subsection \<open>Received implies sent\<close>

lemma step_delivered: "net_step h hm limit s (Delivered i x) s' \<Longrightarrow> i < 3 \<and> (Raid01_ctor ! i, x) \<in> nt_wire s"
  by (auto elim: net_step.cases)

lemma step_answered: "net_step h hm limit s (Answered x) s' \<Longrightarrow> x \<in> nt_back s"
  by (auto elim: net_step.cases)

lemma received_sent:
  assumes "net_run h hm limit es s" and "hosts_ok h hm limit" and "limit < 2 ^ 31 - 41"
    and "Delivered i x \<in> set es"
  shows "i < 3 \<and> (Raid01_ctor ! i, x) \<in> nt_wire s"
  using assms(1,4)
proof induction
  case (Step es s e s')
  note inv = net_inv_run[OF Step(1) assms(2,3)]
  have sub: "nt_wire s \<subseteq> nt_wire s'"
    unfolding net_invD(7)[OF inv] net_invD(7)[OF net_inv_step[OF Step(2) inv assms(2,3)]] by auto
  have "i < 3 \<and> (Raid01_ctor ! i, x) \<in> nt_wire s" if "e = Delivered i x"
    using Step(2) unfolding that by cases simp
  with Step(3,4) sub show ?case by auto
qed simp

lemma back_grows: "net_step h hm limit s e s' \<Longrightarrow> nt_back s \<subseteq> nt_back s'"
  by (auto elim!: net_step.cases simp: net_issue_def net_serve_def net_poll_def net_reply_def)

lemma answered_sent:
  assumes "net_run h hm limit es s" and "Answered x \<in> set es"
  shows "x \<in> nt_back s"
  using assms
proof induction
  case (Step es s e s')
  then show ?case using back_grows[OF Step(2)] step_answered[of h hm limit s x s'] by auto
qed simp

text \<open>A message under an identifier that is still to be drawn has not been delivered.\<close>

lemma fresh_put:
  assumes run: "net_run h hm limit es s" and ok: "hosts_ok h hm limit" and l: "limit < 2 ^ 31 - 41"
    and ids: "ids_ok es s" and c: "unat (ms_counter (nt_master s)) \<le> unat (GetUniqueCounter u)"
    and d: "length d \<le> limit" "snd at + length d \<le> 8 * MB"
  shows "Delivered i (put_wire at d u) \<notin> set es"
proof
  note inv = net_inv_run[OF run ok l]
  assume "Delivered i (put_wire at d u) \<in> set es"
  from received_sent[OF run ok l this] net_invD(7)[OF inv] obtain e where
    i: "i < 3" and e: "e \<in> set es" "(Raid01_ctor ! i, put_wire at d u) \<in> sent_by e" by auto
  have "GetUniqueCounter u \<in> set (ids e)"
    using e(2) net_invD(6)[OF inv e(1)] i
  proof (cases rule: sent_byE)
    case (Put off d' og bk at' u')
    with put_wire_inject[OF Put(3) d(1) Put(6) l d(2) Put(5)] show ?thesis by auto
  next
    case (Get off n v)
    with put_get_differ[OF d(1) l] show ?thesis by metis
  qed
  with ids e(1) have "unat (GetUniqueCounter u) < unat (ms_counter (nt_master s))" by (auto simp: ids_ok_def)
  with c show False by simp
qed

lemma fresh_get:
  assumes run: "net_run h hm limit es s" and ok: "hosts_ok h hm limit" and l: "limit < 2 ^ 31 - 41"
    and ids: "ids_ok es s" and c: "unat (ms_counter (nt_master s)) \<le> unat (GetUniqueCounter u)"
    and a: "snd at \<le> 8 * MB"
  shows "Delivered i (get_wire at n u) \<notin> set es"
proof
  note inv = net_inv_run[OF run ok l]
  assume "Delivered i (get_wire at n u) \<in> set es"
  from received_sent[OF run ok l this] net_invD(7)[OF inv] obtain e where
    i: "i < 3" and e: "e \<in> set es" "(Raid01_ctor ! i, get_wire at n u) \<in> sent_by e" by auto
  have "GetUniqueCounter u \<in> set (ids e)"
    using e(2) net_invD(6)[OF inv e(1)] i
  proof (cases rule: sent_byE)
    case (Put off d' og bk at' u')
    with put_get_differ[OF Put(6) l] show ?thesis by metis
  next
    case (Get off n' v)
    from Get(4) have "snd (raid_primary (unat off)) \<le> 8 * MB" by simp
    with get_wire_inject[OF Get(3) a] Get(1) show ?thesis by auto
  qed
  with ids e(1) have "unat (GetUniqueCounter u) < unat (ms_counter (nt_master s))" by (auto simp: ids_ok_def)
  with c show False by simp
qed

text \<open>An identifier is on record as answered only if its answer has been handled.\<close>

definition acked :: "event list \<Rightarrow> uid \<Rightarrow> bool" where
  "acked es u \<longleftrightarrow>
     (\<exists>off d v. Wrote off d u v \<in> set es \<or> Wrote off d v u \<in> set es) \<and> Answered (write_response u) \<in> set es \<or>
     (\<exists>off n. Asked off n u \<in> set es)"

lemma acked_mono: "acked es u \<Longrightarrow> acked (es @ [e]) u"
  unfolding acked_def by auto

lemma answered_acked:
  assumes "net_run h hm limit es s" and "hosts_ok h hm limit" and "limit < 2 ^ 31 - 41"
    and "c \<in> answered (ms_watch (nt_master s))"
  shows "\<exists>u. acked es u \<and> GetUniqueCounter u = c"
  using assms(1,4)
proof (induction arbitrary: c)
  case (Start fs)
  then show ?case by (simp add: net_start_def start_def master_init_def answered_def)
next
  case (Step es s e s')
  have "c \<in> answered (ms_watch (nt_master s)) \<or> (\<exists>u. acked (es @ [e]) u \<and> GetUniqueCounter u = c)"
    using Step(2) net_inv_run[OF Step(1) assms(2,3)] assms(2,3)
  proof (cases rule: net_stepE)
    case (Write off d c')
    with Step(4) show ?thesis by (simp add: issue_write_def Let_def del: fun_upd_apply)
  next
    case (Read off n c')
    with Step(4) show ?thesis by (simp add: issue_read_def Let_def del: fun_upd_apply)
  next
    case (Ack u off d v)
    then have "acked (es @ [e]) u" by (auto simp: acked_def)
    with Step(4) Ack show ?thesis by (auto simp: take_answer_def rm.view_respond)
  next
    case (Data u d n off)
    then have "acked (es @ [e]) u" by (auto simp: acked_def)
    with Step(4) Data show ?thesis by (auto simp: take_answer_def rm.view_respond)
  next
    case (Poll_write og bk off d r ms)
    with Step(4) poll_frame(5)[OF Poll_write(3)] show ?thesis by (simp add: net_poll_def)
  qed (use Step(4) in \<open>auto simp: take_put_def take_get_def net_poll_def callback_return_def rm.view_ask\<close>)
  with Step(3) acked_mono show ?case by blast
qed

lemma write_acked:
  assumes ids: "ids_ok es s" and w: "Wrote off d og bk \<in> set es"
    and u: "acked es u" "GetUniqueCounter u = GetUniqueCounter v" "v = og \<or> v = bk"
    and ne: "GetUniqueCounter og \<noteq> GetUniqueCounter bk"
  shows "Answered (write_response v) \<in> set es"
proof -
  have same: "e = Wrote off d og bk" if "e \<in> set es" "GetUniqueCounter u \<in> set (ids e)" for e
    by (rule ids_unique[OF ids that(1) w that(2)]) (use u in auto)
  have "Wrote off d og bk \<noteq> Asked off' n v'" for off' n v' by simp
  with u(1) same obtain off' d' v' where "Wrote off' d' u v' \<in> set es \<or> Wrote off' d' v' u \<in> set es"
    and a: "Answered (write_response u) \<in> set es" unfolding acked_def by fastforce
  then have "u = og \<or> u = bk" using same[of "Wrote off' d' u v'"] same[of "Wrote off' d' v' u"] by auto
  with u ne have "u = v" by auto
  with a show ?thesis by simp
qed

subsection \<open>The cells of the three files\<close>

definition sys_of :: "network \<Rightarrow> system" where
  "sys_of s = \<lparr>sy_master = nt_master s, sy_minions = nt_minions s\<rparr>"

definition device_of :: "(nat \<times> nat \<Rightarrow> byte) \<Rightarrow> device" where
  "device_of c = (\<lambda>a. if a < raid_capacity then raid.device c a else 0)"

lemma abs_device_of: "abs_device sys = device_of (cells sys)"
  by (simp add: abs_device_def device_of_def)

lemma cells_put:
  assumes inv: "net_inv limit es s" and i: "fst at < 3" and a: "snd at + length d \<le> 8 * MB"
  shows "cells (sys_of (take_put at d u s)) = raid.put_run (cells (sys_of s)) at d"
proof (rule ext, clarify)
  fix j x
  have len: "length (nt_minions s) = 3" by (rule net_invD(1)[OF inv])
  show "cells (sys_of (take_put at d u s)) (j, x) = raid.put_run (cells (sys_of s)) at d (j, x)"
    using i len store_wrote[OF net_invD(2)[OF inv i] a, of u]
    by (cases "j = fst at") (simp_all add: cells_def sys_of_def take_put_def raid.put_run_def)
qed

lemma cells_get:
  assumes inv: "net_inv limit es s"
  shows "cells (sys_of (take_get at n u s)) = cells (sys_of s)"
proof (rule ext, clarify)
  fix j x
  show "cells (sys_of (take_get at n u s)) (j, x) = cells (sys_of s) (j, x)"
    using net_invD(1)[OF inv]
    by (cases "j = fst at") (simp_all add: cells_def sys_of_def take_get_def have_read_def)
qed

lemma cells_same: "nt_minions s' = nt_minions s \<Longrightarrow> cells (sys_of s') = cells (sys_of s)"
  by (simp add: cells_def sys_of_def fun_eq_iff)

lemma put_run_commute:
  assumes "fst at \<noteq> fst at'"
  shows "raid.put_run (raid.put_run c at d) at' d' = raid.put_run (raid.put_run c at' d') at d"
  using assms by (auto simp: raid.put_run_def fun_eq_iff)

lemma read_run_device:
  assumes s: "raid.in_stripe off n" and n: "0 < n"
  shows "read_run (raid_primary off) n s = dev_read off n (device_of (cells (sys_of s)))"
  using read_bytes_device[OF s n, of "sys_of s"] abs_device_read[OF s, of "sys_of s"]
  by (simp add: read_run_def read_bytes_def sys_of_def abs_device_of)

lemma device_of_mirror_write:
  assumes "raid.in_stripe off (length d)"
  shows "device_of (raid.mirror_write c off d) = dev_write off d (device_of c)"
  unfolding device_of_def dev_write_def
  by (rule ext) (use assms raid.mirror_write_device[OF assms] in \<open>auto simp: raid.in_stripe_def\<close>)

subsection \<open>The phases of a request\<close>

text \<open>
  What is still under way: datagrams on the wire and responses that have not arrived, and
  the polls of writes.
\<close>

definition under_way :: "event list \<Rightarrow> network \<Rightarrow> (nat \<times> datagram) set \<Rightarrow> datagram set \<Rightarrow> (uid \<times> uid) set \<Rightarrow> bool" where
  "under_way es s A B F \<longleftrightarrow>
     (\<forall>i < 3. \<forall>x. (Raid01_ctor ! i, x) \<in> nt_wire s \<longrightarrow> Delivered i x \<in> set es \<or> (i, x) \<in> A) \<and>
     (\<forall>x \<in> nt_back s. Answered x \<in> set es \<or> x \<in> B) \<and>
     (\<forall>og bk. WriteAIFunc og bk \<in> set (nt_polls s) \<longrightarrow> (og, bk) \<in> F)"

definition holds :: "device \<Rightarrow> network \<Rightarrow> bool" where
  "holds dev s \<longleftrightarrow> raid.mirrored (cells (sys_of s)) \<and> device_of (cells (sys_of s)) = dev"

definition idle_phase :: "event list \<Rightarrow> network \<Rightarrow> bool" where
  "idle_phase es s \<longleftrightarrow> under_way es s {} {} {} \<and> ms_nbd_tx (nt_master s) = [] \<and>
     holds (spec_dev es) s \<and> spec_outs es = read_results es"

definition read_phase :: "u64 \<Rightarrow> u32 \<Rightarrow> uid \<Rightarrow> event list \<Rightarrow> network \<Rightarrow> bool" where
  "read_phase off n u es s \<longleftrightarrow>
     (let at = raid_primary (unat off); D = dev_read (unat off) (unat n) (spec_dev es)
      in holds (spec_dev es) s \<and> spec_outs es = read_results es @ [D] \<and>
         (ms_nbd_tx (nt_master s) = [] \<and>
            under_way es s {(fst at, get_wire at n u)}
              {x. x = data_response u D n \<and> Delivered (fst at) (get_wire at n u) \<in> set es} {} \<or>
          ms_nbd_tx (nt_master s) = D \<and> under_way es s {} {} {}))"

text \<open>The cells of a write of which some copies have been stored.\<close>

definition half_done :: "(nat \<times> nat \<Rightarrow> byte) \<Rightarrow> nat \<Rightarrow> byte list \<Rightarrow> bool \<Rightarrow> bool \<Rightarrow> nat \<times> nat \<Rightarrow> byte" where
  "half_done c off d p b =
     (let c = if p then raid.put_run c (raid_primary off) d else c
      in if b then raid.put_run c (raid_backup off) d else c)"

definition write_phase :: "u64 \<Rightarrow> byte list \<Rightarrow> uid \<Rightarrow> uid \<Rightarrow> event list \<Rightarrow> network \<Rightarrow> bool" where
  "write_phase off d og bk es s \<longleftrightarrow>
     (let p = raid_primary (unat off); b = raid_backup (unat off);
          P = Delivered (fst p) (put_wire p d og); B = Delivered (fst b) (put_wire b d bk)
      in Wrote off d og bk \<in> set es \<and> spec_outs es = read_results es \<and>
         (ms_nbd_tx (nt_master s) = [] \<and>
            under_way es s {(fst p, put_wire p d og), (fst b, put_wire b d bk)}
              {x. x = write_response og \<and> P \<in> set es \<or> x = write_response bk \<and> B \<in> set es} {(og, bk)} \<and>
            (\<exists>c. raid.mirrored c \<and> dev_write (unat off) d (device_of c) = spec_dev es \<and>
               cells (sys_of s) = half_done c (unat off) d (P \<in> set es) (B \<in> set es)) \<or>
          ms_nbd_tx (nt_master s) = c_str ''Success'' \<and> under_way es s {} {} {} \<and> holds (spec_dev es) s))"

definition linear :: "event list \<Rightarrow> network \<Rightarrow> bool" where
  "linear es s \<longleftrightarrow>
     (case nt_waiting s of
        None \<Rightarrow> idle_phase es s
      | Some (Read_req off n) \<Rightarrow> \<exists>u. read_phase off n u es s
      | Some (Write_req off d) \<Rightarrow> \<exists>og bk. write_phase off d og bk es s)"

lemma under_way_mono: "under_way es s A B F \<Longrightarrow> A \<subseteq> A' \<Longrightarrow> B \<subseteq> B' \<Longrightarrow> F \<subseteq> F' \<Longrightarrow> under_way es s A' B' F'"
  unfolding under_way_def by blast

lemma under_way_record:
  assumes "under_way es s A B F" and "nt_wire s' = nt_wire s" and "nt_back s' = nt_back s"
    and "set (nt_polls s') \<subseteq> set (nt_polls s)"
  shows "under_way (es @ [e]) s' A B F"
  using assms unfolding under_way_def by auto

subsection \<open>Steps within and between the phases\<close>

text \<open>With no duplicates, what arrives is under way.\<close>

lemma arrives_under_way:
  assumes "net_step h hm limit s e s'" and "orderly (es @ [e])" and "under_way es s A B F"
  shows "e = Delivered i x \<Longrightarrow> (i, x) \<in> A" and "e = Answered x \<Longrightarrow> x \<in> B"
  using assms step_delivered[of h hm limit s i x s'] step_answered[of h hm limit s x s'] orderly_snoc(2)[OF assms(2)]
  by (auto simp: under_way_def)

lemma under_way_arrived:
  assumes "under_way es s A B F" and "nt_wire s' = nt_wire s" and "nt_polls s' = nt_polls s"
  shows "nt_back s' = insert y (nt_back s) \<Longrightarrow> y \<in> B' \<Longrightarrow> B \<subseteq> B' \<Longrightarrow>
      under_way (es @ [Delivered i x]) s' A B' F"
    and "nt_back s' = nt_back s \<Longrightarrow> under_way (es @ [Answered x]) s' A (B - {x}) F"
  using assms unfolding under_way_def by auto

lemma poll_told:
  assumes p: "write_poll_spec og bk ms = (r, ms')"
    and t: "\<not> is_fault (Polled f r (drop (length (ms_nbd_tx ms)) (ms_nbd_tx ms')))"
  shows "\<not> r \<and> ms_nbd_tx ms' = ms_nbd_tx ms \<or>
    r \<and> ms_nbd_tx ms' = ms_nbd_tx ms @ c_str ''Success'' \<and>
      GetUniqueCounter og \<in> answered (ms_watch ms) \<and> GetUniqueCounter bk \<in> answered (ms_watch ms)"
proof -
  have "give_up_text oc \<noteq> c_str ''Success'' \<and> give_up_text oc \<noteq> []" for oc
    by (simp add: give_up_text_def c_str_def)
  with assms show ?thesis by (auto simp: write_poll_spec_def Let_def split: if_splits)
qed

text \<open>An event that changes nothing but the watch list and, maybe, the polls.\<close>

lemma linear_frame:
  assumes lin: "linear es s" and e: "\<not> is_transfer e" "requests [e] = []" "read_results [e] = []"
    and s': "nt_waiting s' = nt_waiting s" "ms_nbd_tx (nt_master s') = ms_nbd_tx (nt_master s)"
      "nt_minions s' = nt_minions s" "nt_wire s' = nt_wire s" "nt_back s' = nt_back s"
      "set (nt_polls s') \<subseteq> set (nt_polls s)"
  shows "linear (es @ [e]) s'"
proof -
  have c: "cells (sys_of s') = cells (sys_of s)" by (rule cells_same[OF s'(3)])
  have D: "Delivered i x \<in> set (es @ [e]) \<longleftrightarrow> Delivered i x \<in> set es" for i x using e(1) by auto
  have R: "requests (es @ [e]) = requests es" "read_results (es @ [e]) = read_results es" using e by simp_all
  note w = under_way_record[OF _ s'(4,5,6), of es _ _ _ e]
  have 1: "idle_phase es s \<Longrightarrow> idle_phase (es @ [e]) s'"
    using w by (simp add: idle_phase_def holds_def R c s'(2) del: requests_append read_results_append)
  have 2: "read_phase off n u es s \<Longrightarrow> read_phase off n u (es @ [e]) s'" for off n u
    unfolding read_phase_def holds_def R c s'(2) D Let_def using w by blast
  have 3: "write_phase off d og bk es s \<Longrightarrow> write_phase off d og bk (es @ [e]) s'" for off d og bk
    unfolding write_phase_def holds_def R c s'(2) D Let_def using w by auto
  show ?thesis
    using lin 1 2 3 unfolding linear_def s'(1) by (fastforce split: option.splits request.splits)
qed

lemma under_way_issued:
  assumes w: "under_way es s {} {} {}" and e: "issued_ok limit e"
    and s': "nt_wire s' = nt_wire s \<union> sent_by e" "nt_back s' = nt_back s"
    and f: "\<And>og bk. WriteAIFunc og bk \<in> set (nt_polls s') \<Longrightarrow> WriteAIFunc og bk \<in> set (nt_polls s) \<or> (og, bk) \<in> F"
    and a: "\<And>i x. i < 3 \<Longrightarrow> (Raid01_ctor ! i, x) \<in> sent_by e \<Longrightarrow> (i, x) \<in> A"
  shows "under_way (es @ [e]) s' A {} F"
  using w s' f a unfolding under_way_def by auto

lemma idle_step_write:
  assumes inv: "net_inv limit es s" and i: "idle_phase es s" and f: "fits limit (Write_req off d)"
    and ne: "GetUniqueCounter og \<noteq> GetUniqueCounter bk"
    and fresh: "\<And>i at u. u = og \<or> u = bk \<Longrightarrow> snd at + length d \<le> 8 * MB \<Longrightarrow> Delivered i (put_wire at d u) \<notin> set es"
    and s': "nt_wire s' = nt_wire s \<union> sent_by (Wrote off d og bk)" "nt_back s' = nt_back s"
      "nt_polls s' = WriteAIFunc og bk # nt_polls s" "nt_minions s' = nt_minions s"
      "ms_nbd_tx (nt_master s') = ms_nbd_tx (nt_master s)"
  shows "write_phase off d og bk (es @ [Wrote off d og bk]) s'"
proof -
  let ?e = "Wrote off d og bk" and ?p = "raid_primary (unat off)" and ?b = "raid_backup (unat off)"
  from i have w: "under_way es s {} {} {}" by (simp add: idle_phase_def)
  have ok: "issued_ok limit ?e" using f ne by simp
  have "under_way (es @ [?e]) s' {(fst ?p, put_wire ?p d og), (fst ?b, put_wire ?b d bk)} {} {(og, bk)}"
  proof (rule under_way_issued[OF w ok s'(1,2)])
    fix i x assume "i < 3" "(Raid01_ctor ! i, x) \<in> sent_by ?e"
    from this(2) ok this(1) show "(i, x) \<in> {(fst ?p, put_wire ?p d og), (fst ?b, put_wire ?b d bk)}"
      by (cases rule: sent_byE) auto
  qed (auto simp: s'(3))
  then have "under_way (es @ [?e]) s' {(fst ?p, put_wire ?p d og), (fst ?b, put_wire ?b d bk)}
      {x. x = write_response og \<and> Delivered (fst ?p) (put_wire ?p d og) \<in> set (es @ [?e]) \<or>
          x = write_response bk \<and> Delivered (fst ?b) (put_wire ?b d bk) \<in> set (es @ [?e])} {(og, bk)}"
    by (rule under_way_mono) auto
  moreover have "Delivered (fst ?p) (put_wire ?p d og) \<notin> set es" "Delivered (fst ?b) (put_wire ?b d bk) \<notin> set es"
    using fresh fits_write(6,7)[OF f] by auto
  moreover have "cells (sys_of s') = cells (sys_of s)" by (rule cells_same[OF s'(4)])
  ultimately show ?thesis
    using i s'(5)
    by (auto simp: write_phase_def idle_phase_def Let_def half_done_def dev_run_append holds_def)
qed

lemma idle_step_read:
  assumes i: "idle_phase es s" and f: "fits limit (Read_req off n)"
    and s': "nt_wire s' = nt_wire s \<union> sent_by (Asked off n u)" "nt_back s' = nt_back s"
      "nt_polls s' = ReadAIFunc u # nt_polls s" "nt_minions s' = nt_minions s"
      "ms_nbd_tx (nt_master s') = ms_nbd_tx (nt_master s)"
  shows "read_phase off n u (es @ [Asked off n u]) s'"
proof -
  let ?e = "Asked off n u" and ?p = "raid_primary (unat off)"
  from i have w: "under_way es s {} {} {}" by (simp add: idle_phase_def)
  have ok: "issued_ok limit ?e" using f by simp
  have "under_way (es @ [?e]) s' {(fst ?p, get_wire ?p n u)} {} {}"
  proof (rule under_way_issued[OF w ok s'(1,2)])
    fix i x assume "i < 3" "(Raid01_ctor ! i, x) \<in> sent_by ?e"
    from this(2) ok this(1) show "(i, x) \<in> {(fst ?p, get_wire ?p n u)}"
      by (cases rule: sent_byE) auto
  qed (auto simp: s'(3))
  then have "under_way (es @ [?e]) s' {(fst ?p, get_wire ?p n u)}
      {x. x = data_response u (dev_read (unat off) (unat n) (spec_dev (es @ [?e]))) n \<and>
          Delivered (fst ?p) (get_wire ?p n u) \<in> set (es @ [?e])} {}"
    by (rule under_way_mono) auto
  moreover have "cells (sys_of s') = cells (sys_of s)" by (rule cells_same[OF s'(4)])
  ultimately show ?thesis
    using i s'(5) by (simp add: read_phase_def idle_phase_def Let_def dev_run_append holds_def)
qed

lemma polls_distinct:
  assumes "net_run h hm limit es s" and ok: "hosts_ok h hm limit" and l: "limit < 2 ^ 31 - 41"
  shows "1 + 4 * length es < 2 ^ 32 \<Longrightarrow> distinct (nt_polls s)"
  using assms(1)
proof induction
  case (Step es s e s')
  note inv = net_inv_run[OF Step(1) ok l]
  from Step(4) have b: "1 + 4 * length es < 2 ^ 32" and b4: "5 + 4 * length es < 2 ^ 32" by simp_all
  note ids = ids_ok_run[OF Step(1) ok l b]
  have "unat (ms_counter (nt_master s)) + 4 < 2 ^ 32" using ids b4 by (simp add: ids_ok_def)
  note c = unat_counter[OF this]
  have old: "unat (GetUniqueCounter u) < unat (ms_counter (nt_master s))"
    if "poll_ok es f" "f = ReadAIFunc u \<or> (\<exists>v. f = WriteAIFunc u v)" for f u
  proof -
    from that obtain e where "e \<in> set es" "GetUniqueCounter u \<in> set (ids e)" by (fastforce simp: poll_ok_def)
    with ids show ?thesis by (auto simp: ids_ok_def)
  qed
  from Step(2) inv ok l show ?case
  proof (cases rule: net_stepE)
    case (Write off d c')
    let ?f = "WriteAIFunc (uid_of h (c' + 2)) (uid_of h (c' + 3))"
    have "?f \<notin> set (nt_polls s)"
      using old[of ?f "uid_of h (c' + 2)"] net_invD(9)[OF inv, of ?f] Write(2) c(2) by auto
    with Step(3)[OF b] Write(2,5) show ?thesis by (simp add: issue_write_def Let_def)
  next
    case (Read off n c')
    let ?f = "ReadAIFunc (uid_of h (c' + 2))"
    have "?f \<notin> set (nt_polls s)"
      using old[of ?f "uid_of h (c' + 2)"] net_invD(9)[OF inv, of ?f] Read(2) c(2) by auto
    with Step(3)[OF b] Read(2,5) show ?thesis by (simp add: issue_read_def Let_def)
  qed (use Step(3)[OF b] in \<open>auto simp: take_put_def take_get_def take_answer_def net_poll_def callback_return_def\<close>)
qed (simp add: net_start_def)

lemma poll_read_linear:
  assumes "linear es s"
  shows "linear (es @ [Polled (ReadAIFunc u) r []]) (net_poll (ReadAIFunc u) r ((nt_master s)\<lparr>ms_watch := w\<rparr>) s)"
  using set_remove1_subset[of "ReadAIFunc u" "nt_polls s"]
  by (intro linear_frame[OF assms]) (simp_all add: net_poll_def)

lemma length_dev_read [simp]: "length (dev_read off n dev) = n"
  by (simp add: dev_read_def)

lemma read_phase_get:
  assumes inv: "net_inv limit es s" and r: "read_phase off n u es s" and tx: "ms_nbd_tx (nt_master s) = []"
    and f: "fits limit (Read_req off n)"
    and w: "under_way es s {(fst (raid_primary (unat off)), get_wire (raid_primary (unat off)) n u)}
      {x. x = data_response u (dev_read (unat off) (unat n) (spec_dev es)) n \<and>
          Delivered (fst (raid_primary (unat off))) (get_wire (raid_primary (unat off)) n u) \<in> set es} {}"
  shows "read_phase off n u (es @ [Delivered (fst (raid_primary (unat off))) (get_wire (raid_primary (unat off)) n u)])
    (take_get (raid_primary (unat off)) n u s)"
proof -
  let ?p = "raid_primary (unat off)" and ?D = "dev_read (unat off) (unat n) (spec_dev es)"
  let ?s' = "take_get ?p n u s" and ?e = "Delivered (fst ?p) (get_wire ?p n u)"
  have h: "holds (spec_dev es) s" using r by (simp add: read_phase_def Let_def)
  have D: "read_run ?p (unat n) s = ?D"
    using read_run_device[OF fits_read(2,3)[OF f]] h by (simp add: holds_def)
  have "under_way (es @ [?e]) ?s' {(fst ?p, get_wire ?p n u)} {x. x = data_response u ?D n \<and> ?e \<in> set (es @ [?e])} {}"
    by (rule under_way_arrived(1)[OF w]) (auto simp: take_get_def D)
  then show ?thesis
    using r tx h cells_get[OF inv, of ?p n u]
    by (simp add: read_phase_def Let_def holds_def) (simp add: take_get_def)
qed

lemma read_phase_step:
  assumes step: "net_step h hm limit s e s'" and inv: "net_inv limit es s"
    and ok: "hosts_ok h hm limit" and l: "limit < 2 ^ 31 - 41" and ord: "orderly (es @ [e])"
    and wait: "nt_waiting s = Some (Read_req off n)" and r: "read_phase off n u es s"
  shows "linear (es @ [e]) s'"
proof -
  let ?p = "raid_primary (unat off)" and ?D = "dev_read (unat off) (unat n) (spec_dev es)"
  let ?A = "{(fst ?p, get_wire ?p n u)}"
    and ?B = "{x. x = data_response u ?D n \<and> Delivered (fst ?p) (get_wire ?p n u) \<in> set es}"
  note f = net_invD(10)[OF inv wait]
  have lin: "linear es s" using wait r by (auto simp: linear_def)
  from r have h: "holds (spec_dev es) s" and outs: "spec_outs es = read_results es @ [?D]"
    and ph: "ms_nbd_tx (nt_master s) = [] \<and> under_way es s ?A ?B {} \<or>
      ms_nbd_tx (nt_master s) = ?D \<and> under_way es s {} {} {}"
    by (simp_all add: read_phase_def Let_def)
  then have w: "under_way es s ?A ?B {}" using under_way_mono[of es s "{}" "{}" "{}" ?A ?B "{}"] by blast
  note arr = arrives_under_way[OF step ord w]
  have D0: "?D \<noteq> []" using fits_read(3)[OF f] length_dev_read[of "unat off" "unat n" "spec_dev es"] by (metis length_0_conv less_numeral_extra(3))
  from step inv ok l show ?thesis
  proof (cases rule: net_stepE)
    case (Put off' d' og' bk' at' u')
    have "length d' \<le> limit" using net_invD(6)[OF inv Put(1)] by simp
    from put_get_differ[OF this l] arr(1)[OF Put(2)] show ?thesis by (metis Pair_inject singletonD)
  next
    case (Get off' n' u' at')
    from arr(1)[OF Get(2)] have "fst at' = fst ?p" and e: "get_wire at' n' u' = get_wire ?p n u" by auto
    moreover have "snd at' \<le> 8 * MB" "snd ?p \<le> 8 * MB" using Get(5) fits_read(5)[OF f] by simp_all
    note get_wire_inject[OF e this]
    ultimately have same: "at' = ?p" "n' = n" "u' = u" by (auto simp: prod_eq_iff)
    have tx: "ms_nbd_tx (nt_master s) = []" and w0: "under_way es s ?A ?B {}"
      using ph arrives_under_way(1)[OF step ord _ Get(2)] w by blast+
    from read_phase_get[OF inv r tx f w0] show ?thesis
      unfolding Get(2,7) same using wait by (auto simp: linear_def take_get_def)
  next
    case (Ack u' off' d' v)
    from arr(2)[OF Ack(1)] responses_differ[of u'] show ?thesis by auto
  next
    case (Data u' d' n' off')
    from arr(2)[OF Data(1)] have e: "data_response u' d' n' = data_response u ?D n"
      and dl: "Delivered (fst ?p) (get_wire ?p n u) \<in> set es" by auto
    from data_response_inject[OF e Data(5)] have d': "d' = ?D" by simp
    have tx: "ms_nbd_tx (nt_master s) = []" using ph arrives_under_way(2)[OF step ord _ Data(1)] by blast
    have "under_way (es @ [e]) s' ?A (?B - {data_response u' d' n'}) {}"
      unfolding Data(1) by (rule under_way_arrived(2)[OF w]) (simp_all add: Data(7) take_answer_def)
    then have "under_way (es @ [e]) s' {} {} {}" using dl e by (auto simp: under_way_def)
    then have "read_phase off n u (es @ [e]) s'"
      using h outs tx cells_same[of s' s] unfolding Data(1,7)
      by (simp add: read_phase_def Let_def holds_def take_answer_def d')
    then show ?thesis using wait by (auto simp: linear_def Data(7) take_answer_def)
  next
    case (Poll_write og bk off' d' r' ms)
    with w show ?thesis by (auto simp: under_way_def)
  next
    case (Poll_read u')
    show ?thesis unfolding Poll_read(2,3) by (rule poll_read_linear[OF lin])
  next
    case (Reply r' buf rest)
    with wait have r': "r' = Read_req off n" by simp
    have tx: "ms_nbd_tx (nt_master s) = ?D" and w0: "under_way es s {} {} {}" using ph Reply(3) by auto
    with Reply(4) r' have b: "buf = ?D" "rest = []" by simp_all
    have "under_way (es @ [e]) s' {} {} {}"
      by (rule under_way_record[OF w0]) (simp_all add: Reply(5) callback_return_def)
    moreover have "cells (sys_of s') = cells (sys_of s)"
      by (rule cells_same) (simp add: Reply(5) callback_return_def)
    ultimately have "idle_phase (es @ [e]) s'"
      using h outs D0 by (simp add: idle_phase_def holds_def Reply(1) b) (simp add: Reply(5) callback_return_def b)
    then show ?thesis by (simp add: linear_def) (simp add: Reply(5) callback_return_def)
  qed (use wait orderly_snoc(3)[OF ord] in auto)
qed

lemma half_done_put:
  assumes "fst (raid_primary off) \<noteq> fst (raid_backup off)"
  shows "raid.put_run (half_done c off d False b) (raid_primary off) d = half_done c off d True b"
    and "raid.put_run (half_done c off d p False) (raid_backup off) d = half_done c off d p True"
  using put_run_commute[OF assms, of c d d] by (simp_all add: half_done_def)

lemma half_done_both: "half_done c off d True True = raid.mirror_write c off d"
  by (simp add: half_done_def raid.mirror_write_def)

lemma write_phase_put:
  assumes inv: "net_inv limit es s" and w: "write_phase off d og bk es s" and tx: "ms_nbd_tx (nt_master s) = []"
    and f: "fits limit (Write_req off d)"
    and at: "at = raid_primary (unat off) \<and> u = og \<or> at = raid_backup (unat off) \<and> u = bk"
    and new: "Delivered (fst at) (put_wire at d u) \<notin> set es"
  shows "write_phase off d og bk (es @ [Delivered (fst at) (put_wire at d u)]) (take_put at d u s)"
proof -
  let ?p = "raid_primary (unat off)" and ?b = "raid_backup (unat off)"
  let ?P = "Delivered (fst ?p) (put_wire ?p d og)" and ?B = "Delivered (fst ?b) (put_wire ?b d bk)"
  let ?s' = "take_put at d u s" and ?e = "Delivered (fst at) (put_wire at d u)"
  let ?resp = "\<lambda>es. {x. x = write_response og \<and> ?P \<in> set es \<or> x = write_response bk \<and> ?B \<in> set es}"
  note node = placement_nodes[OF fits_write(1)[OF f]]
  have PB: "?P \<noteq> ?B" using node(3) by auto
  have "c_str ''Success'' \<noteq> []" by (simp add: c_str_def)
  with w tx obtain c where wr: "Wrote off d og bk \<in> set es" and outs: "spec_outs es = read_results es"
    and u: "under_way es s {(fst ?p, put_wire ?p d og), (fst ?b, put_wire ?b d bk)} (?resp es) {(og, bk)}"
    and c: "raid.mirrored c" "dev_write (unat off) d (device_of c) = spec_dev es"
      "cells (sys_of s) = half_done c (unat off) d (?P \<in> set es) (?B \<in> set es)"
    by (auto simp: write_phase_def Let_def)
  have a: "fst at < 3" "snd at + length d \<le> 8 * MB" using at node fits_write(6,7)[OF f] by auto
  have u': "under_way (es @ [?e]) ?s' {(fst ?p, put_wire ?p d og), (fst ?b, put_wire ?b d bk)} (?resp (es @ [?e])) {(og, bk)}"
    by (rule under_way_arrived(1)[OF u]) (use at in \<open>auto simp: take_put_def\<close>)
  have "cells (sys_of ?s') = half_done c (unat off) d (?P \<in> set (es @ [?e])) (?B \<in> set (es @ [?e]))"
    unfolding cells_put[OF inv a] c(3) using at new PB half_done_put[OF node(3)]
    by (cases "at = ?p") auto
  with u' wr outs c(1,2) tx show ?thesis
    by (simp add: write_phase_def Let_def) (auto simp: take_put_def)
qed

lemma write_phase_success:
  assumes w: "write_phase off d og bk es s" and tx: "ms_nbd_tx (nt_master s) = []"
    and f: "fits limit (Write_req off d)" and dist: "distinct (nt_polls s)"
    and both: "Delivered (fst (raid_primary (unat off))) (put_wire (raid_primary (unat off)) d og) \<in> set es"
      "Delivered (fst (raid_backup (unat off))) (put_wire (raid_backup (unat off)) d bk) \<in> set es"
    and acks: "Answered (write_response og) \<in> set es" "Answered (write_response bk) \<in> set es"
    and ms: "ms_nbd_tx ms = c_str ''Success''"
  shows "write_phase off d og bk (es @ [Polled (WriteAIFunc og bk) True told])
    (net_poll (WriteAIFunc og bk) True ms s)"
proof -
  let ?s' = "net_poll (WriteAIFunc og bk) True ms s"
  note stripe = fits_write(2)[OF f]
  have "c_str ''Success'' \<noteq> []" by (simp add: c_str_def)
  with w tx obtain c where wr: "Wrote off d og bk \<in> set es" and outs: "spec_outs es = read_results es"
    and u: "under_way es s {(fst (raid_primary (unat off)), put_wire (raid_primary (unat off)) d og),
        (fst (raid_backup (unat off)), put_wire (raid_backup (unat off)) d bk)}
      {x. x = write_response og \<or> x = write_response bk} {(og, bk)}"
    and c: "raid.mirrored c" "dev_write (unat off) d (device_of c) = spec_dev es"
      "cells (sys_of s) = half_done c (unat off) d True True"
    using both by (auto simp: write_phase_def Let_def)
  have "under_way (es @ [Polled (WriteAIFunc og bk) True told]) ?s' {} {} {}"
    using u both acks dist by (auto simp: under_way_def net_poll_def)
  moreover have "cells (sys_of ?s') = raid.mirror_write c (unat off) d"
    using cells_same[of ?s' s] c(3) by (simp add: net_poll_def half_done_both)
  ultimately show ?thesis
    using wr outs ms raid.mirror_write_mirrored[OF c(1) stripe] device_of_mirror_write[OF stripe, of c] c(2)
    by (simp add: write_phase_def Let_def holds_def) (simp add: net_poll_def)
qed

lemma write_phase_poll:
  assumes run: "net_run h hm limit es s" and ok: "hosts_ok h hm limit" and l: "limit < 2 ^ 31 - 41"
    and b: "1 + 4 * length es < 2 ^ 32" and w: "write_phase off d og bk es s"
    and tx: "ms_nbd_tx (nt_master s) = []" and wait: "nt_waiting s = Some (Write_req off d)"
    and p: "write_poll_spec og bk (nt_master s) = (r, ms)"
    and e: "e = Polled (WriteAIFunc og bk) r (drop (length (ms_nbd_tx (nt_master s))) (ms_nbd_tx ms))" "\<not> is_fault e"
  shows "linear (es @ [e]) (net_poll (WriteAIFunc og bk) r ms s)"
proof -
  note inv = net_inv_run[OF run ok l]
  note ids = ids_ok_run[OF run ok l b]
  note f = net_invD(10)[OF inv wait]
  have wr: "Wrote off d og bk \<in> set es" using w by (simp add: write_phase_def Let_def)
  have ne: "GetUniqueCounter og \<noteq> GetUniqueCounter bk" using net_invD(6)[OF inv wr] by simp
  have lin: "linear es s" using wait w by (auto simp: linear_def)
  from poll_told[OF p e(2)[unfolded e(1)]] show ?thesis
  proof (elim disjE conjE)
    assume "\<not> r" "ms_nbd_tx ms = ms_nbd_tx (nt_master s)"
    then show ?thesis by (intro linear_frame[OF lin]) (simp_all add: net_poll_def e)
  next
    assume r: r and t: "ms_nbd_tx ms = ms_nbd_tx (nt_master s) @ c_str ''Success''"
      and a: "GetUniqueCounter og \<in> answered (ms_watch (nt_master s))" "GetUniqueCounter bk \<in> answered (ms_watch (nt_master s))"
    from net_invD(11)[OF inv a(1)] net_invD(11)[OF inv a(2)] have both:
      "Delivered (fst (raid_primary (unat off))) (put_wire (raid_primary (unat off)) d og) \<in> set es"
      "Delivered (fst (raid_backup (unat off))) (put_wire (raid_backup (unat off)) d bk) \<in> set es"
      using handled_write[OF ids inv wr] by blast+
    have acks: "Answered (write_response og) \<in> set es" "Answered (write_response bk) \<in> set es"
      using answered_acked[OF run ok l a(1)] answered_acked[OF run ok l a(2)] write_acked[OF ids wr _ _ _ ne] by blast+
    from t tx have "ms_nbd_tx ms = c_str ''Success''" by simp
    from write_phase_success[OF w tx f polls_distinct[OF run ok l b] both acks this] wait r e(1)
    show ?thesis by (auto simp: linear_def net_poll_def)
  qed
qed

lemma write_phase_step:
  assumes step: "net_step h hm limit s e s'" and run: "net_run h hm limit es s"
    and ok: "hosts_ok h hm limit" and l: "limit < 2 ^ 31 - 41" and b: "1 + 4 * length es < 2 ^ 32"
    and ord: "orderly (es @ [e])"
    and wait: "nt_waiting s = Some (Write_req off d)" and w: "write_phase off d og bk es s"
  shows "linear (es @ [e]) s'"
proof -
  let ?p = "raid_primary (unat off)" and ?b = "raid_backup (unat off)"
  let ?A = "{(fst ?p, put_wire ?p d og), (fst ?b, put_wire ?b d bk)}" and ?B = "{write_response og, write_response bk}"
  note inv = net_inv_run[OF run ok l]
  note f = net_invD(10)[OF inv wait]
  have lin: "linear es s" using wait w by (auto simp: linear_def)
  have S0: "c_str ''Success'' \<noteq> []" by (simp add: c_str_def)
  from w have u0: "ms_nbd_tx (nt_master s) = [] \<or>
      ms_nbd_tx (nt_master s) = c_str ''Success'' \<and> under_way es s {} {} {} \<and> holds (spec_dev es) s"
    and u: "under_way es s ?A ?B {(og, bk)}" and outs: "spec_outs es = read_results es"
    by (auto simp: write_phase_def Let_def elim!: under_way_mono)
  note arr = arrives_under_way[OF step ord u] and fin = arrives_under_way[OF step ord, of "{}" "{}" "{}"]
  from step inv ok l show ?thesis
  proof (cases rule: net_stepE)
    case (Put off' d' og' bk' at' u')
    have l': "length d' \<le> limit" using net_invD(6)[OF inv Put(1)] by simp
    from arr(1)[OF Put(2)] obtain at v where at: "at = ?p \<and> v = og \<or> at = ?b \<and> v = bk"
      and e: "fst at' = fst at" "put_wire at' d' u' = put_wire at d v" by blast
    have a: "snd at + length d \<le> 8 * MB" using at fits_write(6,7)[OF f] by auto
    from put_wire_inject[OF e(2) l' fits_write(5)[OF f] l Put(5) a] e(1)
    have same: "at' = at" "d' = d" "u' = v" by (auto simp: prod_eq_iff)
    have tx: "ms_nbd_tx (nt_master s) = []" using u0 fin(1)[OF _ Put(2)] by blast
    have "Delivered (fst at) (put_wire at d v) \<notin> set es" using orderly_snoc(2)[OF ord] Put(2) same by simp
    from write_phase_put[OF inv w tx f at this] wait show ?thesis
      unfolding Put(2,6) same by (auto simp: linear_def take_put_def)
  next
    case (Get off' n' u' at')
    from arr(1)[OF Get(2)] put_get_differ[OF fits_write(5)[OF f] l] show ?thesis by (metis Pair_inject empty_iff insert_iff)
  next
    case (Ack u' off' d' v)
    have tx: "ms_nbd_tx (nt_master s) = []" using u0 fin(2)[OF _ Ack(1)] by blast
    have c: "cells (sys_of s') = cells (sys_of s)" by (rule cells_same) (simp add: Ack(5) take_answer_def)
    have "under_way (es @ [e]) s' A B' F" if "under_way es s A B' F" for A B' F
    proof -
      have "under_way (es @ [e]) s' A (B' - {write_response u'}) F"
        unfolding Ack(1) by (rule under_way_arrived(2)[OF that]) (simp_all add: Ack(5) take_answer_def)
      then show ?thesis by (rule under_way_mono) auto
    qed
    then have "write_phase off d og bk (es @ [e]) s'"
      using w S0 tx by (simp add: write_phase_def Let_def Ack(1) c) (auto simp: Ack(5) take_answer_def)
    then show ?thesis using wait by (auto simp: linear_def Ack(5) take_answer_def)
  next
    case (Data u' d' n' off')
    from arr(2)[OF Data(1)] responses_differ show ?thesis by (metis empty_iff insert_iff)
  next
    case (Poll_write og' bk' off' d' r ms)
    with u have same: "og' = og" "bk' = bk" by (auto simp: under_way_def)
    have tx: "ms_nbd_tx (nt_master s) = []" using u0 Poll_write(1) by (auto simp: under_way_def)
    show ?thesis
      unfolding Poll_write(5) same
      by (rule write_phase_poll[OF run ok l b w tx wait])
         (use Poll_write(3,4) orderly_snoc(3)[OF ord] same in auto)
  next
    case (Poll_read u')
    show ?thesis unfolding Poll_read(2,3) by (rule poll_read_linear[OF lin])
  next
    case (Reply r' buf rest)
    with wait have r': "r' = Write_req off d" by simp
    have tx: "ms_nbd_tx (nt_master s) = c_str ''Success''" and u1: "under_way es s {} {} {}" and h: "holds (spec_dev es) s"
      using u0 Reply(3) by auto
    with Reply(4) r' fits_write(4)[OF f] have buf: "buf = []" "rest = []" by simp_all
    have "under_way (es @ [e]) s' {} {} {}"
      by (rule under_way_record[OF u1]) (simp_all add: Reply(5) callback_return_def)
    moreover have "cells (sys_of s') = cells (sys_of s)"
      by (rule cells_same) (simp add: Reply(5) callback_return_def)
    ultimately have "idle_phase (es @ [e]) s'"
      using h outs by (simp add: idle_phase_def holds_def Reply(1) buf) (simp add: Reply(5) callback_return_def buf)
    then show ?thesis by (simp add: linear_def) (simp add: Reply(5) callback_return_def)
  qed (use wait orderly_snoc(3)[OF ord] in auto)
qed

lemma idle_phase_step:
  assumes step: "net_step h hm limit s e s'" and run: "net_run h hm limit es s"
    and ok: "hosts_ok h hm limit" and l: "limit < 2 ^ 31 - 41" and b: "5 + 4 * length es < 2 ^ 32"
    and ord: "orderly (es @ [e])" and wait: "nt_waiting s = None" and i: "idle_phase es s"
  shows "linear (es @ [e]) s'"
proof -
  note inv = net_inv_run[OF run ok l]
  from b have b1: "1 + 4 * length es < 2 ^ 32" by simp
  note ids = ids_ok_run[OF run ok l b1]
  have "unat (ms_counter (nt_master s)) + 4 < 2 ^ 32" using ids b by (simp add: ids_ok_def)
  note c = unat_counter[OF this]
  from i have u: "under_way es s {} {} {}" and lin: "linear es s" using wait by (simp_all add: idle_phase_def linear_def)
  note arr = arrives_under_way[OF step ord u]
  from step inv ok l show ?thesis
  proof (cases rule: net_stepE)
    case (Write off d c')
    let ?og = "uid_of h (c' + 2)" and ?bk = "uid_of h (c' + 3)"
    have "Delivered j (put_wire at d v) \<notin> set es" if "v = ?og \<or> v = ?bk" "snd at + length d \<le> 8 * MB" for j at v
      by (rule fresh_put[OF run ok l ids _ fits_write(5)[OF Write(4)] that(2)]) (use that(1) c Write(2) in auto)
    then have "write_phase off d ?og ?bk (es @ [e]) s'"
      unfolding Write(1) by (intro idle_step_write[OF inv i Write(4)]) (simp_all add: Write(2,5) issue_write_def Let_def)
    then show ?thesis by (auto simp: linear_def Write(5) issue_write_def Let_def)
  next
    case (Read off n c')
    let ?p = "raid_primary (unat off)" and ?u = "uid_of h (c' + 2)"
    have "read_phase off n ?u (es @ [e]) s'"
      unfolding Read(1) by (rule idle_step_read[OF i Read(4)]) (simp_all add: Read(2,5) issue_read_def Let_def)
    then show ?thesis by (auto simp: linear_def Read(5) issue_read_def Let_def)
  next
    case (Poll_write og bk off d r ms)
    with u show ?thesis by (auto simp: under_way_def)
  next
    case (Poll_read u')
    show ?thesis unfolding Poll_read(2,3) by (rule poll_read_linear[OF lin])
  qed (use wait orderly_snoc(3)[OF ord] arr in auto)
qed

lemma linear_step:
  assumes step: "net_step h hm limit s e s'" and run: "net_run h hm limit es s"
    and ok: "hosts_ok h hm limit" and l: "limit < 2 ^ 31 - 41" and b: "5 + 4 * length es < 2 ^ 32"
    and ord: "orderly (es @ [e])" and lin: "linear es s"
  shows "linear (es @ [e]) s'"
proof (cases "nt_waiting s")
  case None
  then have "idle_phase es s" using lin by (simp add: linear_def)
  from idle_phase_step[OF step run ok l b ord None this] show ?thesis .
next
  case (Some r)
  show ?thesis
  proof (cases r)
    case (Read_req off n)
    with Some lin obtain u where "read_phase off n u es s" by (auto simp: linear_def)
    from read_phase_step[OF step net_inv_run[OF run ok l] ok l ord Some[unfolded Read_req] this] show ?thesis .
  next
    case (Write_req off d)
    with Some lin obtain og bk where "write_phase off d og bk es s" by (auto simp: linear_def)
    from write_phase_step[OF step run ok l _ ord Some[unfolded Write_req] this] b show ?thesis by simp
  qed
qed

lemma linear_run:
  assumes "net_run h hm limit es s" and ok: "hosts_ok h hm limit" and l: "limit < 2 ^ 31 - 41"
  shows "1 + 4 * length es < 2 ^ 32 \<Longrightarrow> orderly es \<Longrightarrow> linear es s"
  using assms(1)
proof induction
  case (Start fs)
  have fs: "\<forall>name bytes. fs name = Some bytes \<longrightarrow> length bytes < 2 ^ 63" using Start(1) by (simp add: files_ok_def)
  have "cells (sys_of (net_start fs)) = cells (start fs)"
    by (simp add: cells_def sys_of_def net_start_def fun_eq_iff)
  then have "holds (\<lambda>_. 0) (net_start fs)"
    using mirrored_start[OF fs] by (simp add: holds_def abs_device_of)
  then have "idle_phase [] (net_start fs)"
    by (simp add: idle_phase_def under_way_def) (simp add: net_start_def start_def master_init_def)
  then show ?case by (simp add: linear_def) (simp add: net_start_def)
next
  case (Step es s e s')
  from linear_step[OF Step(2,1) ok l _ Step(5)] Step(3,4) orderly_snoc(1)[OF Step(5)] show ?case by simp
qed

end
