(* ===== verification/Network_Correct.thy ===== *)
theory Network_Correct
  imports Network_Linear
begin

text \<open>
  What the program guarantees over the network of \<open>Network\<close>, and what it does not.
\<close>

subsection \<open>Runs that complete\<close>

text \<open>The events of a write and of a read when each datagram arrives once.\<close>

definition write_events :: "u64 \<Rightarrow> byte list \<Rightarrow> uid \<Rightarrow> uid \<Rightarrow> event list" where
  "write_events off d og bk =
     [Wrote off d og bk,
      Delivered (fst (raid_primary (unat off))) (put_wire (raid_primary (unat off)) d og),
      Delivered (fst (raid_backup (unat off))) (put_wire (raid_backup (unat off)) d bk),
      Answered (write_response og), Answered (write_response bk),
      Polled (WriteAIFunc og bk) True (c_str ''Success'')]"

definition read_events :: "u64 \<Rightarrow> u32 \<Rightarrow> uid \<Rightarrow> byte list \<Rightarrow> event list" where
  "read_events off n u d =
     [Asked off n u, Delivered (fst (raid_primary (unat off))) (get_wire (raid_primary (unat off)) n u),
      Answered (data_response u d n)]"

lemma write_reaches_success:
  assumes run: "net_run h hm limit es s" and ok: "hosts_ok h hm limit" and l: "limit < 2 ^ 31 - 41"
    and wait: "nt_waiting s = None" and f: "fits limit (Write_req off d)"
    and c: "c = ms_counter (nt_master s)"
  shows "\<exists>s'. net_run h hm limit (es @ write_events off d (uid_of h (c + 2)) (uid_of h (c + 3))) s' \<and>
    nt_waiting s' = Some (Write_req off d) \<and> ms_counter (nt_master s') = c + 6 \<and>
    ms_nbd_tx (nt_master s') = ms_nbd_tx (nt_master s) @ c_str ''Success''"
proof -
  let ?og = "uid_of h (c + 2)" and ?bk = "uid_of h (c + 3)"
  let ?p = "raid_primary (unat off)" and ?b = "raid_backup (unat off)"
  let ?e1 = "Wrote off d ?og ?bk" and ?e2 = "Delivered (fst ?p) (put_wire ?p d ?og)"
    and ?e3 = "Delivered (fst ?b) (put_wire ?b d ?bk)"
  define s1 where "s1 = issue_write h off d s"
  define s2 where "s2 = take_put ?p d ?og s1"
  define s3 where "s3 = take_put ?b d ?bk s2"
  define s4 where "s4 = take_answer ?og [] s3"
  define s5 where "s5 = take_answer ?bk [] s4"
  note defs = s1_def s2_def s3_def s4_def s5_def issue_write_def take_put_def take_answer_def Let_def
  note inv = net_inv_run[OF _ ok l]
  have r1: "net_run h hm limit (es @ [?e1]) s1"
    using Step[OF run step_write[OF inv[OF run] ok l wait f]] by (simp add: s1_def c)
  have r2: "net_run h hm limit ((es @ [?e1]) @ [?e2]) s2"
    unfolding s2_def by (rule Step[OF r1 step_put[OF inv[OF r1] ok l]]) auto
  have r3: "net_run h hm limit (((es @ [?e1]) @ [?e2]) @ [?e3]) s3"
    unfolding s3_def by (rule Step[OF r2 step_put[OF inv[OF r2] ok l]]) auto
  have r4: "net_run h hm limit ((((es @ [?e1]) @ [?e2]) @ [?e3]) @ [Answered (write_response ?og)]) s4"
    unfolding s4_def by (rule Step[OF r3 step_ack[OF inv[OF r3] ok]]) (simp add: s3_def s2_def take_put_def)
  have r5: "net_run h hm limit (((((es @ [?e1]) @ [?e2]) @ [?e3]) @ [Answered (write_response ?og)]) @
      [Answered (write_response ?bk)]) s5"
    unfolding s5_def by (rule Step[OF r4 step_ack[OF inv[OF r4] ok]]) (simp add: s4_def s3_def take_put_def take_answer_def)
  have ne: "GetUniqueCounter ?og \<noteq> GetUniqueCounter ?bk" by simp
  have a: "GetUniqueCounter ?og \<in> answered (ms_watch (nt_master s5))" "GetUniqueCounter ?bk \<in> answered (ms_watch (nt_master s5))"
    by (simp_all add: s5_def s4_def take_answer_def rm.view_respond)
  obtain w where p: "ai_call (WriteAIFunc ?og ?bk) (nt_master s5) =
      Inr (True, (nt_master s5)\<lparr>ms_watch := w, ms_nbd_tx := ms_nbd_tx (nt_master s5) @ c_str ''Success''\<rparr>)"
    using a by (simp add: ai_call_def WriteAIFunc_call_spec[OF ne] write_poll_spec_def Let_def)
  have "WriteAIFunc ?og ?bk \<in> set (nt_polls s5)" by (simp add: defs c)
  from Step[OF r5 Poll[OF this p]] show ?thesis
    by (intro exI conjI) (simp_all add: write_events_def net_poll_def, simp_all add: defs c)
qed

lemma read_reaches_answer:
  assumes run: "net_run h hm limit es s" and ok: "hosts_ok h hm limit" and l: "limit < 2 ^ 31 - 41"
    and wait: "nt_waiting s = None" and f: "fits limit (Read_req off n)"
    and c: "c = ms_counter (nt_master s)" and D: "D = read_run (raid_primary (unat off)) (unat n) s"
  shows "\<exists>s'. net_run h hm limit (es @ read_events off n (uid_of h (c + 2)) D) s' \<and>
    nt_waiting s' = Some (Read_req off n) \<and> ms_counter (nt_master s') = c + 4 \<and>
    ms_nbd_tx (nt_master s') = ms_nbd_tx (nt_master s) @ D \<and>
    data_response (uid_of h (c + 2)) D n \<in> nt_back s'"
proof -
  let ?u = "uid_of h (c + 2)" and ?p = "raid_primary (unat off)"
  let ?e1 = "Asked off n ?u" and ?e2 = "Delivered (fst ?p) (get_wire ?p n ?u)"
  define s1 where "s1 = issue_read h off n s"
  define s2 where "s2 = take_get ?p n ?u s1"
  define s3 where "s3 = take_answer ?u D s2"
  note inv = net_inv_run[OF _ ok l]
  have r1: "net_run h hm limit (es @ [?e1]) s1"
    using Step[OF run step_read[OF inv[OF run] ok l wait f]] by (simp add: s1_def c)
  have r2: "net_run h hm limit ((es @ [?e1]) @ [?e2]) s2"
    unfolding s2_def by (rule Step[OF r1 step_get[OF inv[OF r1] ok l]]) auto
  have "read_run ?p (unat n) s1 = D" by (simp add: D read_run_def s1_def issue_read_def Let_def)
  then have x: "data_response ?u D n \<in> nt_back s2" by (simp add: s2_def take_get_def)
  have len: "length D = unat n" by (simp add: D read_run_def)
  from Step[OF r2 step_data[OF inv[OF r2] ok l x len fits_read(4)[OF f]]]
  have "net_run h hm limit (es @ read_events off n ?u D) s3" by (simp add: read_events_def s3_def)
  moreover have "data_response ?u D n \<in> nt_back s3" using x by (simp add: s3_def take_answer_def)
  moreover have "nt_waiting s3 = Some (Read_req off n)" "ms_counter (nt_master s3) = c + 4"
    "ms_nbd_tx (nt_master s3) = ms_nbd_tx (nt_master s) @ D"
    by (simp_all add: s3_def s2_def s1_def take_get_def take_answer_def issue_read_def Let_def c)
  ultimately show ?thesis by blast
qed

text \<open>Whatever is in the stream, the callback takes its length of it and returns.\<close>

lemma write_returns:
  assumes run: "net_run h hm limit es s" and ok: "hosts_ok h hm limit" and l: "limit < 2 ^ 31 - 41"
    and wait: "nt_waiting s = Some (Write_req off d)" and tx: "ms_nbd_tx (nt_master s) \<noteq> []"
  shows "net_run h hm limit (es @ [Replied []]) (callback_return (drop (length d) (ms_nbd_tx (nt_master s))) s)"
proof -
  have n: "unat (of_nat (length d) :: u32) = length d"
    by (rule length_u32[OF fits_write(5)[OF net_invD(10)[OF net_inv_run[OF run ok l] wait]] l])
  have "length d < 2 ^ 31" using fits_write(5)[OF net_invD(10)[OF net_inv_run[OF run ok l] wait]] l by simp
  with n Reply_write[OF wait tx callback_returns(1)[OF tx]] show ?thesis
    by (intro Step[OF run]) (simp add: net_reply_def callback_return_def)
qed

lemma read_returns:
  assumes run: "net_run h hm limit es s" and ok: "hosts_ok h hm limit" and l: "limit < 2 ^ 31 - 41"
    and wait: "nt_waiting s = Some (Read_req off n)" and tx: "unat n \<le> length (ms_nbd_tx (nt_master s))"
  shows "net_run h hm limit (es @ [Replied (take (unat n) (ms_nbd_tx (nt_master s)))])
    (callback_return (drop (unat n) (ms_nbd_tx (nt_master s))) s)"
proof -
  note f = net_invD(10)[OF net_inv_run[OF run ok l] wait]
  have n: "unat n < 2 ^ 31" using fits_read(4)[OF f] l by simp
  have t: "ms_nbd_tx (nt_master s) \<noteq> []" using tx fits_read(3)[OF f] by auto
  have "net_step h hm limit s (Replied (take (unat n) (ms_nbd_tx (nt_master s))))
      (callback_return (drop (unat n) (ms_nbd_tx (nt_master s))) s)"
    using Reply_read[OF wait t callback_returns(2)[OF t n length_new_char]] tx
    by (simp add: net_reply_def callback_return_def)
  then show ?thesis by (rule Step[OF run])
qed

subsection \<open>A concrete run\<close>

abbreviation demo_run :: "event list \<Rightarrow> network \<Rightarrow> bool" where
  "demo_run \<equiv> net_run demo_host (\<lambda>_. demo_host) 4096"

abbreviation demo_data :: "byte list" where
  "demo_data \<equiv> [1, 2, 3, 4, 5, 6, 7, 8]"

lemma demo_ok: "hosts_ok demo_host (\<lambda>_. demo_host) 4096" "(4096::nat) < 2 ^ 31 - 41"
  by (simp_all add: hosts_ok_demo)

lemma demo_start: "demo_run [] (net_start Map.empty)" "nt_waiting (net_start Map.empty) = None"
  "ms_counter (nt_master (net_start Map.empty)) = 1" "ms_nbd_tx (nt_master (net_start Map.empty)) = []"
  using Start[of Map.empty]
  by (simp_all add: files_ok_def net_start_def start_def master_init_def m_static_counter_init_def)

lemma demo_fits:
  "fits 4096 (Write_req 4096 demo_data)" "fits 4096 (Read_req 4096 8)" "fits 4096 (Read_req 0 8)"
  by (simp_all add: raid.in_stripe_def) (simp_all add: raid_capacity_val MINION_SIZE_val)

abbreviation demo_write :: "event list" where
  "demo_write \<equiv> write_events 4096 demo_data (uid_of demo_host 3) (uid_of demo_host 4)"

lemma demo_written:
  obtains s where "demo_run demo_write s" and "nt_waiting s = Some (Write_req 4096 demo_data)"
    and "ms_counter (nt_master s) = 7" and "ms_nbd_tx (nt_master s) = c_str ''Success''"
  using write_reaches_success[OF demo_start(1) demo_ok demo_start(2) demo_fits(1) refl] demo_start(3,4) by auto

lemma demo_idle:
  obtains s where "demo_run (demo_write @ [Replied []]) s" and "nt_waiting s = None"
    and "ms_counter (nt_master s) = 7" and "ms_nbd_tx (nt_master s) = []"
proof -
  obtain s where s: "demo_run demo_write s" "nt_waiting s = Some (Write_req 4096 demo_data)"
    "ms_counter (nt_master s) = 7" "ms_nbd_tx (nt_master s) = c_str ''Success''" by (rule demo_written)
  have "ms_nbd_tx (nt_master s) \<noteq> []" by (simp add: s(4) c_str_def)
  from that[OF write_returns[OF s(1) demo_ok s(2) this]] s show thesis by (simp add: callback_return_def)
qed

text \<open>The same run with a read of the bytes after it.\<close>

lemma demo_read:
  obtains s D where "demo_run (demo_write @ [Replied []] @ read_events 4096 8 (uid_of demo_host 9) D) s"
    and "nt_waiting s = Some (Read_req 4096 8)" and "ms_counter (nt_master s) = 11"
    and "ms_nbd_tx (nt_master s) = D" and "length D = 8"
    and "data_response (uid_of demo_host 9) D 8 \<in> nt_back s"
proof -
  obtain s where s: "demo_run (demo_write @ [Replied []]) s" "nt_waiting s = None"
    "ms_counter (nt_master s) = 7" "ms_nbd_tx (nt_master s) = []" by (rule demo_idle)
  have "length (read_run (raid_primary (unat (4096 :: u64))) (unat (8 :: u32)) s) = 8" by (simp add: read_run_def)
  with that read_reaches_answer[OF s(1) demo_ok s(2) demo_fits(2) refl refl] s(3,4) show thesis by auto
qed

lemma demo_read_idle:
  obtains s D where "demo_run (demo_write @ [Replied []] @ read_events 4096 8 (uid_of demo_host 9) D @ [Replied D]) s"
    and "nt_waiting s = None" and "ms_counter (nt_master s) = 11" and "ms_nbd_tx (nt_master s) = []" and "length D = 8"
    and "data_response (uid_of demo_host 9) D 8 \<in> nt_back s"
proof -
  obtain s D where s: "demo_run (demo_write @ [Replied []] @ read_events 4096 8 (uid_of demo_host 9) D) s"
    "nt_waiting s = Some (Read_req 4096 8)" "ms_counter (nt_master s) = 11" "ms_nbd_tx (nt_master s) = D" "length D = 8"
    "data_response (uid_of demo_host 9) D 8 \<in> nt_back s" by (rule demo_read)
  have "unat (8 :: u32) \<le> length (ms_nbd_tx (nt_master s))" using s by simp
  from that[OF _ _ _ _ s(5), of "callback_return [] s"] read_returns[OF s(1) demo_ok s(2) this] s
  show thesis by (simp add: callback_return_def)
qed

lemma uid_of_inject: "uid_of h c = uid_of h c' \<longleftrightarrow> c = c'"
  by (metis uid_of_counter(1))

lemma demo_orderly:
  assumes "length D = 8"
  shows "orderly (demo_write @ [Replied []] @ read_events 4096 8 (uid_of demo_host 9) D @ [Replied D])"
proof -
  have ids: "uid_of demo_host 3 \<noteq> uid_of demo_host 4" by (simp add: uid_of_inject)
  have "MinionWriteMsg (uid_of demo_host 3) True \<noteq> MinionWriteMsg (uid_of demo_host 4) True"
    using ids by (auto simp: msg_ctor_defs)
  then have 1: "write_response (uid_of demo_host 3) \<noteq> write_response (uid_of demo_host 4)"
    using minion_write_codec.wire_inject by blast
  have 2: "fst (raid_primary 4096) \<noteq> fst (raid_backup 4096)" by (simp add: raid.nodes_differ raid_capacity_val)
  have 3: "put_wire at demo_data u \<noteq> get_wire at' 8 v" for at u at' v by (rule put_get_differ[of _ 4096]) simp_all
  have "c_str ''Success'' \<noteq> []" by (simp add: c_str_def)
  with 1 2 3 responses_differ show ?thesis by (simp add: orderly_def write_events_def read_events_def)
qed

lemma demo_requests:
  "fst (dev_run (requests (demo_write @ [Replied []] @ read_events 4096 8 u D @ [Replied D'])) (\<lambda>_. 0)) = [demo_data]"
  by (simp add: write_events_def read_events_def dev_read_def dev_write_def upt_conv_Cons nth_Cons')

text \<open>The answer of that read arrives a second time, when nothing is outstanding.\<close>

lemma demo_duplicate:
  obtains s where "demo_run (demo_write @ [Replied []] @ read_events 4096 8 (uid_of demo_host 9) demo_data @
      [Replied demo_data, Answered (data_response (uid_of demo_host 9) demo_data 8)]) s"
    and "nt_waiting s = None" and "ms_nbd_tx (nt_master s) = demo_data"
proof -
  obtain s D where s: "demo_run (demo_write @ [Replied []] @ read_events 4096 8 (uid_of demo_host 9) D @ [Replied D]) s"
    (is "demo_run ?es s") "nt_waiting s = None" "ms_nbd_tx (nt_master s) = []" "length D = 8"
    "data_response (uid_of demo_host 9) D 8 \<in> nt_back s" by (rule demo_read_idle)
  have b: "1 + 4 * length ?es < 2 ^ 32" by (simp add: write_events_def read_events_def)
  have "linear ?es s" by (rule linear_run[OF s(1) demo_ok b demo_orderly[OF s(4)]])
  then have "read_results ?es = [demo_data]" using s(2) demo_requests by (simp add: linear_def idle_phase_def)
  then have D: "D = demo_data" using s(4) by (auto simp: write_events_def read_events_def split: if_splits)
  have "demo_run (?es @ [Answered (data_response (uid_of demo_host 9) D 8)]) (take_answer (uid_of demo_host 9) D s)"
    by (rule Step[OF s(1) step_data[OF net_inv_run[OF s(1) demo_ok] demo_ok s(5)]]) (simp_all add: s(4))
  with that[of "take_answer (uid_of demo_host 9) D s"] s(2,3) show thesis by (simp add: take_answer_def D)
qed

lemma previous_stripe: "(q::nat) < 3 \<Longrightarrow> ((q + 2) mod 3 + 1) mod 3 = q" "(q::nat) < 3 \<Longrightarrow> (q + 2) mod 3 \<noteq> q + 1"
  by presburger+

subsection \<open>Properties\<close>

text \<open>
  C3: over a network that loses, duplicates, delays and reorders datagrams at will, and with
  minions that restart, the master tells the block device "Success" for a write only after
  both minions that the placement names have handled that write, as long as fewer than
  \<open>2 ^ 32\<close> identifiers have been drawn.
\<close>

theorem success_means_two_copies:
  assumes "net_run h hm limit (es @ [Polled (WriteAIFunc og bk) r (c_str ''Success'')]) s"
    and "hosts_ok h hm limit" and "limit < 2 ^ 31 - 41" and "1 + 4 * length es < 2 ^ 32"
  shows "\<exists>off d. Wrote off d og bk \<in> set es \<and> fst (raid_primary (unat off)) \<noteq> fst (raid_backup (unat off)) \<and>
    Delivered (fst (raid_primary (unat off))) (put_wire (raid_primary (unat off)) d og) \<in> set es \<and>
    Delivered (fst (raid_backup (unat off))) (put_wire (raid_backup (unat off)) d bk) \<in> set es"
proof -
  from assms(1) obtain s0 where run: "net_run h hm limit es s0"
    and step: "net_step h hm limit s0 (Polled (WriteAIFunc og bk) r (c_str ''Success'')) s"
    by (rule net_run_snocE) auto
  note inv = net_inv_run[OF run assms(2,3)]
  note ids = ids_ok_run[OF run assms(2,3,4)]
  from step inv assms(2,3) obtain off d ms where w: "Wrote off d og bk \<in> set es"
    and p: "write_poll_spec og bk (nt_master s0) = (r, ms)"
    and t: "drop (length (ms_nbd_tx (nt_master s0))) (ms_nbd_tx ms) = c_str ''Success''"
    by (cases rule: net_stepE) auto
  obtain u v where u: "handled es u" "GetUniqueCounter u = GetUniqueCounter og"
    and v: "handled es v" "GetUniqueCounter v = GetUniqueCounter bk"
    using net_invD(11)[OF inv] success_text[OF p t] by metis
  have "fits limit (Write_req off d)" using net_invD(6)[OF inv w] by simp
  from placement_nodes(3)[OF fits_write(1)[OF this]]
    handled_write(1)[OF ids inv w u(1) u(2)] handled_write(2)[OF ids inv w v(1) v(2)] w
  show ?thesis by blast
qed

theorem success_means_two_copies_witness:
  "\<exists>es s. demo_run (es @ [Polled (WriteAIFunc (uid_of demo_host 3) (uid_of demo_host 4)) True (c_str ''Success'')]) s \<and>
    (\<exists>off d i j. Wrote off d (uid_of demo_host 3) (uid_of demo_host 4) \<in> set es \<and> i \<noteq> j \<and>
      (\<exists>x. Delivered i x \<in> set es) \<and> (\<exists>y. Delivered j y \<in> set es))"
proof -
  obtain s where "demo_run demo_write s" by (rule demo_written)
  then have s: "demo_run (butlast demo_write @
      [Polled (WriteAIFunc (uid_of demo_host 3) (uid_of demo_host 4)) True (c_str ''Success'')]) s"
    by (simp add: write_events_def)
  have "1 + 4 * length (butlast demo_write) < 2 ^ 32" by (simp add: write_events_def)
  from success_means_two_copies[OF s demo_ok this] s show ?thesis by blast
qed

text \<open>
  C2: in every run of the asynchronous system in which no datagram arrives twice, no minion
  restarts and no write is given up, whatever the network loses, delays or reorders: the reads
  that have returned returned, in order, what a 12 MB device of zeros returns for the requests
  so far; and whenever no request is outstanding all of them have, every byte is on two
  minions and the device holds what the writes left.
\<close>

theorem network_is_linearizable:
  assumes "net_run h hm limit es s" and "orderly es"
    and "hosts_ok h hm limit" and "limit < 2 ^ 31 - 41" and "1 + 4 * length es < 2 ^ 32"
  shows "(\<exists>pending. fst (dev_run (requests es) (\<lambda>_. 0)) = read_results es @ pending) \<and>
    (nt_waiting s = None \<longrightarrow> read_results es = fst (dev_run (requests es) (\<lambda>_. 0)) \<and>
       raid.mirrored (cells (sys_of s)) \<and> abs_device (sys_of s) = snd (dev_run (requests es) (\<lambda>_. 0)))"
  using linear_run[OF assms(1,3,4,5,2)]
  by (auto simp: linear_def idle_phase_def read_phase_def write_phase_def holds_def abs_device_of Let_def
      split: option.splits request.splits)

theorem network_is_linearizable_witness:
  "\<exists>es s. demo_run es s \<and> requests es = [Write_req 4096 demo_data, Read_req 4096 8] \<and> read_results es = [demo_data] \<and>
    raid.mirrored (cells (sys_of s))"
proof -
  obtain s D where s: "demo_run (demo_write @ [Replied []] @ read_events 4096 8 (uid_of demo_host 9) D @ [Replied D]) s"
    (is "demo_run ?es s") "nt_waiting s = None" "length D = 8" by (rule demo_read_idle)
  have b: "1 + 4 * length ?es < 2 ^ 32" by (simp add: write_events_def read_events_def)
  have r: "requests ?es = [Write_req 4096 demo_data, Read_req 4096 8]" by (simp add: write_events_def read_events_def)
  from network_is_linearizable[OF s(1) demo_orderly[OF s(3)] demo_ok b] s(1,2) r show ?thesis
    unfolding demo_requests by blast
qed

text \<open>
  C32: one duplicated answer is enough to break the device. There is a run of the asynchronous
  system, with no datagram handled twice, no restart and no write given up, after which one answer
  \<open>x\<close> that the master has already had arrives a second time, and nothing else does: then a read of
  bytes nobody has written returns the bytes of another place, and a write returns to the kernel
  at once, before any datagram of it has arrived anywhere.
\<close>

theorem duplicate_answer_breaks_device:
  "\<exists>es x. orderly es \<and> Answered x \<in> set es \<and>
    (\<exists>u s. demo_run (es @ [Answered x, Asked 0 8 u, Replied demo_data]) s \<and> nt_waiting s = None \<and>
      orderly (es @ [Asked 0 8 u, Replied demo_data]) \<and>
      fst (dev_run (requests (es @ [Asked 0 8 u, Replied demo_data])) (\<lambda>_. 0)) = [demo_data, [0, 0, 0, 0, 0, 0, 0, 0]] \<and>
      read_results (es @ [Answered x, Asked 0 8 u, Replied demo_data]) = [demo_data, demo_data]) \<and>
    (\<exists>og bk s. demo_run (es @ [Answered x, Wrote 4096 demo_data og bk, Replied []]) s \<and> nt_waiting s = None \<and>
      orderly (es @ [Wrote 4096 demo_data og bk, Replied []]))"
proof -
  let ?x = "data_response (uid_of demo_host 9) demo_data 8"
  let ?es = "demo_write @ [Replied []] @ read_events 4096 8 (uid_of demo_host 9) demo_data @ [Replied demo_data]"
  obtain s where s: "demo_run (?es @ [Answered ?x]) s" "nt_waiting s = None" "ms_nbd_tx (nt_master s) = demo_data"
    using demo_duplicate by auto
  note inv = net_inv_run[OF _ demo_ok]
  let ?c = "ms_counter (nt_master s)"
  let ?R = "Asked 0 8 (uid_of demo_host (?c + 2))"
    and ?W = "Wrote 4096 demo_data (uid_of demo_host (?c + 2)) (uid_of demo_host (?c + 3))"
  have r1: "demo_run ((?es @ [Answered ?x]) @ [?R]) (issue_read demo_host 0 8 s)"
    by (rule Step[OF s(1) step_read[OF inv[OF s(1)] demo_ok s(2) demo_fits(3)]])
  have w1: "demo_run ((?es @ [Answered ?x]) @ [?W]) (issue_write demo_host 4096 demo_data s)"
    by (rule Step[OF s(1) step_write[OF inv[OF s(1)] demo_ok s(2) demo_fits(1)]])
  have "nt_waiting (issue_read demo_host 0 8 s) = Some (Read_req 0 8)"
    and "unat (8 :: u32) \<le> length (ms_nbd_tx (nt_master (issue_read demo_host 0 8 s)))"
    by (simp_all add: issue_read_def Let_def s(3))
  from read_returns[OF r1 demo_ok this]
  have r2: "demo_run (?es @ [Answered ?x, ?R, Replied demo_data]) (callback_return [] (issue_read demo_host 0 8 s))"
    by (simp add: issue_read_def Let_def s(3))
  have "nt_waiting (issue_write demo_host 4096 demo_data s) = Some (Write_req 4096 demo_data)"
    and "ms_nbd_tx (nt_master (issue_write demo_host 4096 demo_data s)) \<noteq> []"
    by (simp_all add: issue_write_def Let_def s(3))
  from write_returns[OF w1 demo_ok this]
  have w2: "demo_run (?es @ [Answered ?x, ?W, Replied []]) (callback_return [] (issue_write demo_host 4096 demo_data s))"
    by (simp add: issue_write_def Let_def s(3))
  have o: "orderly ?es" by (rule demo_orderly) simp
  then have "orderly (?es @ [?R, Replied demo_data])" "orderly (?es @ [?W, Replied []])"
    unfolding orderly_def by simp_all
  moreover have "Answered ?x \<in> set ?es" by (simp add: read_events_def)
  moreover have "read_results (?es @ [Answered ?x, ?R, Replied demo_data]) = [demo_data, demo_data]"
    by (simp add: write_events_def read_events_def)
  moreover have "fst (dev_run (requests (?es @ [?R, Replied demo_data])) (\<lambda>_. 0)) = [demo_data, [0, 0, 0, 0, 0, 0, 0, 0]]"
    by (simp add: write_events_def read_events_def dev_read_def dev_write_def upt_conv_Cons nth_Cons')
  moreover have "nt_waiting (callback_return [] x) = None" for x by (simp add: callback_return_def)
  ultimately show ?thesis using r2 w2 o by blast
qed

text \<open>
  C7: no datagram that the network can bring, at any time and in any order, makes a handler
  throw or leave its memory: in every state of every run each minion handles each datagram
  ever addressed to it, the master each response ever sent, the scheduler each poll, and an
  idle block device can issue any request that fits.
\<close>

theorem network_never_fails:
  assumes "net_run h hm limit es s" and "hosts_ok h hm limit" and "limit < 2 ^ 31 - 41"
  shows "(\<forall>i x. i < 3 \<and> (Raid01_ctor ! i, x) \<in> nt_wire s \<longrightarrow>
      (\<exists>mn. minion_handle (hm i) ((nt_minions s ! i)\<lparr>mn_rx := [x]\<rparr>) = Inr mn)) \<and>
    (\<forall>x. x \<in> nt_back s \<longrightarrow> (\<exists>ms. master_udp_ready h ((nt_master s)\<lparr>ms_udp_rx := [x]\<rparr>) = Inr ms)) \<and>
    (\<forall>f. f \<in> set (nt_polls s) \<longrightarrow> (\<exists>r ms. ai_call f (nt_master s) = Inr (r, ms))) \<and>
    (\<forall>r. nt_waiting s = None \<and> fits limit r \<longrightarrow> (\<exists>e s'. net_step h hm limit s e s' \<and> nt_waiting s' = Some r))"
proof (intro conjI allI impI)
  note inv = net_inv_run[OF assms]
  show "\<exists>mn. minion_handle (hm i) ((nt_minions s ! i)\<lparr>mn_rx := [x]\<rparr>) = Inr mn"
    if "i < 3 \<and> (Raid01_ctor ! i, x) \<in> nt_wire s" for i x
    using deliver_succeeds[OF inv assms(2,3)] that by blast
  show "\<exists>ms. master_udp_ready h ((nt_master s)\<lparr>ms_udp_rx := [x]\<rparr>) = Inr ms" if "x \<in> nt_back s" for x
    using answer_succeeds[OF inv assms(2,3) that] .
  show "\<exists>r ms. ai_call f (nt_master s) = Inr (r, ms)" if "f \<in> set (nt_polls s)" for f
    using poll_succeeds[OF inv that] .
  show "\<exists>e s'. net_step h hm limit s e s' \<and> nt_waiting s' = Some r" if "nt_waiting s = None \<and> fits limit r" for r
    using step_write[OF inv assms(2,3)] step_read[OF inv assms(2,3)] that
    by (cases r) (fastforce simp: issue_write_def issue_read_def Let_def)+
qed

theorem network_never_fails_witness:
  "\<exists>es s. demo_run es s \<and> data_response (uid_of demo_host 9) demo_data 8 \<in> nt_back s \<and>
    (\<exists>ms. master_udp_ready demo_host ((nt_master s)\<lparr>ms_udp_rx := [data_response (uid_of demo_host 9) demo_data 8]\<rparr>) = Inr ms)"
proof -
  obtain s where s: "demo_run (demo_write @ [Replied []] @ read_events 4096 8 (uid_of demo_host 9) demo_data @
      [Replied demo_data, Answered (data_response (uid_of demo_host 9) demo_data 8)]) s" by (rule demo_duplicate)
  have "data_response (uid_of demo_host 9) demo_data 8 \<in> nt_back s"
    by (rule answered_sent[OF s]) simp
  with s network_never_fails[OF s demo_ok] show ?thesis by blast
qed

text \<open>
  C6: data are never damaged or misplaced on the way: at any time, every byte in the 8 MB of
  a minion is zero or was written, by a write of the run, at the offset that this place stores
  a copy of; and every answer to a read carries, for each offset the read asked for, only such
  a byte.
\<close>

theorem bytes_have_an_origin:
  assumes "net_run h hm limit es s" and "hosts_ok h hm limit" and "limit < 2 ^ 31 - 41"
  shows "(\<forall>i a. i < 3 \<and> a < 8 * MB \<longrightarrow> origin es (i, a) (bf_data (mn_store (nt_minions s ! i)) a)) \<and>
    (\<forall>x. x \<in> nt_back s \<longrightarrow> (\<exists>u. x = write_response u) \<or>
      (\<exists>off n u d. Asked off n u \<in> set es \<and> x = data_response u d n \<and> length d = unat n \<and>
        (\<forall>k. k < unat n \<longrightarrow> origin es (raid_primary (unat off + k)) (d ! k))))"
  using provenance_run[OF assms] unfolding stores_ok_def data_ok_def by blast

theorem bytes_have_an_origin_witness:
  "\<exists>es s. demo_run es s \<and> origin es (0, 4100) (bf_data (mn_store (nt_minions s ! 0)) 4100) \<and>
    origin es (1, 4198404) (bf_data (mn_store (nt_minions s ! 1)) 4198404)"
proof -
  obtain s where s: "demo_run demo_write s" by (rule demo_written)
  have "(4100 :: nat) < 8 * MB" "(4198404 :: nat) < 8 * MB" by (simp_all add: size_consts)
  with bytes_have_an_origin[OF s demo_ok] s show ?thesis by (metis less_numeral_extra(1) numeral_3_eq_3 one_less_numeral_iff semiring_norm(77) zero_less_numeral)
qed

text \<open>
  C33: a write that crosses a 4 MB stripe, which \<open>OffsetToProxy\<close> and the command let through,
  is sent whole to the minions of its first byte, and the byte at the end of the stripe lands
  in the cell that holds the backup of another offset: the copy kept there is overwritten.
\<close>

theorem crossing_write_overwrites_backup:
  assumes "unat off < raid_capacity" and "MINION_SIZE < unat off mod MINION_SIZE + length d" and "length d \<le> MINION_SIZE"
    and "hosts_ok h hm limit" and "limit < 2 ^ 31 - 41" and "length d \<le> limit" and "minion_ok mn"
  shows "\<exists>poll ms' x mn' off' k. WriteCommand_Execute h (WriteArgsKey WRITE_CMD_KEY off (of_nat (length d)) (Some d)) ms = Inr (poll, ms') \<and>
    (Raid01_ctor ! fst (raid_primary (unat off)), x) \<in> set (ms_udp_tx ms') \<and>
    minion_handle (hm i) (mn\<lparr>mn_rx := [x]\<rparr>) = Inr mn' \<and>
    k < length d \<and> off' < raid_capacity \<and> off' \<noteq> unat off + k \<and>
    fst (raid_backup off') = fst (raid_primary (unat off)) \<and>
    bf_data (mn_store mn') (snd (raid_backup off')) = d ! k"
proof -
  let ?p = "raid_primary (unat off)" and ?u = "uid_of h (ms_counter ms)"
  let ?k = "MINION_SIZE - unat off mod MINION_SIZE" and ?off' = "((unat off div MINION_SIZE + 2) mod 3) * MINION_SIZE"
  have n: "unat (of_nat (length d) :: u32) = length d" by (rule length_u32[OF assms(6,5)])
  have n1: "unat (of_nat (length d) :: u32) < 2 ^ 31 - 41" using n assms(5,6) by simp
  have udp: "41 + unat (of_nat (length d) :: u32) \<le> h_udp_max h"
    using assms(4,6) unfolding n hosts_ok_def by linarith
  have m: "unat off mod MINION_SIZE < MINION_SIZE" by (simp add: MINION_SIZE_val)
  have a: "snd ?p + length d \<le> 8 * MB" using m assms(3) by (simp add: raid_primary_def size_consts)
  have q: "unat off div MINION_SIZE < 3" by (rule raid_node_bound[OF assms(1)])
  have k: "?k < length d" using assms(2) m by linarith
  have backup: "raid_backup ?off' = (unat off div MINION_SIZE, MINION_SIZE)"
    using previous_stripe(1)[OF q] m by (simp add: raid_backup_def del: mod_less_divisor)
  have "unat off + ?k = unat off div MINION_SIZE * MINION_SIZE + MINION_SIZE"
    using m div_mult_mod_eq[of "unat off" MINION_SIZE] by linarith
  then have next_byte: "unat off + ?k = (unat off div MINION_SIZE + 1) * MINION_SIZE"
    by (simp only: add_mult_distrib mult_1)
  have "(unat off div MINION_SIZE + 2) mod 3 \<noteq> unat off div MINION_SIZE + 1" by (rule previous_stripe(2)[OF q])
  then have ne: "?off' \<noteq> unat off + ?k" unfolding next_byte by (simp add: MINION_SIZE_val)
  have "(unat off div MINION_SIZE + 2) mod 3 < 3" by simp
  then have cap: "?off' < raid_capacity" by (simp add: raid_capacity_def MINION_SIZE_val)
  obtain poll ms' where w: "WriteCommand_Execute h (WriteArgsKey WRITE_CMD_KEY off (of_nat (length d)) (Some d)) ms = Inr (poll, ms')"
    "(Raid01_ctor ! fst ?p, put_wire ?p d ?u) \<in> set (ms_udp_tx ms')"
    using WriteCommand_sends[OF assms(1) n[symmetric] n1 udp hosts_ok_time[OF assms(4)], of WRITE_CMD_KEY ms]
    by (simp add: Let_def write_datagrams_def)
  note handled = handle_put[OF assms(7,4,5,6) a, of i ?u]
  have st: "mn_store (wrote ?u (snd ?p) d mn) = mn_store ((wrote ?u (snd ?p) d mn)\<lparr>mn_tx := []\<rparr>)" by simp
  have "snd ?p \<le> MINION_SIZE \<and> MINION_SIZE < snd ?p + length d" using assms(2) m by (simp add: raid_primary_def)
  then have "bf_data (mn_store (wrote ?u (snd ?p) d mn)) MINION_SIZE = d ! (MINION_SIZE - snd ?p)"
    unfolding st store_wrote[OF assms(7) a] by simp
  then have "bf_data (mn_store (wrote ?u (snd ?p) d mn)) (snd (raid_backup ?off')) = d ! ?k"
    unfolding backup by (simp only: raid_primary_def fst_conv snd_conv)
  moreover have "fst (raid_backup ?off') = fst ?p" unfolding backup by (simp only: raid_primary_def fst_conv)
  ultimately show ?thesis using w handled k cap ne by blast
qed

theorem crossing_write_overwrites_backup_witness:
  "\<exists>poll ms' x mn'. WriteCommand_Execute demo_host (WriteArgsKey WRITE_CMD_KEY 4194303 8 (Some demo_data)) master_init = Inr (poll, ms') \<and>
    (Raid01_ctor ! 0, x) \<in> set (ms_udp_tx ms') \<and>
    minion_handle demo_host ((MasterProxy Map.empty ''7070'')\<lparr>mn_rx := [x]\<rparr>) = Inr mn'"
proof -
  have "minion_ok (MasterProxy Map.empty ''7070'')"
    using minion_wf_MasterProxy[of Map.empty "''7070''"] by (simp add: minion_ok_def) (simp add: MasterProxy_def)
  from crossing_write_overwrites_backup[of 4194303 demo_data, OF _ _ _ demo_ok _ this, where ms = master_init]
  show ?thesis by (simp add: raid_capacity_val MINION_SIZE_val raid_primary_def del: split_paired_Ex) blast
qed

end
