(* ===== verification/Scheduler.thy ===== *)
theory Scheduler
  imports Waitable_Queue "HOL-Library.Signed_Division"
begin

text \<open>
  \<open>Scheduler\<close> (\<open>include/scheduler.hpp\<close>, \<open>src/scheduler.cpp\<close>) and \<open>AI\<close> (\<open>src/ai.cpp\<close>): tasks
  with a due time behind one POSIX timer. The earliest task is kept outside the queue and
  the timer is armed for it; when the timer expires the system starts a thread that runs
  \<open>ThreadFunc\<close>, which takes the mutex, moves the next task up, and executes the old one.

  The state holds, beside the members, what the system holds of the timer: the time it is
  armed for, and how many expiry threads have been started and not yet taken the mutex;
  and how many calls of \<open>AddTask\<close> stand between releasing the mutex and \<open>SetTime\<close>, which runs
  outside it.
\<close>

subsection \<open>Due times\<close>

datatype timespec = Timespec (tv_sec: int) (tv_nsec: int)

instantiation timespec :: linorder
begin

definition less_timespec :: "timespec \<Rightarrow> timespec \<Rightarrow> bool" where
  "a < b \<longleftrightarrow> tv_sec a < tv_sec b \<or> tv_sec a = tv_sec b \<and> tv_nsec a < tv_nsec b"

definition less_eq_timespec :: "timespec \<Rightarrow> timespec \<Rightarrow> bool" where
  "a \<le> b \<longleftrightarrow> tv_sec a < tv_sec b \<or> tv_sec a = tv_sec b \<and> tv_nsec a \<le> tv_nsec b"

instance
  by standard (auto simp: less_timespec_def less_eq_timespec_def timespec.expand)

end

text \<open>
  Time since the epoch in milliseconds, as \<open>AddTask\<close> turns it into a \<open>timespec\<close>; division and
  remainder truncate towards zero.
\<close>

definition due_time :: "int \<Rightarrow> int \<Rightarrow> timespec" where
  "due_time now_ms delta_ms =
     (let totalMilliseconds = now_ms + delta_ms
      in Timespec (totalMilliseconds sdiv 1000) ((totalMilliseconds smod 1000) * 1000000))"

lemma truncated_division:
  fixes x k :: int
  assumes "0 < k"
  shows "(x sdiv k) * k + x smod k = x" "\<bar>x smod k\<bar> < k" "0 \<le> x \<Longrightarrow> 0 \<le> x smod k \<and> 0 \<le> x sdiv k"
    "x \<le> 0 \<Longrightarrow> x smod k \<le> 0 \<and> x sdiv k \<le> 0"
proof -
  show "(x sdiv k) * k + x smod k = x" by (rule sdiv_mult_smod_eq)
  show "\<bar>x smod k\<bar> < k" using assms by (simp add: smod_int_alt_def abs_mult sgn_if)
  show "0 \<le> x \<Longrightarrow> 0 \<le> x smod k \<and> 0 \<le> x sdiv k" "x \<le> 0 \<Longrightarrow> x smod k \<le> 0 \<and> x sdiv k \<le> 0"
    using assms by (auto simp: smod_int_alt_def signed_divide_int_def sgn_if pos_imp_zdiv_nonneg_iff)
qed

text \<open>Comparing quotients and then remainders compares the numbers, whatever their signs.\<close>

lemma quotient_remainder_order:
  fixes q r p s x y :: int
  assumes "q * 1000 + r = x" "p * 1000 + s = y" "\<bar>r\<bar> < 1000" "\<bar>s\<bar> < 1000"
    "0 \<le> x \<Longrightarrow> 0 \<le> r \<and> 0 \<le> q" "x \<le> 0 \<Longrightarrow> r \<le> 0 \<and> q \<le> 0"
    "0 \<le> y \<Longrightarrow> 0 \<le> s \<and> 0 \<le> p" "y \<le> 0 \<Longrightarrow> s \<le> 0 \<and> p \<le> 0"
  shows "q < p \<or> q = p \<and> r \<le> s \<longleftrightarrow> x \<le> y"
proof -
  have r: "-1000 < r" "r < 1000" "-1000 < s" "s < 1000" using assms(3,4) by auto
  consider "0 \<le> x" "0 \<le> y" | "0 \<le> x" "y < 0" | "x < 0" "0 \<le> y" | "x < 0" "y < 0" by linarith
  then show ?thesis
  proof cases
    case 1
    then have "0 \<le> r" "0 \<le> q" "0 \<le> s" "0 \<le> p" using assms by auto
    then show ?thesis using r assms(1,2) by linarith
  next
    case 2
    then have "0 \<le> r" "0 \<le> q" "s \<le> 0" "p \<le> 0" using assms by auto
    then show ?thesis using r assms(1,2) 2 by linarith
  next
    case 3
    then have "r \<le> 0" "q \<le> 0" "0 \<le> s" "0 \<le> p" using assms by auto
    then show ?thesis using r assms(1,2) by linarith
  next
    case 4
    then have "r \<le> 0" "q \<le> 0" "s \<le> 0" "p \<le> 0" using assms by auto
    then show ?thesis using r assms(1,2) by linarith
  qed
qed

lemma due_time_mono: "due_time a b \<le> due_time c d \<longleftrightarrow> a + b \<le> c + d"
proof -
  have "x sdiv 1000 < y sdiv 1000 \<or> x sdiv 1000 = y sdiv 1000 \<and> x smod 1000 \<le> y smod 1000 \<longleftrightarrow> x \<le> y"
    for x y :: int
    by (rule quotient_remainder_order) (use truncated_division[of 1000 x] truncated_division[of 1000 y] in simp_all)
  then show ?thesis by (simp add: due_time_def Let_def less_eq_timespec_def)
qed

type_synonym 't sched_item = "'t option \<times> timespec"

text \<open>The macros \<open>B_SEC_BIG\<close>, \<open>B_SEC_EQUAL\<close>, \<open>B_NSEC_BIG\<close>, and the comparator built on them.\<close>

definition item_before :: "'t sched_item \<Rightarrow> 't sched_item \<Rightarrow> bool" where
  "item_before a b \<longleftrightarrow> tv_sec (snd a) < tv_sec (snd b) \<or>
     tv_sec (snd a) = tv_sec (snd b) \<and> tv_nsec (snd a) < tv_nsec (snd b)"

definition Comparator :: "'t sched_item \<Rightarrow> 't sched_item \<Rightarrow> bool" where
  "Comparator a b = (if item_before a b then False else True)"

lemma item_before_less: "item_before a b \<longleftrightarrow> snd a < snd b"
  by (simp add: item_before_def less_timespec_def)

interpretation sched_queue: ranked_container PQ_push "PQ_pops Comparator" mset snd
  by (rule PQ_ranked) (auto simp: comes_after_def Comparator_def item_before_less)

subsection \<open>State and operations\<close>

record 't scheduler =
  sc_current :: "'t sched_item"
  sc_wq :: "'t sched_item list"
  sc_armed :: "timespec option"
  sc_expired :: nat
  sc_arming :: nat

definition Scheduler_ctor :: "bool \<Rightarrow> 't scheduler result" where
  "Scheduler_ctor timer_create_ok =
     (if timer_create_ok
      then Inr \<lparr>sc_current = (None, Timespec 0 0), sc_wq = [], sc_armed = None, sc_expired = 0, sc_arming = 0\<rparr>
      else Inl (Runtime_error ''timer_create fail''))"

text \<open>\<open>timer_settime\<close> replaces the time the timer is armed for; with a failure \<open>SetTime\<close> throws.\<close>

definition SetTime :: "bool \<Rightarrow> 't scheduler \<Rightarrow> 't scheduler result" where
  "SetTime settime_ok s =
     (if settime_ok then Inr (s\<lparr>sc_armed := Some (snd (sc_current s))\<rparr>)
      else Inl (Runtime_error ''timer_create fail''))"

text \<open>\<open>AddTask\<close> up to the release of the mutex; it is then about to call \<open>SetTime\<close>.\<close>

definition AddTask :: "'t \<Rightarrow> int \<Rightarrow> int \<Rightarrow> 't scheduler \<Rightarrow> 't scheduler" where
  "AddTask task now_ms delta_ms s =
     (let newItem = (Some task, due_time now_ms delta_ms);
          s = s\<lparr>sc_arming := sc_arming s + 1\<rparr>
      in if fst (sc_current s) = None then s\<lparr>sc_current := newItem\<rparr>
         else if item_before (sc_current s) newItem
         then s\<lparr>sc_wq := WaitableQueue_Push PQ_push newItem (sc_wq s)\<rparr>
         else s\<lparr>sc_wq := WaitableQueue_Push PQ_push (sc_current s) (sc_wq s), sc_current := newItem\<rparr>)"

text \<open>
  The critical section of \<open>ThreadFunc\<close>: the task it will execute after releasing the mutex,
  and the next state. \<open>next\<close> is what the queue delivers, when it delivers.
\<close>

definition ThreadFunc :: "bool \<Rightarrow> 't sched_item \<times> 't sched_item list \<Rightarrow> 't scheduler \<Rightarrow> ('t sched_item option \<times> 't scheduler) result" where
  "ThreadFunc settime_ok next s =
     (if fst (sc_current s) \<noteq> None then
        let tempCurrentTask = sc_current s
        in bindE
          (if \<not> WaitableQueue_IsEmpty (sc_wq s)
           then SetTime settime_ok (s\<lparr>sc_current := fst next, sc_wq := snd next\<rparr>)
           else Inr (s\<lparr>sc_current := (None, snd (sc_current s))\<rparr>)) (\<lambda>s.
          Inr (Some tempCurrentTask, s))
      else Inr (None, s))"

text \<open>\<open>AI::AI\<close>: a poll is first due after one interval.\<close>

definition AI_ctor :: "'t \<Rightarrow> int \<Rightarrow> int \<Rightarrow> 't scheduler \<Rightarrow> 't scheduler" where
  "AI_ctor aiTask now_ms timeToCheck s = AddTask aiTask now_ms timeToCheck s"

text \<open>
  \<open>AI::Perform\<close>: a poll that reports no outcome is scheduled again after its interval.
  \<open>AI_returned\<close> is its part after the call of the functor, which runs without a lock.
\<close>

definition AI_returned :: "bool \<Rightarrow> 't \<Rightarrow> int \<Rightarrow> int \<Rightarrow> 't scheduler \<Rightarrow> 't scheduler" where
  "AI_returned r aiTask now_ms timeToCheck s = (if r = False then AddTask aiTask now_ms timeToCheck s else s)"

definition AI_Perform ::
    "('s \<Rightarrow> (bool \<times> 's) result) \<Rightarrow> 't \<Rightarrow> int \<Rightarrow> int \<Rightarrow> 's \<Rightarrow> 't scheduler \<Rightarrow> ('s \<times> 't scheduler) result" where
  "AI_Perform func aiTask now_ms timeToCheck st s =
     bindE (func st) (\<lambda>(r, st). Inr (st, AI_returned r aiTask now_ms timeToCheck s))"

definition AITask_Execute ::
    "('s \<Rightarrow> (bool \<times> 's) result) \<Rightarrow> 't \<Rightarrow> int \<Rightarrow> int \<Rightarrow> 's \<Rightarrow> 't scheduler \<Rightarrow> ('s \<times> 't scheduler) result" where
  "AITask_Execute func aiTask now_ms timeToCheck st s = AI_Perform func aiTask now_ms timeToCheck st s"

subsection \<open>Steps\<close>

text \<open>
  One event: a call of \<open>AddTask\<close>, its \<open>SetTime\<close>, the expiry of the timer, or a run of
  \<open>ThreadFunc\<close> with the task it executes. The system calls succeed.
\<close>

datatype 't sched_event =
    Add 't int int
  | Arm
  | Expire timespec
  | Fire "'t option" timespec

inductive sched_step :: "'t scheduler \<Rightarrow> 't sched_event \<Rightarrow> 't scheduler \<Rightarrow> bool" where
  step_add: "sched_step s (Add t now delta) (AddTask t now delta s)"
| step_arm: "0 < sc_arming s \<Longrightarrow> SetTime True s = Inr s' \<Longrightarrow>
    sched_step s Arm (s'\<lparr>sc_arming := sc_arming s - 1\<rparr>)"
| step_expire: "sc_armed s = Some t \<Longrightarrow> t \<le> now \<Longrightarrow>
    sched_step s (Expire now) (s\<lparr>sc_armed := None, sc_expired := sc_expired s + 1\<rparr>)"
| step_fire: "0 < sc_expired s \<Longrightarrow>
    sc_wq s = [] \<or> PQ_pops Comparator (sc_wq s) (fst next) (snd next) \<Longrightarrow>
    ThreadFunc True next s = Inr (Some (t, due), s') \<Longrightarrow>
    sched_step s (Fire t due) (s'\<lparr>sc_expired := sc_expired s - 1\<rparr>)"
| step_idle: "0 < sc_expired s \<Longrightarrow> ThreadFunc True next s = Inr (None, s') \<Longrightarrow>
    sched_step s (Fire None due) (s'\<lparr>sc_expired := sc_expired s - 1\<rparr>)"

inductive sched_run :: "'t scheduler \<Rightarrow> 't sched_event list \<Rightarrow> 't scheduler \<Rightarrow> bool" where
  run_nil: "sched_run s [] s"
| run_snoc: "sched_run s es s' \<Longrightarrow> sched_step s' e s'' \<Longrightarrow> sched_run s (es @ [e]) s''"

subsection \<open>Invariant\<close>

text \<open>
  Nothing waits without a current task; no queued task is due before the current one; with a
  current task the timer is armed, or an expiry is on its way, or an \<open>AddTask\<close> is about to arm
  it; and once every \<open>AddTask\<close> has done so, an armed timer is armed for the current task.
\<close>

definition sched_inv :: "'t scheduler \<Rightarrow> bool" where
  "sched_inv s \<longleftrightarrow>
     (fst (sc_current s) = None \<longrightarrow> sc_wq s = []) \<and>
     (\<forall>x \<in> set (sc_wq s). fst x \<noteq> None \<and> snd (sc_current s) \<le> snd x) \<and>
     (fst (sc_current s) \<noteq> None \<longrightarrow> sc_armed s \<noteq> None \<or> 0 < sc_expired s \<or> 0 < sc_arming s) \<and>
     (sc_arming s = 0 \<longrightarrow> (\<forall>t. sc_armed s = Some t \<longrightarrow> t = snd (sc_current s)))"

lemma sched_inv_ctor: "Scheduler_ctor ok = Inr s \<Longrightarrow> sched_inv s"
  by (auto simp: Scheduler_ctor_def sched_inv_def split: if_splits)

lemmas sched_op_defs = SetTime_def AddTask_def ThreadFunc_def WaitableQueue_Push_def PQ_push_def
  WaitableQueue_IsEmpty_def Let_def

lemma sched_inv_AddTask: "sched_inv s \<Longrightarrow> sched_inv (AddTask t now delta s)"
  by (auto simp: sched_inv_def sched_op_defs item_before_less not_less dest: order_trans)

lemma sched_next_least:
  assumes "PQ_pops Comparator q x q'"
  shows "x \<in> set q" and "set q' \<subseteq> set q" and "\<forall>y \<in> set q. snd x \<le> snd y"
  using sched_queue.pops_least[OF assms] assms set_remove1_subset[of x q]
  by (auto simp: PQ_pops_def PQ_front_def)

lemma sched_inv_step: "sched_step s e s' \<Longrightarrow> sched_inv s \<Longrightarrow> sched_inv s'"
proof (induction rule: sched_step.induct)
  case (step_add s t now delta)
  then show ?case by (rule sched_inv_AddTask)
next
  case (step_arm s s')
  then have "s' = s\<lparr>sc_armed := Some (snd (sc_current s))\<rparr>" by (simp add: SetTime_def)
  with step_arm.prems show ?case by (simp add: sched_inv_def)
next
  case (step_expire s t now)
  then show ?case by (auto simp: sched_inv_def)
next
  case (step_fire s "next" t due s')
  show ?case
  proof (cases "sc_wq s = []")
    case True
    with step_fire show ?thesis by (auto simp: sched_inv_def sched_op_defs split: if_splits)
  next
    case False
    with step_fire.hyps(2) have p: "PQ_pops Comparator (sc_wq s) (fst next) (snd next)" by simp
    have "s' = s\<lparr>sc_current := fst next, sc_wq := snd next, sc_armed := Some (snd (fst next))\<rparr>"
      using step_fire.hyps(3) False by (auto simp: sched_op_defs split: if_splits)
    moreover have "\<forall>x \<in> set (snd next). fst x \<noteq> None \<and> snd (fst next) \<le> snd x" "fst (fst next) \<noteq> None"
      using sched_next_least[OF p] step_fire.prems unfolding sched_inv_def by blast+
    ultimately show ?thesis by (simp add: sched_inv_def del: not_None_eq)
  qed
next
  case (step_idle s "next" s' due)
  then show ?case
    by (auto simp: sched_inv_def sched_op_defs bindE_eq_Inr_iff split: if_splits)
qed

lemma sched_inv_run: "sched_run s es s' \<Longrightarrow> sched_inv s \<Longrightarrow> sched_inv s'"
  by (induction rule: sched_run.induct) (auto intro: sched_inv_step)

subsection \<open>Conservation\<close>

definition waiting :: "'t scheduler \<Rightarrow> 't sched_item multiset" where
  "waiting s = (if fst (sc_current s) = None then {#} else {#sc_current s#}) + mset (sc_wq s)"

fun added :: "'t sched_event list \<Rightarrow> 't sched_item multiset" where
  "added [] = {#}"
| "added (Add t now delta # es) = add_mset (Some t, due_time now delta) (added es)"
| "added (_ # es) = added es"

fun fired :: "'t sched_event list \<Rightarrow> 't sched_item list" where
  "fired [] = []"
| "fired (Fire (Some t) due # es) = (Some t, due) # fired es"
| "fired (_ # es) = fired es"

lemma added_append: "added (es @ fs) = added es + added fs"
  by (induction es rule: added.induct) auto

lemma fired_append: "fired (es @ fs) = fired es @ fired fs"
  by (induction es rule: fired.induct) auto

lemma waiting_step:
  "sched_step s e s' \<Longrightarrow> sched_inv s \<Longrightarrow> waiting s' + mset (fired [e]) = waiting s + added [e]"
proof (induction rule: sched_step.induct)
  case (step_fire s "next" t due s')
  show ?case
  proof (cases "sc_wq s = []")
    case True
    with step_fire show ?thesis
      by (cases t) (auto simp: waiting_def sched_op_defs split: if_splits)
  next
    case False
    with step_fire.hyps(2) have p: "PQ_pops Comparator (sc_wq s) (fst next) (snd next)" by simp
    then have "fst (fst next) \<noteq> None"
      using step_fire.prems sched_next_least(1)[OF p] by (auto simp: sched_inv_def)
    moreover have "mset (sc_wq s) = add_mset (fst next) (mset (snd next))"
      by (rule sched_queue.items_pops[OF p])
    ultimately show ?thesis
      using step_fire False by (cases t) (auto simp: waiting_def sched_op_defs split: if_splits)
  qed
qed (auto simp: waiting_def sched_inv_def sched_op_defs bindE_eq_Inr_iff split: if_splits)

lemma waiting_run:
  "sched_run s es s' \<Longrightarrow> sched_inv s \<Longrightarrow> waiting s' + mset (fired es) = waiting s + added es"
proof (induction rule: sched_run.induct)
  case (run_nil s)
  then show ?case by simp
next
  case (run_snoc s es s' e s'')
  from run_snoc have "waiting s'' + mset (fired [e]) = waiting s' + added [e]"
    using waiting_step sched_inv_run by blast
  with run_snoc show ?case by (simp add: added_append fired_append) (metis (no_types) union_assoc union_commute)
qed

subsection \<open>Punctuality\<close>

text \<open>
  Runs with a clock, in which tasks are added, and the timer armed for them, only while no
  expiry thread is waiting for the mutex. \<open>quiet_run s now es\<close>: at time \<open>now\<close> the state is \<open>s\<close>,
  after the events \<open>es\<close> with their times.
\<close>

inductive quiet_run :: "'t scheduler \<Rightarrow> timespec \<Rightarrow> (timespec \<times> 't sched_event) list \<Rightarrow> bool" where
  quiet_start: "Scheduler_ctor True = Inr s \<Longrightarrow> quiet_run s now []"
| quiet_tick: "quiet_run s now es \<Longrightarrow> now \<le> now' \<Longrightarrow> quiet_run s now' es"
| quiet_add: "quiet_run s now es \<Longrightarrow> sc_expired s = 0 \<Longrightarrow> sched_step s (Add t n d) s1 \<Longrightarrow>
    sched_step s1 Arm s2 \<Longrightarrow> quiet_run s2 now (es @ [(now, Add t n d), (now, Arm)])"
| quiet_expire: "quiet_run s now es \<Longrightarrow> sched_step s (Expire now) s1 \<Longrightarrow>
    quiet_run s1 now (es @ [(now, Expire now)])"
| quiet_fire: "quiet_run s now es \<Longrightarrow> sched_step s (Fire t due) s1 \<Longrightarrow>
    quiet_run s1 now (es @ [(now, Fire t due)])"

inductive_cases sched_stepE:
  "sched_step s (Add t n d) s'" "sched_step s Arm s'" "sched_step s (Expire now) s'" "sched_step s (Fire t due) s'"

definition quiet_inv :: "'t scheduler \<Rightarrow> timespec \<Rightarrow> bool" where
  "quiet_inv s now \<longleftrightarrow> sc_arming s = 0 \<and>
     (sc_expired s = 0 \<or> sc_expired s = 1 \<and> sc_armed s = None \<and> fst (sc_current s) \<noteq> None \<and> snd (sc_current s) \<le> now) \<and>
     (fst (sc_current s) = None \<longrightarrow> sc_armed s = None) \<and>
     (\<forall>t. sc_armed s = Some t \<longrightarrow> t = snd (sc_current s))"

lemma quiet_inv_add:
  assumes "quiet_inv s now" and "sc_expired s = 0" and "sched_step s (Add t n d) s1" and "sched_step s1 Arm s2"
  shows "quiet_inv s2 now"
  using assms(3,4) assms(1,2)
  by (elim sched_stepE) (auto simp: quiet_inv_def sched_op_defs split: if_splits)

lemma quiet_inv_expire: "quiet_inv s now \<Longrightarrow> sched_step s (Expire now) s1 \<Longrightarrow> quiet_inv s1 now"
  by (elim sched_stepE) (auto simp: quiet_inv_def)

lemma quiet_inv_fire:
  assumes "quiet_inv s now" and "sched_step s (Fire t due) s1" and "sched_inv s"
  shows "quiet_inv s1 now \<and> t \<noteq> None \<and> due \<le> now"
  using assms(2)
proof (cases rule: sched_step.cases)
  case (step_fire "next" s')
  have "fst (fst next) \<noteq> None" if "sc_wq s \<noteq> []"
    using step_fire(3) that sched_next_least(1) assms(3) unfolding sched_inv_def by blast
  with step_fire assms(1) show ?thesis
    by (auto simp: quiet_inv_def sched_op_defs split: if_splits)
next
  case (step_idle "next" s')
  with assms(1) show ?thesis
    by (auto simp: quiet_inv_def sched_op_defs bindE_eq_Inr_iff split: if_splits)
qed

lemma quiet_run_inv:
  "quiet_run s now es \<Longrightarrow> sched_inv s \<and> quiet_inv s now \<and> (\<forall>(c, e) \<in> set es. \<forall>t due. e = Fire t due \<longrightarrow> due \<le> c)"
proof (induction rule: quiet_run.induct)
  case (quiet_start s now)
  then show ?case using sched_inv_ctor[OF quiet_start] by (auto simp: quiet_inv_def Scheduler_ctor_def)
next
  case (quiet_tick s now es now')
  then show ?case by (auto simp: quiet_inv_def)
next
  case (quiet_add s now es t n d s1 s2)
  then show ?case
    using quiet_inv_add[of s now t n d s1 s2] sched_inv_step[OF quiet_add.hyps(3)] sched_inv_step[OF quiet_add.hyps(4)]
    by auto
next
  case (quiet_expire s now es s1)
  then show ?case using quiet_inv_expire[of s now s1] sched_inv_step by auto
next
  case (quiet_fire s now es t due s1)
  then show ?case using quiet_inv_fire[of s now t due s1] sched_inv_step[of s "Fire t due" s1] by auto
qed

subsection \<open>Properties\<close>

text \<open>
  C24: in every reachable state of the scheduler, with any interleaving of \<open>AddTask\<close>, \<open>SetTime\<close>,
  timer expiries and \<open>ThreadFunc\<close>, the current task is due no later than every queued one and
  a wake-up for it is under way: the timer is armed, or an expiry thread or an \<open>AddTask\<close> is
  about to act. No wake-up is lost.
\<close>

theorem scheduler_no_lost_wakeup:
  assumes "Scheduler_ctor True = Inr s0" and "sched_run s0 es s"
  shows "(\<forall>x \<in> set (sc_wq s). snd (sc_current s) \<le> snd x) \<and>
    (fst (sc_current s) = None \<longrightarrow> sc_wq s = []) \<and>
    (fst (sc_current s) \<noteq> None \<longrightarrow> sc_armed s \<noteq> None \<or> 0 < sc_expired s \<or> 0 < sc_arming s)"
  using sched_inv_run[OF assms(2) sched_inv_ctor[OF assms(1)]] by (simp add: sched_inv_def del: not_None_eq)

definition sched0 :: "nat scheduler" where
  "sched0 = \<lparr>sc_current = (None, Timespec 0 0), sc_wq = [], sc_armed = None, sc_expired = 0, sc_arming = 0\<rparr>"

lemma sched0_ctor: "Scheduler_ctor True = Inr sched0"
  by (simp add: Scheduler_ctor_def sched0_def)

theorem scheduler_no_lost_wakeup_witness:
  "\<exists>s. sched_run sched0 [Add 7 1000 500] s \<and> (sc_armed s \<noteq> None \<or> 0 < sc_expired s \<or> 0 < sc_arming s)"
proof -
  have "sched_run sched0 ([] @ [Add 7 1000 500]) (AddTask 7 1000 500 sched0)"
    by (intro run_snoc[OF run_nil] step_add)
  then have r: "sched_run sched0 [Add 7 1000 500] (AddTask 7 1000 500 sched0)" by simp
  have "fst (sc_current (AddTask 7 1000 500 sched0)) \<noteq> None" by (simp add: AddTask_def sched0_def Let_def)
  with scheduler_no_lost_wakeup[OF sched0_ctor r] r show ?thesis by blast
qed

text \<open>
  C23: no task is lost, duplicated or invented: in every run the tasks executed and the tasks
  still waiting are together exactly the tasks added, with their due times.
\<close>

theorem scheduler_conserves_tasks:
  assumes "Scheduler_ctor True = Inr s0" and "sched_run s0 es s"
  shows "waiting s + mset (fired es) = added es"
proof -
  have "waiting s0 = {#}" using assms(1) by (auto simp: waiting_def Scheduler_ctor_def)
  then show ?thesis using waiting_run[OF assms(2) sched_inv_ctor[OF assms(1)]] by simp
qed

theorem scheduler_conserves_tasks_witness:
  "waiting (AddTask 7 1000 500 sched0) = {#(Some 7, Timespec 1 500000000)#}"
proof -
  have "sched_run sched0 ([] @ [Add 7 1000 500]) (AddTask 7 1000 500 sched0)"
    by (intro run_snoc[OF run_nil] step_add)
  from scheduler_conserves_tasks[OF sched0_ctor this] show ?thesis
    by (simp add: due_time_def Let_def)
qed

text \<open>
  When tasks are added only while no expiry thread waits for the mutex, every task is
  executed at or after the time it is due.
\<close>

theorem scheduler_punctual:
  assumes "quiet_run s now es" and "(c, Fire t due) \<in> set es"
  shows "due \<le> c"
  using quiet_run_inv[OF assms(1)] assms(2) by blast

theorem scheduler_punctual_witness:
  "\<exists>s. quiet_run s (Timespec 3 0) [(Timespec 0 0, Add (1 :: nat) 0 1000), (Timespec 0 0, Arm),
      (Timespec 3 0, Expire (Timespec 3 0)), (Timespec 3 0, Fire (Some 1) (Timespec 1 0))] \<and> Timespec 1 0 \<le> Timespec 3 0"
proof -
  let ?a = "(Some 1, Timespec 1 0)"
  let ?st = "\<lambda>c q a e m. \<lparr>sc_current = c, sc_wq = q, sc_armed = a, sc_expired = e, sc_arming = m\<rparr> :: nat scheduler"
  note d = sched_op_defs item_before_def due_time_def
  have 1: "sched_step sched0 (Add 1 0 1000) (?st ?a [] None 0 1)"
    using step_add[of sched0 1 0 1000] by (simp add: d sched0_def)
  have 2: "sched_step (?st ?a [] None 0 1) Arm (?st ?a [] (Some (Timespec 1 0)) 0 0)"
    using step_arm[of "?st ?a [] None 0 1"] by (simp add: d)
  have 3: "sched_step (?st ?a [] (Some (Timespec 1 0)) 0 0) (Expire (Timespec 3 0)) (?st ?a [] None 1 0)"
    using step_expire[of "?st ?a [] (Some (Timespec 1 0)) 0 0" "Timespec 1 0" "Timespec 3 0"]
    by (simp add: less_eq_timespec_def)
  have 4: "sched_step (?st ?a [] None 1 0) (Fire (Some 1) (Timespec 1 0)) (?st (None, Timespec 1 0) [] None 0 0)"
    using step_fire[of "?st ?a [] None 1 0"] by (simp add: d)
  have "sc_expired sched0 = 0" by (simp add: sched0_def)
  note r1 = quiet_add[OF quiet_start[OF sched0_ctor, of "Timespec 0 0"] this 1 2]
  have "Timespec 0 0 \<le> Timespec 3 0" by (simp add: less_eq_timespec_def)
  note r = quiet_fire[OF quiet_expire[OF quiet_tick[OF r1 this] 3] 4]
  show ?thesis using r scheduler_punctual[OF r, of "Timespec 3 0" "Some 1" "Timespec 1 0"] by auto
qed

text \<open>
  Otherwise a task can run long before it is due. Here task 2 is added for second 100
  while the expiry of task 1 waits for the mutex: arming the timer again for the current
  task, whose time has passed, starts a second expiry thread, and that one executes task 2;
  the clock has not passed second 1.
\<close>

theorem scheduler_early_execution:
  "\<exists>s. sched_run sched0 [Add 1 0 1000, Arm, Expire (Timespec 1 0), Add 2 1000 99000, Arm,
     Expire (Timespec 1 0), Fire (Some 1) (Timespec 1 0), Fire (Some 2) (Timespec 100 0)] s"
proof -
  let ?a = "(Some 1, Timespec 1 0)" and ?b = "(Some 2, Timespec 100 0)"
  let ?st = "\<lambda>c q a e m. \<lparr>sc_current = c, sc_wq = q, sc_armed = a, sc_expired = e, sc_arming = m\<rparr> :: nat scheduler"
  note d = sched_op_defs item_before_def due_time_def
  have 1: "sched_step sched0 (Add 1 0 1000) (?st ?a [] None 0 1)"
    using step_add[of sched0 1 0 1000] by (simp add: d sched0_def)
  have 2: "sched_step (?st ?a [] None 0 1) Arm (?st ?a [] (Some (Timespec 1 0)) 0 0)"
    using step_arm[of "?st ?a [] None 0 1"] by (simp add: d)
  have 3: "sched_step (?st ?a [] (Some (Timespec 1 0)) 0 0) (Expire (Timespec 1 0)) (?st ?a [] None 1 0)"
    using step_expire[of "?st ?a [] (Some (Timespec 1 0)) 0 0"] by simp
  have 4: "sched_step (?st ?a [] None 1 0) (Add 2 1000 99000) (?st ?a [?b] None 1 1)"
    using step_add[of "?st ?a [] None 1 0" 2 1000 99000] by (simp add: d)
  have 5: "sched_step (?st ?a [?b] None 1 1) Arm (?st ?a [?b] (Some (Timespec 1 0)) 1 0)"
    using step_arm[of "?st ?a [?b] None 1 1"] by (simp add: d)
  have 6: "sched_step (?st ?a [?b] (Some (Timespec 1 0)) 1 0) (Expire (Timespec 1 0)) (?st ?a [?b] None 2 0)"
    using step_expire[of "?st ?a [?b] (Some (Timespec 1 0)) 1 0"] by (simp add: numeral_2_eq_2)
  have 7: "sched_step (?st ?a [?b] None 2 0) (Fire (Some 1) (Timespec 1 0)) (?st ?b [] (Some (Timespec 100 0)) 1 0)"
    using step_fire[of "?st ?a [?b] None 2 0" "(?b, [])"]
    by (simp add: d PQ_pops_def PQ_front_def comes_after_def)
  have 8: "sched_step (?st ?b [] (Some (Timespec 100 0)) 1 0) (Fire (Some 2) (Timespec 100 0))
      (?st (None, Timespec 100 0) [] (Some (Timespec 100 0)) 0 0)"
    using step_fire[of "?st ?b [] (Some (Timespec 100 0)) 1 0"] by (simp add: d)
  show ?thesis
    using run_snoc[OF run_snoc[OF run_snoc[OF run_snoc[OF run_snoc[OF run_snoc[OF run_snoc[OF run_snoc[OF
      run_nil 1] 2] 3] 4] 5] 6] 7] 8] by auto
qed

end
