(* ===== verification/Poll_Threads.thy ===== *)
theory Poll_Threads
  imports Master_Correct "HOL-Library.Multiset"
begin

text \<open>
  \<open>WriteAIFunc::operator()\<close> (\<open>src/command.cpp\<close>) at the grain of single accesses. It runs in a
  thread of the timer, without a lock, on the watch list it shares with the reactor
  (\<open>RegisterResponse\<close>), the pool (\<open>RegisterCommand\<close>) and other polls, and on two static counters
  it shares with the polls of all writes. Memory is sequentially consistent. A single poll
  among any such steps is one atomic poll with some of its own responses moved past it. Polls that
  do not overlap run a bounded number of times in vain; two polls at once
  can jump over the limit of 50.
\<close>

subsection \<open>The functor, step by step\<close>

text \<open>
  Where a thread stands. The arguments are its local variables: the two answers it has found
  and the value an increment is about to store.
\<close>

datatype poll_pc =
    Ask_og
  | Erase_og
  | Ask_backup bool
  | Erase_backup bool
  | Decide bool bool
  | Store_og int bool
  | Count_backup bool
  | Store_backup int
  | Test_og
  | Test_backup
  | Choose_text
  | Reset_og
  | Reset_backup
  | Poll_returned bool

text \<open>The two accesses of \<open>HasResponseRecived\<close> to the map: the subscript, and the erasure of an entry found done.\<close>

definition look_up :: "uid \<Rightarrow> master \<Rightarrow> bool \<times> master" where
  "look_up u ms = (let (s, w) = subscript (ms_watch ms) (GetUniqueCounter u) in (s = DONE, ms\<lparr>ms_watch := w\<rparr>))"

definition erase :: "uid \<Rightarrow> master \<Rightarrow> master" where
  "erase u ms = ms\<lparr>ms_watch := (ms_watch ms)(GetUniqueCounter u := None)\<rparr>"

fun thread_step :: "uid \<Rightarrow> uid \<Rightarrow> poll_pc \<Rightarrow> master \<Rightarrow> (poll_pc \<times> master) result" where
  "thread_step og_uid backup_uid Ask_og ms =
     (let (found, ms) = look_up og_uid ms in Inr (if found then Erase_og else Ask_backup False, ms))"
| "thread_step og_uid backup_uid Erase_og ms = Inr (Ask_backup True, erase og_uid ms)"
| "thread_step og_uid backup_uid (Ask_backup og) ms =
     (let (found, ms) = look_up backup_uid ms in Inr (if found then Erase_backup og else Decide og False, ms))"
| "thread_step og_uid backup_uid (Erase_backup og) ms = Inr (Decide og True, erase backup_uid ms)"
| "thread_step og_uid backup_uid (Decide og backup) ms =
     (if og \<and> backup then bindE (NotifySucces_default ms) (\<lambda>ms. Inr (Poll_returned True, ms))
      else Inr (if \<not> og then Store_og (ms_og_counter ms + 1) backup else Count_backup backup, ms))"
| "thread_step og_uid backup_uid (Store_og v backup) ms = Inr (Count_backup backup, ms\<lparr>ms_og_counter := v\<rparr>)"
| "thread_step og_uid backup_uid (Count_backup backup) ms =
     Inr (if \<not> backup then Store_backup (ms_backup_counter ms + 1) else Test_og, ms)"
| "thread_step og_uid backup_uid (Store_backup v) ms = Inr (Test_og, ms\<lparr>ms_backup_counter := v\<rparr>)"
| "thread_step og_uid backup_uid Test_og ms = Inr (if 50 = ms_og_counter ms then Choose_text else Test_backup, ms)"
| "thread_step og_uid backup_uid Test_backup ms =
     Inr (if 50 = ms_backup_counter ms then Choose_text else Poll_returned False, ms)"
| "thread_step og_uid backup_uid Choose_text ms =
     bindE (if ms_og_counter ms = 50 then NotifySucces (c_str ''couldnt write og'') 15 ms
            else NotifySucces (c_str ''couldnt write backup'') 20 ms) (\<lambda>ms. Inr (Reset_og, ms))"
| "thread_step og_uid backup_uid Reset_og ms = Inr (Reset_backup, ms\<lparr>ms_og_counter := 0\<rparr>)"
| "thread_step og_uid backup_uid Reset_backup ms = Inr (Poll_returned True, ms\<lparr>ms_backup_counter := 0\<rparr>)"
| "thread_step og_uid backup_uid (Poll_returned r) ms = Inl Undefined"

text \<open>What the other threads of the master do to the watch list, access by access.\<close>

datatype watch_event =
    Registered uid
  | Responded uid
  | Looked_up uid
  | Erased uid

inductive watch_step :: "host \<Rightarrow> watch_event \<Rightarrow> master \<Rightarrow> master \<Rightarrow> bool" for h :: host where
  ws_command: "RegisterCommand h (ms_counter ms) (ms_watch ms) = Inr (u, c, w) \<Longrightarrow>
    watch_step h (Registered u) ms (ms\<lparr>ms_counter := c, ms_watch := w\<rparr>)"
| ws_response: "watch_step h (Responded u) ms (ms\<lparr>ms_watch := RegisterResponse u (ms_watch ms)\<rparr>)"
| ws_look_up: "watch_step h (Looked_up u) ms (snd (look_up u ms))"
| ws_erase: "watch_step h (Erased u) ms (erase u ms)"

inductive_simps watch_step_simps [simp]:
  "watch_step h (Registered u) ms ms'"
  "watch_step h (Responded u) ms ms'"
  "watch_step h (Looked_up u) ms ms'"
  "watch_step h (Erased u) ms ms'"

inductive watch_run :: "host \<Rightarrow> master \<Rightarrow> watch_event list \<Rightarrow> master \<Rightarrow> bool" for h :: host where
  wr_none: "watch_run h ms [] ms"
| wr_step: "watch_run h ms es ms1 \<Longrightarrow> watch_step h e ms1 ms2 \<Longrightarrow> watch_run h ms (es @ [e]) ms2"

text \<open>Any number of polls, each a thread with its two identifiers, among such steps.\<close>

type_synonym poll_thread = "uid \<times> uid \<times> poll_pc"

inductive threads_run ::
    "host \<Rightarrow> poll_thread list \<times> master \<Rightarrow> watch_event list \<Rightarrow> poll_thread list \<times> master \<Rightarrow> bool"
  for h :: host where
  tr_start: "threads_run h c [] c"
| tr_poll: "threads_run h c es (ts, ms) \<Longrightarrow> i < length ts \<Longrightarrow> ts ! i = (og, bk, pc) \<Longrightarrow>
    thread_step og bk pc ms = Inr (pc', ms') \<Longrightarrow> threads_run h c es (ts[i := (og, bk, pc')], ms')"
| tr_other: "threads_run h c es (ts, ms) \<Longrightarrow> watch_step h e ms ms' \<Longrightarrow> threads_run h c (es @ [e]) (ts, ms')"

fun uid_of_event :: "watch_event \<Rightarrow> uid" where
  "uid_of_event (Registered u) = u"
| "uid_of_event (Responded u) = u"
| "uid_of_event (Looked_up u) = u"
| "uid_of_event (Erased u) = u"

abbreviation event_key :: "watch_event \<Rightarrow> u32" where
  "event_key e \<equiv> GetUniqueCounter (uid_of_event e)"

subsection \<open>A poll by itself\<close>

text \<open>Steps a thread still has to take at most.\<close>

fun remaining :: "poll_pc \<Rightarrow> nat" where
  "remaining Ask_og = 13" | "remaining Erase_og = 12" | "remaining (Ask_backup _) = 11"
| "remaining (Erase_backup _) = 10" | "remaining (Decide _ _) = 9" | "remaining (Store_og _ _) = 8"
| "remaining (Count_backup _) = 7" | "remaining (Store_backup _) = 6" | "remaining Test_og = 5"
| "remaining Test_backup = 4" | "remaining Choose_text = 3" | "remaining Reset_og = 2"
| "remaining Reset_backup = 1" | "remaining (Poll_returned _) = 0"

lemma thread_step_total:
  assumes "\<forall>r. pc \<noteq> Poll_returned r"
  shows "\<exists>pc' ms'. thread_step og bk pc ms = Inr (pc', ms') \<and> remaining pc' < remaining pc"
  using assms by (cases pc) (auto simp: notify_texts split: prod.split)

text \<open>A thread that runs without interference, as a function: the rest of its way within \<open>n\<close> steps.\<close>

fun finish :: "uid \<Rightarrow> uid \<Rightarrow> nat \<Rightarrow> poll_pc \<Rightarrow> master \<Rightarrow> (bool \<times> master) result" where
  "finish og bk n (Poll_returned r) ms = Inr (r, ms)"
| "finish og bk 0 pc ms = Inl Undefined"
| "finish og bk (Suc n) pc ms = bindE (thread_step og bk pc ms) (\<lambda>(pc', ms'). finish og bk n pc' ms')"

lemma finish_step:
  "thread_step og bk pc ms = Inr (pc', ms') \<Longrightarrow> finish og bk (Suc n) pc ms = finish og bk n pc' ms'"
  by (cases pc) auto

lemma finish_numeral:
  "thread_step og bk pc ms = Inr (pc', ms') \<Longrightarrow> finish og bk (numeral k) pc ms = finish og bk (pred_numeral k) pc' ms'"
  by (simp add: numeral_eq_Suc finish_step)

lemma finish_fuel: "remaining pc \<le> n \<Longrightarrow> finish og bk (n + k) pc ms = finish og bk n pc ms"
proof (induction n arbitrary: pc ms)
  case 0
  then show ?case by (cases pc) auto
next
  case (Suc n)
  show ?case
  proof (cases "\<exists>r. pc = Poll_returned r")
    case False
    with thread_step_total[of pc og bk ms] obtain pc' ms'
      where s: "thread_step og bk pc ms = Inr (pc', ms')" "remaining pc' < remaining pc" by blast
    with Suc.prems Suc.IH[of pc' ms'] show ?thesis by (simp add: finish_step)
  qed auto
qed

lemma HasResponseRecived_steps:
  "HasResponseRecived u (ms_watch ms) =
     (let (found, ms') = look_up u ms in (found, ms_watch (if found then erase u ms' else ms')))"
  by (simp add: HasResponseRecived_def look_up_def erase_def Let_def split_beta)

lemma look_up_watch: "look_up u ms = (r, ms') \<Longrightarrow> ms' = ms\<lparr>ms_watch := ms_watch ms'\<rparr>"
  by (auto simp: look_up_def split: prod.splits)

lemma finish_decided:
  "finish og bk 9 (Decide r b) ms =
     (if r \<and> b then bindE (NotifySucces_default ms) (\<lambda>ms. Inr (True, ms))
      else let oc = ms_og_counter ms + (if \<not> r then 1 else 0); bc = ms_backup_counter ms + (if \<not> b then 1 else 0)
           in if 50 = oc \<or> 50 = bc then
                bindE (if oc = 50 then NotifySucces (c_str ''couldnt write og'') 15 ms
                       else NotifySucces (c_str ''couldnt write backup'') 20 ms) (\<lambda>ms.
                  Inr (True, ms\<lparr>ms_og_counter := 0, ms_backup_counter := 0\<rparr>))
              else Inr (False, ms\<lparr>ms_og_counter := oc, ms_backup_counter := bc\<rparr>))"
  by (cases r; cases b) (simp_all add: eval_nat_numeral notify_texts)

text \<open>\<open>HasResponseRecived\<close> is the subscript and the erasure in one.\<close>

definition ask :: "uid \<Rightarrow> master \<Rightarrow> bool \<times> master" where
  "ask u ms = (let (r, w) = HasResponseRecived u (ms_watch ms) in (r, ms\<lparr>ms_watch := w\<rparr>))"

lemma ask_look_up: "ask u ms = (let (found, ms') = look_up u ms in (found, if found then erase u ms' else ms'))"
  by (simp add: ask_def look_up_def erase_def HasResponseRecived_def Let_def split_beta)

lemma finish_asks:
  assumes "ask u ms = (r, ms')"
  shows "u = og \<Longrightarrow> finish og bk 13 Ask_og ms = finish og bk 11 (Ask_backup r) ms'"
    and "u = bk \<Longrightarrow> finish og bk 11 (Ask_backup o') ms = finish og bk 9 (Decide o' r) ms'"
proof -
  obtain found ms1 where l: "look_up u ms = (found, ms1)" by fastforce
  note fuel = finish_fuel[of "Ask_backup False" 11 og bk 1] finish_fuel[of "Decide o' False" 9 og bk 1]
  have s: "found = r" "ms' = (if r then erase u ms1 else ms1)" using assms l by (auto simp: ask_look_up)
  show "finish og bk 13 Ask_og ms = finish og bk 11 (Ask_backup r) ms'" if "u = og"
  proof (cases r)
    case True
    have "thread_step og bk Ask_og ms = Inr (Erase_og, ms1)"
      and "thread_step og bk Erase_og ms1 = Inr (Ask_backup True, ms')" using that True s l by simp_all
    from finish_numeral[OF this(1)] finish_numeral[OF this(2)] True show ?thesis by simp
  next
    case False
    have "thread_step og bk Ask_og ms = Inr (Ask_backup False, ms')" using that False s l by simp
    from finish_numeral[OF this] fuel(1) False show ?thesis by simp
  qed
  show "finish og bk 11 (Ask_backup o') ms = finish og bk 9 (Decide o' r) ms'" if "u = bk"
  proof (cases r)
    case True
    have "thread_step og bk (Ask_backup o') ms = Inr (Erase_backup o', ms1)"
      and "thread_step og bk (Erase_backup o') ms1 = Inr (Decide o' True, ms')" using that True s l by simp_all
    from finish_numeral[OF this(1)] finish_numeral[OF this(2)] True show ?thesis by simp
  next
    case False
    have "thread_step og bk (Ask_backup o') ms = Inr (Decide o' False, ms')" using that False s l by simp
    from finish_numeral[OF this] fuel(2) False show ?thesis by simp
  qed
qed

lemma finish_is_call: "finish og bk 13 Ask_og ms = WriteAIFunc_call og bk ms"
proof -
  obtain r1 ms1 r2 ms2 where a: "ask og ms = (r1, ms1)" "ask bk ms1 = (r2, ms2)" by fastforce
  obtain w1 w2 where h: "HasResponseRecived og (ms_watch ms) = (r1, w1)" "HasResponseRecived bk w1 = (r2, w2)"
    and m: "ms2 = ms\<lparr>ms_watch := w2\<rparr>"
    using a by (auto simp: ask_def split: prod.splits)
  show ?thesis
    unfolding finish_asks(1)[OF a(1) refl] finish_asks(2)[OF a(2) refl] finish_decided
    by (simp add: WriteAIFunc_call_def h m Let_def)
qed

lemma finish_run:
  assumes "thread_step og bk pc ms = Inr (pc', ms')"
  shows "finish og bk (remaining pc) pc ms = finish og bk (remaining pc') pc' ms'"
proof -
  from thread_step_total[of pc og bk ms] assms have lt: "remaining pc' < remaining pc" by (cases pc) auto
  then obtain k where k: "remaining pc = Suc (remaining pc' + k)" using less_imp_Suc_add by blast
  show ?thesis unfolding k finish_step[OF assms] by (rule finish_fuel) simp
qed

subsection \<open>Moving steps past each other\<close>

text \<open>The steps of one thread alone.\<close>

inductive alone :: "uid \<Rightarrow> uid \<Rightarrow> master \<Rightarrow> poll_pc \<Rightarrow> master \<Rightarrow> bool" for og bk :: uid where
  al_start: "alone og bk ms Ask_og ms"
| al_step: "alone og bk ms pc ms1 \<Longrightarrow> thread_step og bk pc ms1 = Inr (pc', ms2) \<Longrightarrow> alone og bk ms pc' ms2"

lemma alone_finish: "alone og bk ms pc ms' \<Longrightarrow> finish og bk (remaining pc) pc ms' = WriteAIFunc_call og bk ms"
  by (induction rule: alone.induct) (simp add: finish_is_call, metis finish_run)

text \<open>A step of another thread that comes before a step of the poll can come after it ...\<close>

fun late :: "uid \<Rightarrow> poll_pc \<Rightarrow> watch_event \<Rightarrow> bool" where
  "late bk Ask_og e = False"
| "late bk Erase_og e = False"
| "late bk (Ask_backup _) e = (event_key e \<noteq> GetUniqueCounter bk)"
| "late bk (Erase_backup _) e = (event_key e \<noteq> GetUniqueCounter bk)"
| "late bk _ e = True"

lemmas watch_defs = look_up_def erase_def subscript_def RegisterResponse_def Let_def

lemma watch_step_frame:
  assumes "watch_step h e ms ms1"
  obtains c w where "ms1 = ms\<lparr>ms_counter := c, ms_watch := w\<rparr>"
    and "\<And>ms'. ms_counter ms' = ms_counter ms \<Longrightarrow> ms_watch ms' = ms_watch ms \<Longrightarrow>
      watch_step h e ms' (ms'\<lparr>ms_counter := c, ms_watch := w\<rparr>)"
proof
  show "ms1 = ms\<lparr>ms_counter := ms_counter ms1, ms_watch := ms_watch ms1\<rparr>"
    using assms by (cases rule: watch_step.cases) (simp_all add: look_up_def erase_def split_beta)
  show "watch_step h e ms' (ms'\<lparr>ms_counter := ms_counter ms1, ms_watch := ms_watch ms1\<rparr>)"
    if "ms_counter ms' = ms_counter ms" "ms_watch ms' = ms_watch ms" for ms'
    using assms by (cases rule: watch_step.cases) (auto simp: look_up_def erase_def split_beta that intro!: exI)
qed

text \<open>From the decision on, the poll does not touch the watch list.\<close>

fun asking :: "poll_pc \<Rightarrow> bool" where
  "asking Ask_og = True" | "asking Erase_og = True" | "asking (Ask_backup _) = True" | "asking (Erase_backup _) = True"
| "asking _ = False"

lemma decided_step:
  assumes "\<not> asking pc" and "thread_step og bk pc (ms\<lparr>ms_counter := c, ms_watch := w\<rparr>) = Inr (pc', ms2)"
  shows "\<exists>ms'. thread_step og bk pc ms = Inr (pc', ms') \<and> ms2 = ms'\<lparr>ms_counter := c, ms_watch := w\<rparr> \<and>
    ms_counter ms' = ms_counter ms \<and> ms_watch ms' = ms_watch ms"
  using assms by (cases pc) (auto simp: notify_texts split: if_splits)

text \<open>The accesses of the poll touch one key of the map and nothing else.\<close>

lemma asking_step:
  assumes "thread_step og bk pc ms = Inr (pc', ms')" and "asking pc"
  obtains k v where "k = GetUniqueCounter (if pc \<in> {Ask_og, Erase_og} then og else bk)"
    and "ms' = ms\<lparr>ms_watch := (ms_watch ms)(k := v)\<rparr>"
    and "\<forall>ms1. ms_watch ms1 k = ms_watch ms k \<longrightarrow>
      thread_step og bk pc ms1 = Inr (pc', ms1\<lparr>ms_watch := (ms_watch ms1)(k := v)\<rparr>)"
proof -
  let ?k = "GetUniqueCounter (if pc \<in> {Ask_og, Erase_og} then og else bk)"
  show thesis
  proof (rule that[where k = ?k and v = "ms_watch ms' ?k"])
    show "ms' = ms\<lparr>ms_watch := (ms_watch ms)(?k := ms_watch ms' ?k)\<rparr>"
      using assms by (cases pc) (auto simp: watch_defs fun_upd_idem split: option.splits if_splits)
    show "\<forall>ms1. ms_watch ms1 ?k = ms_watch ms ?k \<longrightarrow>
      thread_step og bk pc ms1 = Inr (pc', ms1\<lparr>ms_watch := (ms_watch ms1)(?k := ms_watch ms' ?k)\<rparr>)"
      using assms by (cases pc) (auto simp: watch_defs fun_upd_idem split: option.splits if_splits)
  qed simp
qed

text \<open>So do the accesses of the other threads.\<close>

lemma watch_step_at:
  assumes "watch_step h e ms ms'"
  obtains v c where "ms' = ms\<lparr>ms_counter := c, ms_watch := (ms_watch ms)(event_key e := v)\<rparr>"
    and "\<forall>ms1. ms_counter ms1 = ms_counter ms \<and> ms_watch ms1 (event_key e) = ms_watch ms (event_key e) \<longrightarrow>
      watch_step h e ms1 (ms1\<lparr>ms_counter := c, ms_watch := (ms_watch ms1)(event_key e := v)\<rparr>)"
proof -
  show thesis
  proof (rule that[where c = "ms_counter ms'" and v = "ms_watch ms' (event_key e)"])
    show "ms' = ms\<lparr>ms_counter := ms_counter ms', ms_watch := (ms_watch ms)(event_key e := ms_watch ms' (event_key e))\<rparr>"
      using assms
      by (cases rule: watch_step.cases)
        (auto simp: watch_defs RegisterCommand_def GetUniqueCounter_def bindE_eq_Inr_iff fun_upd_idem split: option.splits)
    show "\<forall>ms1. ms_counter ms1 = ms_counter ms \<and> ms_watch ms1 (event_key e) = ms_watch ms (event_key e) \<longrightarrow>
      watch_step h e ms1 (ms1\<lparr>ms_counter := ms_counter ms', ms_watch := (ms_watch ms1)(event_key e := ms_watch ms' (event_key e))\<rparr>)"
      using assms
      by (cases rule: watch_step.cases)
        (auto simp: watch_defs RegisterCommand_def GetUniqueCounter_def bindE_eq_Inr_iff fun_upd_idem split: option.splits)
  qed
qed

lemma postpone_event:
  assumes "watch_step h e ms ms1" and "thread_step og bk pc ms1 = Inr (pc', ms2)" and "late bk pc e"
  shows "\<exists>ms'. thread_step og bk pc ms = Inr (pc', ms') \<and> watch_step h e ms' ms2"
proof (cases "asking pc")
  case False
  from watch_step_frame[OF assms(1)] obtain c w where "ms1 = ms\<lparr>ms_counter := c, ms_watch := w\<rparr>"
    and f: "\<And>ms'. ms_counter ms' = ms_counter ms \<Longrightarrow> ms_watch ms' = ms_watch ms \<Longrightarrow>
      watch_step h e ms' (ms'\<lparr>ms_counter := c, ms_watch := w\<rparr>)" by blast
  with decided_step[OF False] assms(2) obtain ms' where "thread_step og bk pc ms = Inr (pc', ms')"
    "ms2 = ms'\<lparr>ms_counter := c, ms_watch := w\<rparr>" "ms_counter ms' = ms_counter ms" "ms_watch ms' = ms_watch ms" by blast
  with f show ?thesis by blast
next
  case True
  obtain k v where k: "k = GetUniqueCounter (if pc \<in> {Ask_og, Erase_og} then og else bk)"
    and m2: "ms2 = ms1\<lparr>ms_watch := (ms_watch ms1)(k := v)\<rparr>"
    and t: "\<forall>m. ms_watch m k = ms_watch ms1 k \<longrightarrow> thread_step og bk pc m = Inr (pc', m\<lparr>ms_watch := (ms_watch m)(k := v)\<rparr>)"
    by (rule asking_step[OF assms(2) True])
  obtain v' c where m1: "ms1 = ms\<lparr>ms_counter := c, ms_watch := (ms_watch ms)(event_key e := v')\<rparr>"
    and e: "\<forall>m. ms_counter m = ms_counter ms \<and> ms_watch m (event_key e) = ms_watch ms (event_key e) \<longrightarrow>
      watch_step h e m (m\<lparr>ms_counter := c, ms_watch := (ms_watch m)(event_key e := v')\<rparr>)"
    by (rule watch_step_at[OF assms(1)])
  have ne: "event_key e \<noteq> k" using assms(3) True k by (cases pc) auto
  let ?m = "ms\<lparr>ms_watch := (ms_watch ms)(k := v)\<rparr>"
  have "thread_step og bk pc ms = Inr (pc', ?m)" using t ne m1 by simp
  moreover have "watch_step h e ?m ms2" using e[rule_format, of ?m] ne m1 m2 by (simp add: fun_upd_twist)
  ultimately show ?thesis by blast
qed

text \<open>
  ... and a step of another thread that comes after a step of the poll can come before it,
  when it does not change what the poll finds. The condition is on where the poll stands then.
\<close>

fun is_response :: "watch_event \<Rightarrow> bool" where
  "is_response (Responded u) = True"
| "is_response _ = False"

fun early :: "uid \<Rightarrow> uid \<Rightarrow> poll_pc \<Rightarrow> watch_event \<Rightarrow> bool" where
  "early og bk Ask_og e = True"
| "early og bk Erase_og e = (event_key e \<noteq> GetUniqueCounter og \<or> is_response e)"
| "early og bk (Ask_backup _) e = (event_key e \<noteq> GetUniqueCounter og)"
| "early og bk (Erase_backup _) e =
     (event_key e \<noteq> GetUniqueCounter og \<and> (event_key e \<noteq> GetUniqueCounter bk \<or> is_response e))"
| "early og bk _ e = False"

lemma response_step:
  assumes "is_response e"
  shows "watch_step h e ms ms' \<longleftrightarrow> ms' = ms\<lparr>ms_watch := (ms_watch ms)(event_key e \<mapsto> DONE)\<rparr>"
  using assms by (cases e) (simp_all add: RegisterResponse_def Let_def)

text \<open>A thread that has found an entry done finds it done after one more response, too.\<close>

lemma found_step:
  assumes "thread_step og bk pc ms = Inr (pc', ms')" and "pc' = Erase_og \<or> (\<exists>o'. pc' = Erase_backup o')"
  defines "k \<equiv> GetUniqueCounter (if pc' = Erase_og then og else bk)"
  shows "ms' = ms" and "thread_step og bk pc (ms\<lparr>ms_watch := (ms_watch ms)(k \<mapsto> DONE)\<rparr>) =
    Inr (pc', ms\<lparr>ms_watch := (ms_watch ms)(k \<mapsto> DONE)\<rparr>)"
proof -
  have "ms' = ms \<and> thread_step og bk pc (ms\<lparr>ms_watch := (ms_watch ms)(k \<mapsto> DONE)\<rparr>) =
    Inr (pc', ms\<lparr>ms_watch := (ms_watch ms)(k \<mapsto> DONE)\<rparr>)"
    using assms(1,2) by (cases pc) (auto simp: k_def watch_defs notify_texts split: option.splits if_splits)
  then show "ms' = ms" and "thread_step og bk pc (ms\<lparr>ms_watch := (ms_watch ms)(k \<mapsto> DONE)\<rparr>) =
    Inr (pc', ms\<lparr>ms_watch := (ms_watch ms)(k \<mapsto> DONE)\<rparr>)" by auto
qed

lemma asking_before: "thread_step og bk pc ms = Inr (pc', ms') \<Longrightarrow> asking pc' \<Longrightarrow> asking pc"
  by (cases pc) (auto simp: notify_texts split: if_splits)

lemma advance_event:
  assumes "thread_step og bk pc ms = Inr (pc', ms1)" and "watch_step h e ms1 ms2" and "asking pc'" and "early og bk pc' e"
  shows "\<exists>ms'. watch_step h e ms ms' \<and> thread_step og bk pc ms' = Inr (pc', ms2) \<and> early og bk pc e"
proof -
  note ask = asking_before[OF assms(1,3)]
  have ok: "early og bk pc e" using assms(1,3,4) by (cases pc) (auto simp: notify_texts split: prod.splits if_splits)
  let ?k = "GetUniqueCounter (if pc \<in> {Ask_og, Erase_og} then og else bk)"
  show ?thesis
  proof (cases "event_key e = ?k")
    case True
    have f: "pc' = Erase_og \<or> (\<exists>o'. pc' = Erase_backup o')" and r: "is_response e"
      and k: "?k = GetUniqueCounter (if pc' = Erase_og then og else bk)"
      using assms(1,3,4) True by (cases pc; auto simp: notify_texts split: prod.splits if_splits)+
    from found_step[OF assms(1) f] assms(2) response_step[OF r] True k ok show ?thesis by metis
  next
    case False
    obtain k v where k: "k = ?k" and m1: "ms1 = ms\<lparr>ms_watch := (ms_watch ms)(k := v)\<rparr>"
      and t: "\<forall>m. ms_watch m k = ms_watch ms k \<longrightarrow> thread_step og bk pc m = Inr (pc', m\<lparr>ms_watch := (ms_watch m)(k := v)\<rparr>)"
      by (rule asking_step[OF assms(1) ask])
    obtain v' c where m2: "ms2 = ms1\<lparr>ms_counter := c, ms_watch := (ms_watch ms1)(event_key e := v')\<rparr>"
      and e: "\<forall>m. ms_counter m = ms_counter ms1 \<and> ms_watch m (event_key e) = ms_watch ms1 (event_key e) \<longrightarrow>
        watch_step h e m (m\<lparr>ms_counter := c, ms_watch := (ms_watch m)(event_key e := v')\<rparr>)"
      by (rule watch_step_at[OF assms(2)])
    let ?m = "ms\<lparr>ms_counter := c, ms_watch := (ms_watch ms)(event_key e := v')\<rparr>"
    have ne: "event_key e \<noteq> k" using False k by simp
    have "watch_step h e ms ?m" using e[rule_format, of ms] ne m1 by simp
    moreover have "thread_step og bk pc ?m = Inr (pc', ms2)"
      using t[rule_format, of ?m] ne m1 m2 by (simp add: fun_upd_twist)
    ultimately show ?thesis using ok by blast
  qed
qed

lemma advance_before_poll:
  assumes "alone og bk ms pc ms1" and "watch_step h e ms1 ms2" and "asking pc" and "early og bk pc e"
  shows "\<exists>ms'. watch_step h e ms ms' \<and> alone og bk ms' pc ms2"
  using assms
proof (induction arbitrary: ms2 rule: alone.induct)
  case (al_start ms)
  then show ?case by (blast intro: alone.al_start)
next
  case (al_step ms pc ms1 pc' ms3)
  from advance_event[OF al_step.hyps(2) al_step.prems] obtain ms' where
    "watch_step h e ms1 ms'" "thread_step og bk pc ms' = Inr (pc', ms2)" "early og bk pc e" by blast
  with al_step.IH[of ms'] asking_before[OF al_step.hyps(2) al_step.prems(2)] show ?case
    by (blast intro: alone.al_step)
qed

subsection \<open>A poll among the steps of the others\<close>

lemma watch_run_snoc: "watch_run h ms es ms1 \<Longrightarrow> watch_step h e ms1 ms2 \<Longrightarrow> watch_run h ms (es @ [e]) ms2"
  by (rule watch_run.wr_step)

lemma postpone_events:
  assumes "watch_run h ms es ms1" and "thread_step og bk pc ms1 = Inr (pc', ms2)" and "\<forall>e \<in> set es. late bk pc e"
  shows "\<exists>ms'. thread_step og bk pc ms = Inr (pc', ms') \<and> watch_run h ms' es ms2"
  using assms
proof (induction arbitrary: ms2 rule: watch_run.induct)
  case (wr_none ms)
  then show ?case by (blast intro: watch_run.wr_none)
next
  case (wr_step ms es ms1 e ms3)
  from postpone_event[OF wr_step.hyps(2) wr_step.prems(1)] wr_step.prems(2) obtain ms'
    where "thread_step og bk pc ms1 = Inr (pc', ms')" "watch_step h e ms' ms2" by auto
  with wr_step.IH[of ms'] wr_step.prems(2) show ?case by (auto intro: watch_run.wr_step)
qed

lemma advance_before_responses:
  assumes "watch_run h ms es ms1" and "watch_step h e ms1 ms2"
    and "\<forall>x \<in> set es. is_response x \<and> event_key x \<noteq> event_key e"
  shows "\<exists>ms'. watch_step h e ms ms' \<and> watch_run h ms' es ms2"
  using assms
proof (induction arbitrary: ms2 rule: watch_run.induct)
  case (wr_none ms)
  then show ?case by (blast intro: watch_run.wr_none)
next
  case (wr_step ms es ms1 x ms3)
  have r: "is_response x" "event_key x \<noteq> event_key e" using wr_step.prems(2) by simp_all
  note m3 = wr_step.hyps(2)[unfolded response_step[OF r(1)]]
  obtain v c where m2: "ms2 = ms3\<lparr>ms_counter := c, ms_watch := (ms_watch ms3)(event_key e := v)\<rparr>"
    and e: "\<forall>m. ms_counter m = ms_counter ms3 \<and> ms_watch m (event_key e) = ms_watch ms3 (event_key e) \<longrightarrow>
      watch_step h e m (m\<lparr>ms_counter := c, ms_watch := (ms_watch m)(event_key e := v)\<rparr>)"
    by (rule watch_step_at[OF wr_step.prems(1)])
  let ?m = "ms1\<lparr>ms_counter := c, ms_watch := (ms_watch ms1)(event_key e := v)\<rparr>"
  have "watch_step h e ms1 ?m" using e[rule_format, of ms1] r(2) m3 by simp
  moreover have "watch_step h x ?m ms2" using r m2 m3 by (simp add: response_step fun_upd_twist)
  ultimately show ?case using wr_step.IH[of ?m] wr_step.prems(2) by (auto intro: watch_run.wr_step)
qed


text \<open>
  The responses to the poll itself, and which steps of the others have been moved behind the
  part of the poll that is done: while the poll asks, only the answer to what it has asked.
\<close>

fun own_response :: "uid \<Rightarrow> uid \<Rightarrow> watch_event \<Rightarrow> bool" where
  "own_response og bk (Responded u) \<longleftrightarrow> GetUniqueCounter u \<in> {GetUniqueCounter og, GetUniqueCounter bk}"
| "own_response og bk _ \<longleftrightarrow> False"

fun deferred :: "uid \<Rightarrow> poll_pc \<Rightarrow> watch_event \<Rightarrow> bool" where
  "deferred og Ask_og e = False"
| "deferred og Erase_og e = False"
| "deferred og (Ask_backup _) e = (is_response e \<and> event_key e = GetUniqueCounter og)"
| "deferred og (Erase_backup _) e = (is_response e \<and> event_key e = GetUniqueCounter og)"
| "deferred og _ e = True"

lemma own_response_iff:
  "own_response og bk e \<longleftrightarrow> is_response e \<and> event_key e \<in> {GetUniqueCounter og, GetUniqueCounter bk}"
  by (cases e) simp_all

lemma deferred_late: "GetUniqueCounter og \<noteq> GetUniqueCounter bk \<Longrightarrow> deferred og pc e \<Longrightarrow> late bk pc e"
  by (cases pc) auto

lemma deferred_mono: "thread_step og bk pc ms = Inr (pc', ms') \<Longrightarrow> deferred og pc e \<Longrightarrow> deferred og pc' e"
  by (cases pc) (auto simp: notify_texts split: prod.splits if_splits)

definition serialised :: "host \<Rightarrow> uid \<Rightarrow> uid \<Rightarrow> master \<Rightarrow> watch_event list \<Rightarrow> poll_pc \<Rightarrow> master \<Rightarrow> bool" where
  "serialised h og bk ms0 es pc ms \<longleftrightarrow>
     (\<exists>before after ms1 ms2. mset (before @ after) = mset es \<and>
        filter (\<lambda>e. \<not> own_response og bk e) (before @ after) = filter (\<lambda>e. \<not> own_response og bk e) es \<and>
        watch_run h ms0 before ms1 \<and> alone og bk ms1 pc ms2 \<and> watch_run h ms2 after ms \<and> (\<forall>e \<in> set after. deferred og pc e))"

lemma serialised_own_step:
  assumes "serialised h og bk ms0 es pc ms" and "thread_step og bk pc ms = Inr (pc', ms')"
    and "GetUniqueCounter og \<noteq> GetUniqueCounter bk"
  shows "serialised h og bk ms0 es pc' ms'"
proof -
  from assms(1) obtain before after ms1 ms2 where s: "mset (before @ after) = mset es"
    "filter (\<lambda>e. \<not> own_response og bk e) (before @ after) = filter (\<lambda>e. \<not> own_response og bk e) es"
    "watch_run h ms0 before ms1" "alone og bk ms1 pc ms2" "watch_run h ms2 after ms" "\<forall>e \<in> set after. deferred og pc e"
    unfolding serialised_def by blast
  from postpone_events[OF s(5) assms(2)] deferred_late[OF assms(3)] s(6) obtain ms3
    where "thread_step og bk pc ms2 = Inr (pc', ms3)" "watch_run h ms3 after ms'" by blast
  with s deferred_mono[OF assms(2)] show ?thesis
    unfolding serialised_def by (blast intro: alone.al_step)
qed

lemma serialised_other_step:
  assumes "serialised h og bk ms0 es pc ms" and "watch_step h e ms ms'"
    and "GetUniqueCounter og \<noteq> GetUniqueCounter bk"
    and own: "event_key e \<in> {GetUniqueCounter og, GetUniqueCounter bk} \<Longrightarrow> own_response og bk e"
  shows "serialised h og bk ms0 (es @ [e]) pc ms'"
proof -
  let ?f = "filter (\<lambda>e. \<not> own_response og bk e)"
  from assms(1) obtain before after ms1 ms2 where s: "mset (before @ after) = mset es" "?f (before @ after) = ?f es"
    "watch_run h ms0 before ms1" "alone og bk ms1 pc ms2" "watch_run h ms2 after ms" "\<forall>e \<in> set after. deferred og pc e"
    unfolding serialised_def by blast
  show ?thesis
  proof (cases "deferred og pc e")
    case True
    have "watch_run h ms2 (after @ [e]) ms'" by (rule watch_run_snoc[OF s(5) assms(2)])
    moreover have "mset (before @ after @ [e]) = mset (es @ [e])" "?f (before @ after @ [e]) = ?f (es @ [e])"
      using s(1,2) by simp_all
    ultimately show ?thesis using s(3,4,6) True unfolding serialised_def by (metis UnE set_ConsD empty_iff list.set(1) set_append)
  next
    case False
    have a: "asking pc" and e: "early og bk pc e"
      and r: "\<forall>x \<in> set after. is_response x \<and> event_key x \<noteq> event_key e"
      using False own s(6) by (cases pc; auto simp: own_response_iff)+
    from r s(6) a have f: "?f after = []" by (cases pc) (auto simp: own_response_iff filter_empty_conv)
    from advance_before_responses[OF s(5) assms(2) r] obtain ms3 where
      m3: "watch_step h e ms2 ms3" "watch_run h ms3 after ms'" by blast
    from advance_before_poll[OF s(4) m3(1) a e] obtain ms4 where
      m4: "watch_step h e ms1 ms4" "alone og bk ms4 pc ms3" by blast
    have "watch_run h ms0 (before @ [e]) ms4" by (rule watch_run_snoc[OF s(3) m4(1)])
    moreover have "mset ((before @ [e]) @ after) = mset (es @ [e])" using s(1) by simp
    moreover have "?f ((before @ [e]) @ after) = ?f (es @ [e])" using s(2) f by simp
    ultimately show ?thesis using m4(2) m3(2) s(6) unfolding serialised_def by blast
  qed
qed

lemma one_thread_serialised:
  assumes "threads_run h ([(og, bk, Ask_og)], ms0) es (ts, ms)"
    and "GetUniqueCounter og \<noteq> GetUniqueCounter bk"
    and "\<forall>e \<in> set es. event_key e \<in> {GetUniqueCounter og, GetUniqueCounter bk} \<longrightarrow> own_response og bk e"
  shows "\<exists>pc. ts = [(og, bk, pc)] \<and> serialised h og bk ms0 es pc ms"
  using assms(1,3)
proof (induction "([(og, bk, Ask_og)], ms0)" es "(ts, ms)" arbitrary: ts ms rule: threads_run.induct)
  case tr_start
  have "serialised h og bk ms0 [] Ask_og ms0"
    unfolding serialised_def by (intro exI[of _ "[]"]) (auto intro: watch_run.wr_none alone.al_start)
  then show ?case by simp
next
  case (tr_poll es ts ms i og' bk' pc pc' ms')
  then have "ts = [(og, bk, pc)]" "i = 0" "og' = og" "bk' = bk" "serialised h og bk ms0 es pc ms" by auto
  with serialised_own_step[OF _ _ assms(2)] tr_poll.hyps(5) show ?case by auto
next
  case (tr_other es ts ms e ms')
  then have "\<exists>pc. ts = [(og, bk, pc)] \<and> serialised h og bk ms0 es pc ms" by auto
  with serialised_other_step[OF _ tr_other.hyps(3) assms(2)] tr_other.prems show ?case by auto
qed

subsection \<open>Runs of several threads\<close>

text \<open>Several steps of one thread, with nothing in between.\<close>

fun steps :: "uid \<Rightarrow> uid \<Rightarrow> nat \<Rightarrow> poll_pc \<Rightarrow> master \<Rightarrow> (poll_pc \<times> master) result" where
  "steps og bk 0 pc ms = Inr (pc, ms)"
| "steps og bk (Suc n) pc ms = bindE (thread_step og bk pc ms) (\<lambda>(pc, ms). steps og bk n pc ms)"

lemma threads_run_steps:
  "threads_run h c es (ts, ms) \<Longrightarrow> i < length ts \<Longrightarrow> ts ! i = (og, bk, pc) \<Longrightarrow>
   steps og bk n pc ms = Inr (pc', ms') \<Longrightarrow> threads_run h c es (ts[i := (og, bk, pc')], ms')"
proof (induction n arbitrary: ts ms pc)
  case 0
  then show ?case by (metis steps.simps(1) prod.inject sum.inject(2) list_update_id)
next
  case (Suc n)
  from Suc.prems(4) obtain pc1 ms1 where s: "thread_step og bk pc ms = Inr (pc1, ms1)" "steps og bk n pc1 ms1 = Inr (pc', ms')"
    by (auto simp: bindE_eq_Inr_iff)
  from Suc.IH[OF threads_run.tr_poll[OF Suc.prems(1-3) s(1)] _ _ s(2)] Suc.prems(2) show ?case by simp
qed

lemma one_thread_steps:
  "threads_run h c es ([(og, bk, pc)], ms) \<Longrightarrow> steps og bk n pc ms = Inr (pc', ms') \<Longrightarrow>
   threads_run h c es ([(og, bk, pc')], ms')"
  using threads_run_steps[of h c es "[(og, bk, pc)]" ms 0 og bk pc n pc' ms'] by simp

lemma look_up_result:
  "look_up u ms = (GetUniqueCounter u \<in> answered (ms_watch ms),
     if GetUniqueCounter u \<in> answered (ms_watch ms) then ms else ms\<lparr>ms_watch := snd (HasResponseRecived u (ms_watch ms))\<rparr>)"
  by (auto simp: HasResponseRecived_def answered_def watch_defs split: option.splits if_splits)

lemma response_arrives:
  "threads_run h c es (ts, ms) \<Longrightarrow>
   threads_run h c (es @ [Responded u]) (ts, ms\<lparr>ms_watch := RegisterResponse u (ms_watch ms)\<rparr>)"
  by (rule threads_run.tr_other) auto

lemma answered_erase: "answered (ms_watch (erase u ms)) = answered (ms_watch ms) - {GetUniqueCounter u}"
  by (auto simp: erase_def answered_def)

lemma joint_run:
  assumes "GetUniqueCounter og \<noteq> GetUniqueCounter bk"
  shows "\<exists>ms'. threads_run h ([(og, bk, Ask_og)], ms) [Responded og, Responded bk] ([(og, bk, Decide True True)], ms')"
proof -
  let ?ms = "ms\<lparr>ms_watch := RegisterResponse bk (RegisterResponse og (ms_watch ms))\<rparr>"
  have r: "threads_run h ([(og, bk, Ask_og)], ms) [Responded og, Responded bk] ([(og, bk, Ask_og)], ?ms)"
    using response_arrives[OF response_arrives[OF threads_run.tr_start[of h "([(og, bk, Ask_og)], ms)"]], of og bk] by simp
  have "\<exists>ms'. steps og bk 4 Ask_og ?ms = Inr (Decide True True, ms')"
    using assms by (simp add: eval_nat_numeral look_up_result answered_erase rm.view_respond)
  with one_thread_steps[OF r] show ?thesis by blast
qed

lemma master_init_answers:
  "counters_ok master_init" "ms_og_counter master_init < 49" "answered (ms_watch master_init) = {}" "ms_nbd_tx master_init = []"
  by (simp_all add: master_init_def counters_ok_def answered_def)

text \<open>The answers arrive between the two questions.\<close>

lemma split_run:
  assumes "GetUniqueCounter og \<noteq> GetUniqueCounter bk" and "GetUniqueCounter og \<notin> answered (ms_watch ms)"
    and "counters_ok ms" and "ms_og_counter ms < 49"
  shows "\<exists>ms'. threads_run h ([(og, bk, Ask_og)], ms) [Responded og, Responded bk] ([(og, bk, Poll_returned False)], ms') \<and>
    counters_ok ms' \<and> ms_nbd_tx ms' = ms_nbd_tx ms \<and> GetUniqueCounter bk \<notin> answered (ms_watch ms')"
proof -
  let ?w = "RegisterResponse bk (RegisterResponse og (snd (HasResponseRecived og (ms_watch ms))))"
  let ?ms = "ms\<lparr>ms_watch := ?w\<rparr>"
  have "steps og bk 1 Ask_og ms = Inr (Ask_backup False, ms\<lparr>ms_watch := snd (HasResponseRecived og (ms_watch ms))\<rparr>)"
    using assms(2) by (simp add: look_up_result)
  from response_arrives[OF response_arrives[OF one_thread_steps[OF threads_run.tr_start[of h] this]], of og bk]
  have r: "threads_run h ([(og, bk, Ask_og)], ms) [Responded og, Responded bk] ([(og, bk, Ask_backup False)], ?ms)" by simp
  have "steps og bk 7 (Ask_backup False) ?ms =
      Inr (Poll_returned False, (erase bk ?ms)\<lparr>ms_og_counter := ms_og_counter ms + 1\<rparr>)"
    using assms(3,4) by (simp add: eval_nat_numeral look_up_result rm.view_respond counters_ok_def erase_def)
  from one_thread_steps[OF r this] assms(3,4) show ?thesis
    by (intro exI[of _ "(erase bk ?ms)\<lparr>ms_og_counter := ms_og_counter ms + 1\<rparr>"])
      (simp add: counters_ok_def answered_erase, simp add: erase_def)
qed

text \<open>What a thread has found has arrived: invariant of all threads.\<close>

definition arrived :: "master \<Rightarrow> watch_event list \<Rightarrow> u32 set" where
  "arrived ms0 es = answered (ms_watch ms0) \<union> {GetUniqueCounter u | u. Responded u \<in> set es}"

fun knows :: "uid \<Rightarrow> uid \<Rightarrow> poll_pc \<Rightarrow> u32 set" where
  "knows og bk Erase_og = {GetUniqueCounter og}"
| "knows og bk (Ask_backup o') = (if o' then {GetUniqueCounter og} else {})"
| "knows og bk (Erase_backup o') = insert (GetUniqueCounter bk) (if o' then {GetUniqueCounter og} else {})"
| "knows og bk (Decide o' b) = (if o' then {GetUniqueCounter og} else {}) \<union> (if b then {GetUniqueCounter bk} else {})"
| "knows og bk _ = {}"

definition found_ok :: "master \<Rightarrow> watch_event list \<Rightarrow> poll_thread list \<Rightarrow> master \<Rightarrow> bool" where
  "found_ok ms0 es ts ms \<longleftrightarrow> answered (ms_watch ms) \<subseteq> arrived ms0 es \<and>
     (\<forall>(og, bk, pc) \<in> set ts. knows og bk pc \<subseteq> arrived ms0 es)"

lemma thread_step_answered:
  assumes "thread_step og bk pc ms = Inr (pc', ms')"
  shows "answered (ms_watch ms') \<subseteq> answered (ms_watch ms)" and "knows og bk pc' \<subseteq> knows og bk pc \<union> answered (ms_watch ms)"
proof -
  have a: "answered (snd (HasResponseRecived u w)) = answered w - {GetUniqueCounter u}" for u w by (rule rm.view_ask)
  show "answered (ms_watch ms') \<subseteq> answered (ms_watch ms)"
    using assms by (cases pc) (auto simp: look_up_result answered_erase notify_texts a split: if_splits)
  show "knows og bk pc' \<subseteq> knows og bk pc \<union> answered (ms_watch ms)"
    using assms by (cases pc) (auto simp: look_up_result notify_texts split: if_splits)
qed

lemma watch_step_answered:
  "watch_step h e ms ms' \<Longrightarrow> answered (ms_watch ms') \<subseteq> answered (ms_watch ms) \<union> {GetUniqueCounter u | u. e = Responded u}"
  by (cases rule: watch_step.cases)
    (auto simp: rm.view_respond look_up_result answered_erase rm.view_ask answered_RegisterCommand split: if_splits)

lemma threads_found:
  assumes "threads_run h (ts0, ms0) es (ts, ms)" and "\<forall>t \<in> set ts0. snd (snd t) = Ask_og"
  shows "found_ok ms0 es ts ms"
  using assms(1)
proof (induction "(ts0, ms0)" es "(ts, ms)" arbitrary: ts ms rule: threads_run.induct)
  case tr_start
  then show ?case using assms(2) by (fastforce simp: found_ok_def arrived_def)
next
  case (tr_poll es ts ms i og bk pc pc' ms')
  from tr_poll.hyps(2) have f: "answered (ms_watch ms) \<subseteq> arrived ms0 es" "\<forall>(og, bk, pc) \<in> set ts. knows og bk pc \<subseteq> arrived ms0 es"
    by (auto simp: found_ok_def)
  have "(og, bk, pc) \<in> set ts" using tr_poll.hyps(3,4) by (metis nth_mem)
  with f thread_step_answered[OF tr_poll.hyps(5)] have "answered (ms_watch ms') \<subseteq> arrived ms0 es" "knows og bk pc' \<subseteq> arrived ms0 es"
    by blast+
  moreover have "set (ts[i := (og, bk, pc')]) \<subseteq> insert (og, bk, pc') (set ts)" by (rule set_update_subset_insert)
  ultimately show ?case using f(2) unfolding found_ok_def by blast
next
  case (tr_other es ts ms e ms')
  have "arrived ms0 (es @ [e]) = arrived ms0 es \<union> {GetUniqueCounter u | u. e = Responded u}" by (auto simp: arrived_def)
  with tr_other.hyps(2) watch_step_answered[OF tr_other.hyps(3)] show ?case unfolding found_ok_def by fastforce
qed

text \<open>A poll that finds no answer, up to the test of the counters; and polls once the counters are past the limit.\<close>

lemma unanswered_steps:
  assumes "GetUniqueCounter og \<notin> answered (ms_watch ms)" and "GetUniqueCounter bk \<notin> answered (ms_watch ms)"
  obtains w where "answered w \<subseteq> answered (ms_watch ms)"
    and "steps og bk 6 Ask_og ms = Inr (Test_og, ms\<lparr>ms_watch := w, ms_og_counter := ms_og_counter ms + 1,
      ms_backup_counter := ms_backup_counter ms + 1\<rparr>)"
proof
  let ?w = "snd (HasResponseRecived bk (snd (HasResponseRecived og (ms_watch ms))))"
  show "answered ?w \<subseteq> answered (ms_watch ms)" by (auto simp: rm.view_ask)
  show "steps og bk 6 Ask_og ms = Inr (Test_og, ms\<lparr>ms_watch := ?w, ms_og_counter := ms_og_counter ms + 1,
      ms_backup_counter := ms_backup_counter ms + 1\<rparr>)"
    using assms by (simp add: eval_nat_numeral look_up_result rm.view_ask)
qed

lemma unanswered_polls:
  assumes "GetUniqueCounter og \<noteq> GetUniqueCounter bk"
  shows "answered (ms_watch ms) = {} \<Longrightarrow> ms_og_counter ms + int n < 50 \<Longrightarrow> ms_backup_counter ms + int n < 50 \<Longrightarrow>
    \<exists>ms'. write_polls og bk (replicate n []) ms = Inr (False, ms') \<and> ms_nbd_tx ms' = ms_nbd_tx ms \<and>
      answered (ms_watch ms') = {} \<and> ms_og_counter ms' = ms_og_counter ms + int n \<and>
      ms_backup_counter ms' = ms_backup_counter ms + int n"
proof (induction n arbitrary: ms)
  case (Suc n)
  obtain r ms1 where p: "write_poll_spec og bk (respond_all [] ms) = (r, ms1)" by fastforce
  with Suc.prems have f: "\<not> r" "ms_og_counter ms1 = ms_og_counter ms + 1" "ms_backup_counter ms1 = ms_backup_counter ms + 1"
      "ms_nbd_tx ms1 = ms_nbd_tx ms"
    by (auto simp: write_poll_spec_def Let_def respond_all_def split: if_splits)
  have "answered (ms_watch ms1) = {}"
    using answered_after_poll[of og bk "respond_all [] ms"] p Suc.prems(1) by (simp add: respond_all_def)
  from Suc.IH[OF this] Suc.prems(2,3) f p show ?case
    by (auto simp: write_polls_Cons[OF assms] simp del: write_polls.simps(2))
qed simp

lemma two_polls_race:
  assumes "{GetUniqueCounter og, GetUniqueCounter bk, GetUniqueCounter og', GetUniqueCounter bk'} \<inter> answered (ms_watch ms) = {}"
    and "ms_og_counter ms = 49" and "ms_backup_counter ms = 49"
  shows "\<exists>ms'. threads_run h ([(og, bk, Ask_og), (og', bk', Ask_og)], ms) []
      ([(og, bk, Poll_returned False), (og', bk', Poll_returned False)], ms') \<and>
    ms_og_counter ms' = 51 \<and> ms_backup_counter ms' = 51 \<and> ms_nbd_tx ms' = ms_nbd_tx ms \<and>
    answered (ms_watch ms') \<subseteq> answered (ms_watch ms)"
proof -
  obtain w where w: "answered w \<subseteq> answered (ms_watch ms)"
    and s: "steps og bk 6 Ask_og ms = Inr (Test_og, ms\<lparr>ms_watch := w, ms_og_counter := 50, ms_backup_counter := 50\<rparr>)"
    using unanswered_steps[of og ms bk] assms by auto
  let ?ms1 = "ms\<lparr>ms_watch := w, ms_og_counter := 50, ms_backup_counter := 50\<rparr>"
  have "GetUniqueCounter og' \<notin> answered (ms_watch ?ms1)" "GetUniqueCounter bk' \<notin> answered (ms_watch ?ms1)"
    using w assms(1) by auto
  from unanswered_steps[OF this] obtain w' where w': "answered w' \<subseteq> answered w"
    and s': "steps og' bk' 6 Ask_og ?ms1 = Inr (Test_og, ms\<lparr>ms_watch := w', ms_og_counter := 51, ms_backup_counter := 51\<rparr>)"
    by auto
  let ?ms2 = "ms\<lparr>ms_watch := w', ms_og_counter := 51, ms_backup_counter := 51\<rparr>"
  have t: "steps o1 b1 2 Test_og ?ms2 = Inr (Poll_returned False, ?ms2)" for o1 b1 by (simp add: eval_nat_numeral)
  have "threads_run h ([(og, bk, Ask_og), (og', bk', Ask_og)], ms) [] ([(og, bk, Test_og), (og', bk', Ask_og)], ?ms1)"
    using threads_run_steps[OF threads_run.tr_start[of h "([(og, bk, Ask_og), (og', bk', Ask_og)], ms)"] _ _ s, of 0] by simp
  from threads_run_steps[OF this _ _ s', of 1]
  have "threads_run h ([(og, bk, Ask_og), (og', bk', Ask_og)], ms) [] ([(og, bk, Test_og), (og', bk', Test_og)], ?ms2)" by simp
  from threads_run_steps[OF this _ _ t, of 0]
  have "threads_run h ([(og, bk, Ask_og), (og', bk', Ask_og)], ms) [] ([(og, bk, Poll_returned False), (og', bk', Test_og)], ?ms2)" by simp
  from threads_run_steps[OF this _ _ t, of 1]
  have "threads_run h ([(og, bk, Ask_og), (og', bk', Ask_og)], ms) []
      ([(og, bk, Poll_returned False), (og', bk', Poll_returned False)], ?ms2)" by simp
  then show ?thesis using w w' by (intro exI[of _ ?ms2]) auto
qed

text \<open>
  Once both counters are past the limit no thread tests them equal to it. The counters go up by
  at most one per thread: those whose increment is under way count as having made it.
\<close>

definition threads_at :: "(poll_pc \<Rightarrow> bool) \<Rightarrow> poll_thread list \<Rightarrow> nat" where
  "threads_at P ts = length (filter (\<lambda>t. P (snd (snd t))) ts)"

abbreviation returned :: "bool \<Rightarrow> poll_thread list \<Rightarrow> nat" where
  "returned r \<equiv> threads_at (\<lambda>pc. pc = Poll_returned r)"

lemma threads_at_update:
  "i < length ts \<Longrightarrow> ts ! i = (og, bk, pc) \<Longrightarrow>
   threads_at P (ts[i := (og, bk, pc')]) + (if P pc then 1 else 0) = threads_at P ts + (if P pc' then 1 else 0)"
  using filter_update[of i ts "\<lambda>t. P (snd (snd t))" "(og, bk, pc')"] by (simp add: threads_at_def)

lemma threads_run_length: "threads_run h (ts0, ms0) es (ts, ms) \<Longrightarrow> length ts = length ts0"
  by (induction "(ts0, ms0)" es "(ts, ms)" arbitrary: ts ms rule: threads_run.induct) auto

fun pc_beyond :: "int \<Rightarrow> int \<Rightarrow> poll_pc \<Rightarrow> bool" where
  "pc_beyond m n (Store_og v b) \<longleftrightarrow> 50 < v \<and> v \<le> 51 + m"
| "pc_beyond m n (Store_backup v) \<longleftrightarrow> 50 < v \<and> v \<le> 51 + n"
| "pc_beyond m n Choose_text \<longleftrightarrow> False"
| "pc_beyond m n Reset_og \<longleftrightarrow> False"
| "pc_beyond m n Reset_backup \<longleftrightarrow> False"
| "pc_beyond m n _ \<longleftrightarrow> True"

definition counted_og :: "poll_thread list \<Rightarrow> int" where
  "counted_og ts = int (threads_at (\<lambda>pc. remaining pc < 9) ts)"

definition counted_backup :: "poll_thread list \<Rightarrow> int" where
  "counted_backup ts = int (threads_at (\<lambda>pc. remaining pc < 7) ts)"

definition beyond_ok :: "master \<Rightarrow> watch_event list \<Rightarrow> poll_thread list \<Rightarrow> master \<Rightarrow> bool" where
  "beyond_ok ms0 es ts ms \<longleftrightarrow>
     50 < ms_og_counter ms \<and> ms_og_counter ms \<le> 51 + counted_og ts \<and>
     50 < ms_backup_counter ms \<and> ms_backup_counter ms \<le> 51 + counted_backup ts \<and>
     (\<forall>t \<in> set ts. pc_beyond (counted_og ts) (counted_backup ts) (snd (snd t))) \<and>
     ms_nbd_tx ms = ms_nbd_tx ms0 @ concat (replicate (returned True ts) (c_str ''Success'')) \<and>
     (\<forall>(og, bk, pc) \<in> set ts. pc = Poll_returned True \<longrightarrow> {GetUniqueCounter og, GetUniqueCounter bk} \<subseteq> arrived ms0 es)"

lemma pc_beyond_mono: "pc_beyond m n pc \<Longrightarrow> m \<le> m' \<Longrightarrow> n \<le> n' \<Longrightarrow> pc_beyond m' n' pc"
  by (cases pc) auto

lemma beyond_counters:
  assumes "beyond_ok ms0 es ts ms"
  shows "ms_og_counter ms \<le> 51 + int (length ts)" and "ms_backup_counter ms \<le> 51 + int (length ts)"
proof -
  have "threads_at P ts \<le> length ts" for P by (simp add: threads_at_def)
  then have "counted_og ts \<le> int (length ts)" "counted_backup ts \<le> int (length ts)"
    by (simp_all add: counted_og_def counted_backup_def)
  with assms show "ms_og_counter ms \<le> 51 + int (length ts)" "ms_backup_counter ms \<le> 51 + int (length ts)"
    by (auto simp: beyond_ok_def)
qed

lemma beyond_thread_step:
  assumes "thread_step og bk pc ms = Inr (pc', ms')" and "pc_beyond m n pc"
    and "50 < ms_og_counter ms" "ms_og_counter ms \<le> 51 + m" "50 < ms_backup_counter ms" "ms_backup_counter ms \<le> 51 + n"
    and "m' = m + (if remaining pc' < 9 \<and> \<not> remaining pc < 9 then 1 else 0)"
    and "n' = n + (if remaining pc' < 7 \<and> \<not> remaining pc < 7 then 1 else 0)"
  shows "pc_beyond m' n' pc' \<and> 50 < ms_og_counter ms' \<and> ms_og_counter ms' \<le> 51 + m' \<and>
    50 < ms_backup_counter ms' \<and> ms_backup_counter ms' \<le> 51 + n' \<and> remaining pc' < remaining pc"
  using assms by (cases pc) (auto simp: look_up_def erase_def notify_texts split: prod.splits if_splits)

lemma thread_step_sends:
  assumes "thread_step og bk pc ms = Inr (pc', ms')" and "pc_beyond m n pc"
  shows "pc' = Poll_returned True \<longleftrightarrow> pc = Decide True True"
    and "ms_nbd_tx ms' = ms_nbd_tx ms @ (if pc' = Poll_returned True then c_str ''Success'' else [])"
proof -
  have "(pc' = Poll_returned True \<longleftrightarrow> pc = Decide True True) \<and>
      ms_nbd_tx ms' = ms_nbd_tx ms @ (if pc' = Poll_returned True then c_str ''Success'' else [])"
    using assms by (cases pc) (auto simp: look_up_def erase_def notify_texts split: prod.splits if_splits)
  then show "pc' = Poll_returned True \<longleftrightarrow> pc = Decide True True"
    and "ms_nbd_tx ms' = ms_nbd_tx ms @ (if pc' = Poll_returned True then c_str ''Success'' else [])" by auto
qed

lemma beyond_poll_step:
  assumes inv: "beyond_ok ms0 es ts ms" and i: "i < length ts" "ts ! i = (og, bk, pc)"
    and s: "thread_step og bk pc ms = Inr (pc', ms')" and f: "found_ok ms0 es ts ms"
  shows "beyond_ok ms0 es (ts[i := (og, bk, pc')]) ms'"
proof -
  let ?ts = "ts[i := (og, bk, pc')]"
  have mem: "(og, bk, pc) \<in> set ts" using i by (metis nth_mem)
  with inv have pc: "pc_beyond (counted_og ts) (counted_backup ts) pc" by (fastforce simp: beyond_ok_def)
  have lt: "remaining pc' < remaining pc" using s by (cases pc) (auto simp: notify_texts split: prod.splits if_splits)
  have m: "counted_og ?ts = counted_og ts + (if remaining pc' < 9 \<and> \<not> remaining pc < 9 then 1 else 0)"
    "counted_backup ?ts = counted_backup ts + (if remaining pc' < 7 \<and> \<not> remaining pc < 7 then 1 else 0)"
    using threads_at_update[OF i, of "\<lambda>pc. remaining pc < 9" pc'] threads_at_update[OF i, of "\<lambda>pc. remaining pc < 7" pc'] lt
    by (auto simp: counted_og_def counted_backup_def split: if_splits)
  note step = beyond_thread_step[OF s pc _ _ _ _ m]
  have c: "50 < ms_og_counter ms" "ms_og_counter ms \<le> 51 + counted_og ts" "50 < ms_backup_counter ms"
    "ms_backup_counter ms \<le> 51 + counted_backup ts" and tx: "ms_nbd_tx ms = ms_nbd_tx ms0 @ concat (replicate (returned True ts) (c_str ''Success''))"
    using inv by (simp_all add: beyond_ok_def)
  have sub: "set ?ts \<subseteq> insert (og, bk, pc') (set ts)" by (rule set_update_subset_insert)
  have all: "\<forall>t \<in> set ?ts. pc_beyond (counted_og ?ts) (counted_backup ?ts) (snd (snd t))"
  proof
    fix t assume "t \<in> set ?ts"
    with sub consider "t = (og, bk, pc')" | "t \<in> set ts" by blast
    then show "pc_beyond (counted_og ?ts) (counted_backup ?ts) (snd (snd t))"
    proof cases
      case 2
      with inv have "pc_beyond (counted_og ts) (counted_backup ts) (snd (snd t))" by (simp add: beyond_ok_def)
      then show ?thesis by (rule pc_beyond_mono) (simp_all add: m)
    qed (use step[OF c] in simp)
  qed
  have "pc \<noteq> Poll_returned True" using s by auto
  then have r: "returned True ?ts = returned True ts + (if pc' = Poll_returned True then 1 else 0)"
    using threads_at_update[OF i, of "\<lambda>pc. pc = Poll_returned True" pc'] by simp
  have tx': "ms_nbd_tx ms' = ms_nbd_tx ms0 @ concat (replicate (returned True ?ts) (c_str ''Success''))"
    unfolding r thread_step_sends(2)[OF s pc] tx by (auto simp: replicate_append_same[symmetric])
  have "knows og bk pc \<subseteq> arrived ms0 es" using f mem by (auto simp: found_ok_def)
  then have "pc' = Poll_returned True \<longrightarrow> {GetUniqueCounter og, GetUniqueCounter bk} \<subseteq> arrived ms0 es"
    using thread_step_sends(1)[OF s pc] by auto
  with inv sub have "\<forall>(og, bk, pc) \<in> set ?ts. pc = Poll_returned True \<longrightarrow> {GetUniqueCounter og, GetUniqueCounter bk} \<subseteq> arrived ms0 es"
    unfolding beyond_ok_def by blast
  with step[OF c] all tx' show ?thesis by (simp add: beyond_ok_def)
qed

lemma watch_step_rest:
  "watch_step h e ms ms' \<Longrightarrow> ms_og_counter ms' = ms_og_counter ms \<and> ms_backup_counter ms' = ms_backup_counter ms \<and>
    ms_nbd_tx ms' = ms_nbd_tx ms"
  by (cases e) (auto simp: look_up_def erase_def split_beta)

lemma threads_beyond:
  assumes "threads_run h (ts0, ms0) es (ts, ms)" and start: "\<forall>t \<in> set ts0. snd (snd t) = Ask_og"
    and "ms_og_counter ms0 = 51" and "ms_backup_counter ms0 = 51"
  shows "beyond_ok ms0 es ts ms"
  using assms(1)
proof (induction "(ts0, ms0)" es "(ts, ms)" arbitrary: ts ms rule: threads_run.induct)
  case tr_start
  have "returned True ts0 = 0" "counted_og ts0 = 0" "counted_backup ts0 = 0"
    using start by (auto simp: threads_at_def counted_og_def counted_backup_def filter_empty_conv)
  with assms(3,4) start show ?case by (auto simp: beyond_ok_def)
next
  case (tr_poll es ts ms i og bk pc pc' ms')
  from beyond_poll_step[OF tr_poll.hyps(2-5) threads_found[OF tr_poll.hyps(1) start]] show ?case .
next
  case (tr_other es ts ms e ms')
  from tr_other.hyps(2) watch_step_rest[OF tr_other.hyps(3)] show ?case
    by (fastforce simp: beyond_ok_def arrived_def)
qed

subsection \<open>Polls that do not overlap\<close>

text \<open>
  Runs in which a poll takes a step only while no other poll is under way. The steps of the
  reactor, of the pool and of the polls of reads still come anywhere.
\<close>

fun at_rest :: "poll_pc \<Rightarrow> bool" where
  "at_rest Ask_og \<longleftrightarrow> True"
| "at_rest (Poll_returned r) \<longleftrightarrow> True"
| "at_rest _ \<longleftrightarrow> False"

inductive serial_run ::
    "host \<Rightarrow> poll_thread list \<times> master \<Rightarrow> watch_event list \<Rightarrow> poll_thread list \<times> master \<Rightarrow> bool"
  for h :: host where
  sr_start: "serial_run h c [] c"
| sr_poll: "serial_run h c es (ts, ms) \<Longrightarrow> i < length ts \<Longrightarrow> ts ! i = (og, bk, pc) \<Longrightarrow>
    \<forall>j < length ts. j \<noteq> i \<longrightarrow> at_rest (snd (snd (ts ! j))) \<Longrightarrow>
    thread_step og bk pc ms = Inr (pc', ms') \<Longrightarrow> serial_run h c es (ts[i := (og, bk, pc')], ms')"
| sr_other: "serial_run h c es (ts, ms) \<Longrightarrow> watch_step h e ms ms' \<Longrightarrow> serial_run h c (es @ [e]) (ts, ms')"

text \<open>
  What holds of the poll under way, or of any other when there is none, with \<open>f\<close> polls in vain,
  \<open>t\<close> outcomes and the counters \<open>a\<close>, \<open>b\<close>: at rest every poll in vain is paid for by a counter or an
  outcome.
\<close>

definition slack :: "int \<Rightarrow> int \<Rightarrow> int \<Rightarrow> int \<Rightarrow> int" where
  "slack f t a b = a + b + 98 * t - f"

definition below :: "int \<Rightarrow> int \<Rightarrow> int \<Rightarrow> int \<Rightarrow> bool" where
  "below f t a b \<longleftrightarrow> 0 \<le> slack f t a b \<and> a \<in> {0..49} \<and> b \<in> {0..49}"

fun counting_ok :: "int \<Rightarrow> int \<Rightarrow> int \<Rightarrow> int \<Rightarrow> poll_pc \<Rightarrow> bool" where
  "counting_ok f t a b (Store_og v bk) \<longleftrightarrow> v = a + 1 \<and> below f t a b"
| "counting_ok f t a b (Count_backup bk) \<longleftrightarrow>
     f \<le> 98 * (t + 1) \<and> (if bk then 1 else 0) \<le> slack f t a b \<and> a \<in> {0..50} \<and> b \<in> {0..49}"
| "counting_ok f t a b (Store_backup v) \<longleftrightarrow>
     f \<le> 98 * (t + 1) \<and> v = b + 1 \<and> 0 \<le> slack f t a b \<and> a \<in> {0..50} \<and> b \<in> {0..49}"
| "counting_ok f t a b Test_og \<longleftrightarrow> f \<le> 98 * (t + 1) \<and> 1 \<le> slack f t a b \<and> a \<in> {0..50} \<and> b \<in> {0..50}"
| "counting_ok f t a b Test_backup \<longleftrightarrow> f \<le> 98 * (t + 1) \<and> 1 \<le> slack f t a b \<and> a \<in> {0..49} \<and> b \<in> {0..50}"
| "counting_ok f t a b Choose_text \<longleftrightarrow> f \<le> 98 * (t + 1)"
| "counting_ok f t a b Reset_og \<longleftrightarrow> f \<le> 98 * (t + 1)"
| "counting_ok f t a b Reset_backup \<longleftrightarrow> f \<le> 98 * (t + 1) \<and> a = 0"
| "counting_ok f t a b _ \<longleftrightarrow> below f t a b"

lemma counting_bound: "counting_ok f t a b pc \<Longrightarrow> f \<le> 98 * (t + 1)"
  by (cases pc) (auto simp: below_def slack_def)

lemma counting_at_rest: "at_rest pc \<Longrightarrow> counting_ok f t a b pc \<longleftrightarrow> below f t a b"
  by (cases pc) simp_all

lemma counting_step:
  assumes "thread_step og bk pc ms = Inr (pc', ms')" and "counting_ok f t (ms_og_counter ms) (ms_backup_counter ms) pc"
  shows "counting_ok (f + (if pc' = Poll_returned False then 1 else 0)) (t + (if pc' = Poll_returned True then 1 else 0))
    (ms_og_counter ms') (ms_backup_counter ms') pc'"
  using assms by (cases pc) (auto simp: below_def slack_def look_up_def erase_def notify_texts split: prod.splits if_splits)

definition serial_ok :: "poll_thread list \<Rightarrow> master \<Rightarrow> bool" where
  "serial_ok ts ms \<longleftrightarrow>
     (\<exists>pc. (\<forall>t \<in> set ts. at_rest (snd (snd t)) \<or> snd (snd t) = pc) \<and> (at_rest pc \<or> pc \<in> (snd \<circ> snd) ` set ts) \<and>
       counting_ok (int (returned False ts)) (int (returned True ts)) (ms_og_counter ms) (ms_backup_counter ms) pc)"

lemma serial_poll_step:
  assumes inv: "serial_ok ts ms" and i: "i < length ts" "ts ! i = (og, bk, pc)"
    and rest: "\<forall>j < length ts. j \<noteq> i \<longrightarrow> at_rest (snd (snd (ts ! j)))"
    and s: "thread_step og bk pc ms = Inr (pc', ms')"
  shows "serial_ok (ts[i := (og, bk, pc')]) ms'"
proof -
  let ?ts = "ts[i := (og, bk, pc')]"
  from inv obtain pc0 where pc0: "\<forall>t \<in> set ts. at_rest (snd (snd t)) \<or> snd (snd t) = pc0"
    "at_rest pc0 \<or> pc0 \<in> (snd \<circ> snd) ` set ts"
    and ok: "counting_ok (int (returned False ts)) (int (returned True ts)) (ms_og_counter ms) (ms_backup_counter ms) pc0"
    unfolding serial_ok_def by blast
  have "(og, bk, pc) \<in> set ts" using i by (metis nth_mem)
  with pc0(1) have "at_rest pc \<or> pc = pc0" by fastforce
  moreover have "at_rest pc0" if "at_rest pc"
    using pc0(2) rest i that by (auto simp: in_set_conv_nth image_iff) (metis snd_conv)
  ultimately have "counting_ok (int (returned False ts)) (int (returned True ts)) (ms_og_counter ms) (ms_backup_counter ms) pc"
    using ok counting_at_rest by metis
  note ok' = counting_step[OF s this]
  have "pc \<noteq> Poll_returned r" for r using s by (cases pc) auto
  then have "returned r ?ts = returned r ts + (if pc' = Poll_returned r then 1 else 0)" for r
    using threads_at_update[OF i, of "\<lambda>pc. pc = Poll_returned r" pc'] by simp
  then have "int (returned r ?ts) = int (returned r ts) + (if pc' = Poll_returned r then 1 else 0)" for r by simp
  with ok' have "counting_ok (int (returned False ?ts)) (int (returned True ?ts)) (ms_og_counter ms') (ms_backup_counter ms') pc'"
    by presburger
  moreover have "\<forall>t \<in> set ?ts. at_rest (snd (snd t)) \<or> snd (snd t) = pc'"
    using rest i(1) by (auto simp: in_set_conv_nth nth_list_update split: if_splits) (metis snd_conv)
  moreover have "pc' \<in> (snd \<circ> snd) ` set ?ts"
    using set_update_memI[OF i(1), of "(og, bk, pc')"] by force
  ultimately show ?thesis unfolding serial_ok_def by blast
qed

lemma serial_run_ok:
  assumes "serial_run h (ts0, ms0) es (ts, ms)" and start: "\<forall>t \<in> set ts0. snd (snd t) = Ask_og" and "counters_ok ms0"
  shows "serial_ok ts ms"
  using assms(1)
proof (induction "(ts0, ms0)" es "(ts, ms)" arbitrary: ts ms rule: serial_run.induct)
  case sr_start
  have "returned r ts0 = 0" for r using start by (auto simp: threads_at_def filter_empty_conv)
  with assms(3) start show ?case
    unfolding serial_ok_def by (intro exI[of _ Ask_og]) (auto simp: counters_ok_def below_def slack_def)
next
  case (sr_poll es ts ms i og bk pc pc' ms')
  from serial_poll_step[OF sr_poll.hyps(2-6)] show ?case .
next
  case (sr_other es ts ms e ms')
  from sr_other.hyps(2) watch_step_rest[OF sr_other.hyps(3)] show ?case by (simp add: serial_ok_def)
qed

lemma serial_run_steps:
  "serial_run h c es (ts, ms) \<Longrightarrow> i < length ts \<Longrightarrow> ts ! i = (og, bk, pc) \<Longrightarrow>
   \<forall>j < length ts. j \<noteq> i \<longrightarrow> at_rest (snd (snd (ts ! j))) \<Longrightarrow>
   steps og bk n pc ms = Inr (pc', ms') \<Longrightarrow> serial_run h c es (ts[i := (og, bk, pc')], ms')"
proof (induction n arbitrary: ts ms pc)
  case 0
  then show ?case by (metis steps.simps(1) prod.inject sum.inject(2) list_update_id)
next
  case (Suc n)
  from Suc.prems(5) obtain pc1 ms1 where s: "thread_step og bk pc ms = Inr (pc1, ms1)" "steps og bk n pc1 ms1 = Inr (pc', ms')"
    by (auto simp: bindE_eq_Inr_iff)
  from Suc.IH[OF serial_run.sr_poll[OF Suc.prems(1-4) s(1)] _ _ _ s(2)] Suc.prems(2,4) show ?case by simp
qed

text \<open>Such a run: a poll in vain, both answers, and a poll that succeeds.\<close>

lemma demo_serial_run:
  "\<exists>ms. serial_run demo_host (replicate 2 (uid_of demo_host 1, uid_of demo_host 2, Ask_og), master_init)
      [Responded (uid_of demo_host 1), Responded (uid_of demo_host 2)]
      ([(uid_of demo_host 1, uid_of demo_host 2, Poll_returned False), (uid_of demo_host 1, uid_of demo_host 2, Poll_returned True)], ms)"
proof -
  let ?u = "uid_of demo_host"
  let ?t = "\<lambda>pc. (?u 1, ?u 2, pc)"
  have "GetUniqueCounter (?u 1) \<notin> answered (ms_watch master_init)" "GetUniqueCounter (?u 2) \<notin> answered (ms_watch master_init)"
    by (simp_all add: master_init_answers)
  from unanswered_steps[OF this] obtain w where s1: "steps (?u 1) (?u 2) 6 Ask_og master_init = Inr (Test_og, master_init\<lparr>ms_watch := w,
      ms_og_counter := ms_og_counter master_init + 1, ms_backup_counter := ms_backup_counter master_init + 1\<rparr>)"
    by blast
  define ms1 where "ms1 = master_init\<lparr>ms_watch := w,
      ms_og_counter := ms_og_counter master_init + 1, ms_backup_counter := ms_backup_counter master_init + 1\<rparr>"
  have s1': "steps (?u 1) (?u 2) 2 Test_og ms1 = Inr (Poll_returned False, ms1)"
    by (simp add: ms1_def master_init_def eval_nat_numeral)
  let ?ms = "ms1\<lparr>ms_watch := RegisterResponse (?u 2) (RegisterResponse (?u 1) (ms_watch ms1))\<rparr>"
  have "\<exists>ms2. steps (?u 1) (?u 2) 5 Ask_og ?ms = Inr (Poll_returned True, ms2)"
    by (simp add: eval_nat_numeral look_up_result answered_erase rm.view_respond notify_texts)
  then obtain ms2 where s2: "steps (?u 1) (?u 2) 5 Ask_og ?ms = Inr (Poll_returned True, ms2)" by blast
  note start = serial_run.sr_start[of demo_host "([?t Ask_og, ?t Ask_og], master_init)"]
  have "serial_run demo_host ([?t Ask_og, ?t Ask_og], master_init) [] ([?t Test_og, ?t Ask_og], ms1)"
    using serial_run_steps[OF start _ _ _ s1, of 0] by (auto simp: nth_Cons' ms1_def)
  from serial_run_steps[OF this _ _ _ s1', of 0] have
    "serial_run demo_host ([?t Ask_og, ?t Ask_og], master_init) [] ([?t (Poll_returned False), ?t Ask_og], ms1)"
    by (auto simp: nth_Cons')
  from serial_run.sr_other[OF this ws_response] have
    "serial_run demo_host ([?t Ask_og, ?t Ask_og], master_init) [Responded (?u 1)] ([?t (Poll_returned False), ?t Ask_og],
      ms1\<lparr>ms_watch := RegisterResponse (?u 1) (ms_watch ms1)\<rparr>)" by simp
  from serial_run.sr_other[OF this ws_response, of "?u 2"] have
    "serial_run demo_host ([?t Ask_og, ?t Ask_og], master_init) [Responded (?u 1), Responded (?u 2)]
      ([?t (Poll_returned False), ?t Ask_og], ?ms)" by simp
  from serial_run_steps[OF this _ _ _ s2, of 1] show ?thesis by (auto simp: nth_Cons' eval_nat_numeral)
qed

subsection \<open>Properties\<close>

text \<open>
  C15: a poll of a write that runs among any steps of the reactor, of the pool and of the polls
  of other requests ends as one atomic poll does: there is an order of the same steps, in
  which only responses to this poll have moved, with the whole poll at one point of it, the
  same result and the same final state.
\<close>

theorem poll_is_atomic_up_to_responses:
  assumes "threads_run h ([(og, bk, Ask_og)], ms0) es ([(og, bk, Poll_returned r)], ms)"
    and "GetUniqueCounter og \<noteq> GetUniqueCounter bk"
    and "\<forall>e \<in> set es. event_key e \<in> {GetUniqueCounter og, GetUniqueCounter bk} \<longrightarrow> own_response og bk e"
  shows "\<exists>before after ms1 ms2. mset (before @ after) = mset es \<and>
    filter (\<lambda>e. \<not> own_response og bk e) (before @ after) = filter (\<lambda>e. \<not> own_response og bk e) es \<and>
    watch_run h ms0 before ms1 \<and> WriteAIFunc_call og bk ms1 = Inr (r, ms2) \<and> watch_run h ms2 after ms"
proof -
  from one_thread_serialised[OF assms] have "serialised h og bk ms0 es (Poll_returned r) ms" by auto
  then show ?thesis unfolding serialised_def by (metis alone_finish finish.simps(1))
qed


theorem poll_is_atomic_up_to_responses_witness:
  "\<exists>before after ms1 ms2 ms. mset (before @ after) = {#Responded (uid_of demo_host 1), Responded (uid_of demo_host 2)#} \<and>
    watch_run demo_host master_init before ms1 \<and>
    WriteAIFunc_call (uid_of demo_host 1) (uid_of demo_host 2) ms1 = Inr (False, ms2) \<and> watch_run demo_host ms2 after ms"
proof -
  obtain ms where "threads_run demo_host ([(uid_of demo_host 1, uid_of demo_host 2, Ask_og)], master_init)
    [Responded (uid_of demo_host 1), Responded (uid_of demo_host 2)]
    ([(uid_of demo_host 1, uid_of demo_host 2, Poll_returned False)], ms)"
    using split_run[of "uid_of demo_host 1" "uid_of demo_host 2" master_init demo_host] master_init_answers by auto
  from poll_is_atomic_up_to_responses[OF this] show ?thesis by fastforce
qed

text \<open>
  C16: however many polls run at the same time and whatever the other threads do in between, a
  poll is about to tell the block device of success only if responses to both its identifiers
  have been registered.
\<close>

theorem success_needs_both_answers:
  assumes "threads_run h (ts0, ms0) es (ts, ms)" and "\<forall>t \<in> set ts0. snd (snd t) = Ask_og"
    and "i < length ts" and "ts ! i = (og, bk, Decide True True)"
  shows "{GetUniqueCounter og, GetUniqueCounter bk} \<subseteq>
    answered (ms_watch ms0) \<union> {GetUniqueCounter u | u. Responded u \<in> set es}"
proof -
  have "(og, bk, Decide True True) \<in> set ts" using assms(3,4) by (metis nth_mem)
  with threads_found[OF assms(1,2)] show ?thesis by (fastforce simp: found_ok_def arrived_def)
qed

theorem success_needs_both_answers_witness:
  "\<exists>ms. threads_run demo_host ([(uid_of demo_host 1, uid_of demo_host 2, Ask_og)], master_init)
      [Responded (uid_of demo_host 1), Responded (uid_of demo_host 2)]
      ([(uid_of demo_host 1, uid_of demo_host 2, Decide True True)], ms) \<and>
    {1, 2} \<subseteq> answered (ms_watch master_init) \<union>
      {GetUniqueCounter u | u. Responded u \<in> set [Responded (uid_of demo_host 1), Responded (uid_of demo_host 2)]}"
proof -
  obtain ms where r: "threads_run demo_host ([(uid_of demo_host 1, uid_of demo_host 2, Ask_og)], master_init)
      [Responded (uid_of demo_host 1), Responded (uid_of demo_host 2)]
      ([(uid_of demo_host 1, uid_of demo_host 2, Decide True True)], ms)"
    using joint_run[of "uid_of demo_host 1" "uid_of demo_host 2" demo_host master_init] by auto
  from success_needs_both_answers[OF r, of 0] r show ?thesis by fastforce
qed

text \<open>
  C17: a write both of whose answers arrive while a poll is under way can still fail: when they
  come between the two questions of the poll, it finds the second answer and consumes it, and
  the write, which both minions have stored, is reported as failed at the latest 50 polls later.
\<close>

theorem answers_during_a_poll_are_split:
  assumes "GetUniqueCounter og \<noteq> GetUniqueCounter bk" and "counters_ok ms" and "ms_og_counter ms < 49"
    and "GetUniqueCounter og \<notin> answered (ms_watch ms)"
  shows "\<exists>ms1. threads_run h ([(og, bk, Ask_og)], ms) [Responded og, Responded bk] ([(og, bk, Poll_returned False)], ms1) \<and>
    (\<forall>later. bk \<notin> set (concat later) \<and> (\<forall>u \<in> set (concat later). GetUniqueCounter u = GetUniqueCounter bk \<longrightarrow> u = bk) \<longrightarrow>
      (\<exists>r ms'. write_polls og bk later ms1 = Inr (r, ms') \<and>
        (\<forall>bs. ms_nbd_tx ms' \<noteq> ms_nbd_tx ms @ c_str ''Success'' @ bs) \<and>
        (50 \<le> length later \<longrightarrow> r \<and> (\<exists>oc. ms_nbd_tx ms' = ms_nbd_tx ms @ give_up_text oc))))"
proof -
  from split_run[OF assms(1,4,2,3)] obtain ms1 where
    run: "threads_run h ([(og, bk, Ask_og)], ms) [Responded og, Responded bk] ([(og, bk, Poll_returned False)], ms1)"
    and s: "counters_ok ms1" "ms_nbd_tx ms1 = ms_nbd_tx ms" "GetUniqueCounter bk \<notin> answered (ms_watch ms1)" by blast
  have texts: "give_up_text oc \<noteq> c_str ''Success'' @ bs" "c_str ''Success'' @ bs \<noteq> []" for oc bs
    by (simp_all add: give_up_text_def c_str_def)
  have "\<exists>r ms'. write_polls og bk later ms1 = Inr (r, ms') \<and>
      (\<forall>bs. ms_nbd_tx ms' \<noteq> ms_nbd_tx ms @ c_str ''Success'' @ bs) \<and>
      (50 \<le> length later \<longrightarrow> r \<and> (\<exists>oc. ms_nbd_tx ms' = ms_nbd_tx ms @ give_up_text oc))"
    if l: "bk \<notin> set (concat later)" "\<forall>u \<in> set (concat later). GetUniqueCounter u = GetUniqueCounter bk \<longrightarrow> u = bk" for later
  proof -
    from l have "\<forall>us \<in> set later. GetUniqueCounter bk \<notin> GetUniqueCounter ` set us" by (auto simp: image_iff)
    from write_polls_missing[OF assms(1) _ s(3) this s(1)] obtain r ms' where
      w: "write_polls og bk later ms1 = Inr (r, ms')"
        "if r then \<exists>oc. ms_nbd_tx ms' = ms_nbd_tx ms1 @ give_up_text oc else ms_nbd_tx ms' = ms_nbd_tx ms1"
        "50 \<le> poll_counter og bk ms1 + int (length later) \<longrightarrow> r" by blast
    have "0 \<le> poll_counter og bk ms1" using s(1) by (simp add: poll_counter_def counters_ok_def)
    with w s(2) texts texts[symmetric] show ?thesis
      by (intro exI[of _ r] exI[of _ ms']) (auto split: if_splits simp del: write_polls.simps)
  qed
  with run show ?thesis by blast
qed

theorem answers_during_a_poll_are_split_witness:
  "\<exists>ms1 ms'. threads_run demo_host ([(uid_of demo_host 1, uid_of demo_host 2, Ask_og)], master_init)
      [Responded (uid_of demo_host 1), Responded (uid_of demo_host 2)]
      ([(uid_of demo_host 1, uid_of demo_host 2, Poll_returned False)], ms1) \<and>
    write_polls (uid_of demo_host 1) (uid_of demo_host 2) (replicate 50 []) ms1 = Inr (True, ms') \<and>
    (\<exists>oc. ms_nbd_tx ms' = give_up_text oc)"
proof -
  note m = master_init_answers
  with answers_during_a_poll_are_split[of "uid_of demo_host 1" "uid_of demo_host 2" master_init demo_host] obtain ms1 where
    r: "threads_run demo_host ([(uid_of demo_host 1, uid_of demo_host 2, Ask_og)], master_init)
      [Responded (uid_of demo_host 1), Responded (uid_of demo_host 2)]
      ([(uid_of demo_host 1, uid_of demo_host 2, Poll_returned False)], ms1)"
    and l: "\<forall>later. uid_of demo_host 2 \<notin> set (concat later) \<and>
        (\<forall>u \<in> set (concat later). GetUniqueCounter u = GetUniqueCounter (uid_of demo_host 2) \<longrightarrow> u = uid_of demo_host 2) \<longrightarrow>
      (\<exists>r ms'. write_polls (uid_of demo_host 1) (uid_of demo_host 2) later ms1 = Inr (r, ms') \<and>
        (\<forall>bs. ms_nbd_tx ms' \<noteq> ms_nbd_tx master_init @ c_str ''Success'' @ bs) \<and>
        (50 \<le> length later \<longrightarrow> r \<and> (\<exists>oc. ms_nbd_tx ms' = ms_nbd_tx master_init @ give_up_text oc)))" by auto
  have "\<exists>r ms'. write_polls (uid_of demo_host 1) (uid_of demo_host 2) (replicate 50 []) ms1 = Inr (r, ms') \<and>
      (r \<and> (\<exists>oc. ms_nbd_tx ms' = give_up_text oc))"
    using l[rule_format, of "replicate 50 []"] m(4) by (force simp del: write_polls.simps replicate.simps)
  with r show ?thesis by (metis (full_types))
qed


text \<open>
  C18: two polls at the same time can jump over the limit: when 49 polls are counted, either of
  them alone would give its write up, but if both have counted before either tests, neither
  does. From then on no poll of any write gives up, whatever polls run, one after another or at
  the same time, and whatever the other threads do: all that is sent to the block device are the
  texts of polls that have succeeded, with both answers registered, so a write without one of
  its answers is polled for ever. This holds while fewer than \<open>2 ^ 31 - 51\<close> polls have run; the
  counters, which only go up, have not overflowed then.
\<close>

theorem limit_can_be_jumped:
  assumes "GetUniqueCounter og \<noteq> GetUniqueCounter bk" and "GetUniqueCounter og' \<noteq> GetUniqueCounter bk'"
    and "{GetUniqueCounter og, GetUniqueCounter bk, GetUniqueCounter og', GetUniqueCounter bk'} \<inter> answered (ms_watch ms) = {}"
    and "ms_og_counter ms = 49" and "ms_backup_counter ms = 49"
  shows "(\<exists>ms'. WriteAIFunc_call og bk ms = Inr (True, ms')) \<and> (\<exists>ms'. WriteAIFunc_call og' bk' ms = Inr (True, ms')) \<and>
    (\<exists>ms1. threads_run h ([(og, bk, Ask_og), (og', bk', Ask_og)], ms) []
        ([(og, bk, Poll_returned False), (og', bk', Poll_returned False)], ms1) \<and>
      (\<forall>ts0 es ts ms2. threads_run h (ts0, ms1) es (ts, ms2) \<and> (\<forall>t \<in> set ts0. snd (snd t) = Ask_og) \<and>
          int (length ts0) < 2 ^ 31 - 51 \<longrightarrow>
        ms_nbd_tx ms2 = ms_nbd_tx ms @ concat (replicate (returned True ts) (c_str ''Success'')) \<and>
        (\<forall>(o1, b1, pc) \<in> set ts. pc = Poll_returned True \<longrightarrow>
          {GetUniqueCounter o1, GetUniqueCounter b1} \<subseteq>
            answered (ms_watch ms) \<union> {GetUniqueCounter u | u. Responded u \<in> set es}) \<and>
        ms_og_counter ms2 < 2 ^ 31 \<and> ms_backup_counter ms2 < 2 ^ 31))"
proof (intro conjI)
  show "\<exists>ms'. WriteAIFunc_call og bk ms = Inr (True, ms')" "\<exists>ms'. WriteAIFunc_call og' bk' ms = Inr (True, ms')"
    using assms by (simp_all add: WriteAIFunc_call_spec[OF assms(1)] WriteAIFunc_call_spec[OF assms(2)] write_poll_spec_def Let_def)
  from two_polls_race[OF assms(3-5)] obtain ms1 where
    r: "threads_run h ([(og, bk, Ask_og), (og', bk', Ask_og)], ms) []
        ([(og, bk, Poll_returned False), (og', bk', Poll_returned False)], ms1)"
    and c: "ms_og_counter ms1 = 51" "ms_backup_counter ms1 = 51" "ms_nbd_tx ms1 = ms_nbd_tx ms"
      "answered (ms_watch ms1) \<subseteq> answered (ms_watch ms)" by blast
  have "ms_nbd_tx ms2 = ms_nbd_tx ms @ concat (replicate (returned True ts) (c_str ''Success'')) \<and>
      (\<forall>(o1, b1, pc) \<in> set ts. pc = Poll_returned True \<longrightarrow>
        {GetUniqueCounter o1, GetUniqueCounter b1} \<subseteq>
          answered (ms_watch ms) \<union> {GetUniqueCounter u | u. Responded u \<in> set es}) \<and>
      ms_og_counter ms2 < 2 ^ 31 \<and> ms_backup_counter ms2 < 2 ^ 31"
    if run: "threads_run h (ts0, ms1) es (ts, ms2)" and start: "\<forall>t \<in> set ts0. snd (snd t) = Ask_og"
      and few: "int (length ts0) < 2 ^ 31 - 51" for ts0 es ts ms2
  proof -
    have inv: "beyond_ok ms1 es ts ms2" and len: "length ts = length ts0"
      using threads_beyond[OF run start c(1,2)] threads_run_length[OF run] by auto
    from beyond_counters[OF inv] few len c(3,4) inv show ?thesis
      unfolding beyond_ok_def by (auto simp: arrived_def split_beta)
  qed
  with r show "\<exists>ms1. threads_run h ([(og, bk, Ask_og), (og', bk', Ask_og)], ms) []
        ([(og, bk, Poll_returned False), (og', bk', Poll_returned False)], ms1) \<and>
      (\<forall>ts0 es ts ms2. threads_run h (ts0, ms1) es (ts, ms2) \<and> (\<forall>t \<in> set ts0. snd (snd t) = Ask_og) \<and>
          int (length ts0) < 2 ^ 31 - 51 \<longrightarrow>
        ms_nbd_tx ms2 = ms_nbd_tx ms @ concat (replicate (returned True ts) (c_str ''Success'')) \<and>
        (\<forall>(o1, b1, pc) \<in> set ts. pc = Poll_returned True \<longrightarrow>
          {GetUniqueCounter o1, GetUniqueCounter b1} \<subseteq>
            answered (ms_watch ms) \<union> {GetUniqueCounter u | u. Responded u \<in> set es}) \<and>
        ms_og_counter ms2 < 2 ^ 31 \<and> ms_backup_counter ms2 < 2 ^ 31)"
    by blast
qed

theorem limit_can_be_jumped_witness:
  "\<exists>ms ms1 ms2. write_polls (uid_of demo_host 1) (uid_of demo_host 2) (replicate 49 []) master_init = Inr (False, ms) \<and>
    threads_run demo_host ([(uid_of demo_host 1, uid_of demo_host 2, Ask_og), (uid_of demo_host 3, uid_of demo_host 4, Ask_og)], ms) []
      ([(uid_of demo_host 1, uid_of demo_host 2, Poll_returned False), (uid_of demo_host 3, uid_of demo_host 4, Poll_returned False)], ms1) \<and>
    threads_run demo_host ([(uid_of demo_host 1, uid_of demo_host 2, Ask_og), (uid_of demo_host 5, uid_of demo_host 6, Ask_og)], ms1)
      [Responded (uid_of demo_host 5), Responded (uid_of demo_host 6)]
      ([(uid_of demo_host 1, uid_of demo_host 2, Ask_og), (uid_of demo_host 5, uid_of demo_host 6, Poll_returned True)], ms2) \<and>
    ms_nbd_tx ms2 = c_str ''Success''"
proof -
  let ?u = "uid_of demo_host"
  have ne: "GetUniqueCounter (?u 1) \<noteq> GetUniqueCounter (?u 2)" and ne': "GetUniqueCounter (?u 3) \<noteq> GetUniqueCounter (?u 4)"
    by simp_all
  from unanswered_polls[OF ne, of master_init 49] master_init_answers obtain ms where
    s: "write_polls (?u 1) (?u 2) (replicate 49 []) master_init = Inr (False, ms)"
      "ms_og_counter ms = 49" "ms_backup_counter ms = 49" "answered (ms_watch ms) = {}" "ms_nbd_tx ms = []"
    by (auto simp: master_init_def simp del: write_polls.simps replicate.simps)
  from limit_can_be_jumped[OF ne ne' _ s(2,3), of demo_host] s(4,5) obtain ms1 where
    r: "threads_run demo_host ([(?u 1, ?u 2, Ask_og), (?u 3, ?u 4, Ask_og)], ms) []
      ([(?u 1, ?u 2, Poll_returned False), (?u 3, ?u 4, Poll_returned False)], ms1)"
    and l: "\<And>ts0 es ts ms2. threads_run demo_host (ts0, ms1) es (ts, ms2) \<Longrightarrow> (\<forall>t \<in> set ts0. snd (snd t) = Ask_og) \<Longrightarrow>
      int (length ts0) < 2 ^ 31 - 51 \<Longrightarrow> ms_nbd_tx ms2 = concat (replicate (returned True ts) (c_str ''Success''))"
    by auto
  let ?ts = "\<lambda>pc. [(?u 1, ?u 2, Ask_og), (?u 5, ?u 6, pc)]" and ?es = "[Responded (?u 5), Responded (?u 6)]"
  let ?ms = "ms1\<lparr>ms_watch := RegisterResponse (?u 6) (RegisterResponse (?u 5) (ms_watch ms1))\<rparr>"
  have "threads_run demo_host (?ts Ask_og, ms1) ?es (?ts Ask_og, ?ms)"
    using response_arrives[OF response_arrives[OF threads_run.tr_start[of demo_host "(?ts Ask_og, ms1)"]], of "?u 5" "?u 6"] by simp
  moreover have "\<exists>ms2. steps (?u 5) (?u 6) 5 Ask_og ?ms = Inr (Poll_returned True, ms2)"
    by (simp add: eval_nat_numeral look_up_result answered_erase rm.view_respond notify_texts)
  ultimately obtain ms2 where run: "threads_run demo_host (?ts Ask_og, ms1) ?es (?ts (Poll_returned True), ms2)"
    using threads_run_steps[of demo_host "(?ts Ask_og, ms1)" ?es "?ts Ask_og" ?ms 1 "?u 5" "?u 6" Ask_og 5 "Poll_returned True"]
    by auto
  have "ms_nbd_tx ms2 = c_str ''Success''" using l[OF run] by (simp add: threads_at_def)
  with s(1) r run show ?thesis by blast
qed

text \<open>
  C20: polls of writes end, as long as they do not overlap: in any run of any polls, one after
  another, among any steps of the other threads, in which \<open>k\<close> of them have reported an outcome, at
  most \<open>98 * (k + 1)\<close> have been run in vain.
\<close>

theorem serial_polls_are_bounded:
  assumes "serial_run h (ts0, ms0) es (ts, ms)" and "\<forall>t \<in> set ts0. snd (snd t) = Ask_og" and "counters_ok ms0"
  shows "returned False ts \<le> 98 * (returned True ts + 1)"
proof -
  from serial_run_ok[OF assms] have "int (returned False ts) \<le> int (98 * (returned True ts + 1))"
    unfolding serial_ok_def by (auto dest: counting_bound)
  then show ?thesis by (simp only: of_nat_le_iff)
qed

theorem serial_polls_are_bounded_witness:
  "\<exists>ts ms. serial_run demo_host (replicate 2 (uid_of demo_host 1, uid_of demo_host 2, Ask_og), master_init)
      [Responded (uid_of demo_host 1), Responded (uid_of demo_host 2)] (ts, ms) \<and>
    returned False ts = 1 \<and> returned True ts = 1 \<and> returned False ts \<le> 98 * (returned True ts + 1)"
proof -
  from demo_serial_run obtain ms where
    r: "serial_run demo_host (replicate 2 (uid_of demo_host 1, uid_of demo_host 2, Ask_og), master_init)
      [Responded (uid_of demo_host 1), Responded (uid_of demo_host 2)]
      ([(uid_of demo_host 1, uid_of demo_host 2, Poll_returned False), (uid_of demo_host 1, uid_of demo_host 2, Poll_returned True)], ms)"
    (is "serial_run _ _ _ (?ts, ms)") by blast
  have "returned False ?ts = 1" "returned True ?ts = 1" by (simp_all add: threads_at_def)
  with serial_polls_are_bounded[OF r] r master_init_answers(1) show ?thesis by (intro exI[of _ ?ts] exI[of _ ms]) simp
qed

end
