(* ===== verification/Polling.thy ===== *)
theory Polling
  imports Scheduler System Poll_Threads
begin

text \<open>
  The polls of the master inside the scheduler: \<open>TPTask::Run\<close> makes an \<open>AI\<close> object of the
  functor and the interval that a command returns (\<open>src/threadpool.cpp\<close>), its constructor adds
  a task to the scheduler, the task's run calls the functor and adds the task again until the
  functor reports an outcome (\<open>src/ai.cpp\<close>). The threads of the timer, of the pool and of the
  reactor interleave freely; a functor runs without a lock, access by access, and any number of
  them at the same time.
\<close>

type_synonym ai = "ai_func \<times> nat"

subsection \<open>A functor that runs\<close>

text \<open>Where it stands: that of a read asks once, that of a write is the one of \<open>Poll_Threads\<close>.\<close>

datatype func_pc =
    Ask_read
  | Erase_read
  | Read_returned bool
  | In_write poll_pc

fun func_start :: "ai_func \<Rightarrow> func_pc" where
  "func_start (ReadAIFunc uid) = Ask_read"
| "func_start (WriteAIFunc og_uid backup_uid) = In_write Ask_og"

fun func_step :: "ai_func \<Rightarrow> func_pc \<Rightarrow> master \<Rightarrow> (func_pc \<times> master) result" where
  "func_step (ReadAIFunc uid) Ask_read ms =
     (let (found, ms) = look_up uid ms in Inr (if found then Erase_read else Read_returned False, ms))"
| "func_step (ReadAIFunc uid) Erase_read ms = Inr (Read_returned True, erase uid ms)"
| "func_step (WriteAIFunc og_uid backup_uid) (In_write pc) ms =
     bindE (thread_step og_uid backup_uid pc ms) (\<lambda>(pc, ms). Inr (In_write pc, ms))"
| "func_step _ _ ms = Inl Undefined"

fun func_result :: "func_pc \<Rightarrow> bool option" where
  "func_result (Read_returned r) = Some r"
| "func_result (In_write (Poll_returned r)) = Some r"
| "func_result _ = None"

text \<open>Several steps of one functor, with nothing in between; from its start to its result they are a call.\<close>

fun func_steps :: "ai_func \<Rightarrow> nat \<Rightarrow> func_pc \<Rightarrow> master \<Rightarrow> (func_pc \<times> master) result" where
  "func_steps f 0 pc ms = Inr (pc, ms)"
| "func_steps f (Suc n) pc ms = bindE (func_step f pc ms) (\<lambda>(pc, ms). func_steps f n pc ms)"

lemma func_steps_write:
  "func_steps (WriteAIFunc og bk) n (In_write pc) ms = bindE (steps og bk n pc ms) (\<lambda>(pc, ms). Inr (In_write pc, ms))"
proof (induction n arbitrary: pc ms)
  case (Suc n)
  then show ?case by (cases "thread_step og bk pc ms") auto
qed simp

lemma finish_steps: "finish og bk n pc ms = Inr (r, ms') \<Longrightarrow> \<exists>k. steps og bk k pc ms = Inr (Poll_returned r, ms')"
proof (induction n arbitrary: pc ms)
  case 0
  then show ?case by (cases pc) (auto intro: exI[of _ 0])
next
  case (Suc n)
  show ?case
  proof (cases "\<exists>r. pc = Poll_returned r")
    case True
    then show ?thesis using Suc.prems by (intro exI[of _ 0]) auto
  next
    case False
    then have "finish og bk (Suc n) pc ms = bindE (thread_step og bk pc ms) (\<lambda>(pc', ms'). finish og bk n pc' ms')"
      by (cases pc) (simp_all del: thread_step.simps)
    with Suc.prems obtain pc1 ms1 where s: "thread_step og bk pc ms = Inr (pc1, ms1)" "finish og bk n pc1 ms1 = Inr (r, ms')"
      by (auto simp: bindE_eq_Inr_iff)
    from Suc.IH[OF s(2)] obtain k where "steps og bk k pc1 ms1 = Inr (Poll_returned r, ms')" by blast
    with s show ?thesis by (intro exI[of _ "Suc k"]) simp
  qed
qed

lemma func_alone:
  assumes "ai_call f ms = Inr (r, ms')"
  shows "\<exists>n pc. func_steps f n (func_start f) ms = Inr (pc, ms') \<and> func_result pc = Some r"
proof (cases f)
  case (ReadAIFunc u)
  obtain found ms1 where l: "look_up u ms = (found, ms1)" by fastforce
  have "ask u ms = (r, ms')" using assms ReadAIFunc by (auto simp: ai_call_def ReadAIFunc_call_def ask_def split_beta Let_def)
  then have r: "found = r" "ms' = (if r then erase u ms1 else ms1)" using l by (auto simp: ask_look_up)
  show ?thesis
    using l r ReadAIFunc
    by (intro exI[of _ "if r then 2 else 1"] exI[of _ "Read_returned r"]) (simp add: eval_nat_numeral)
next
  case (WriteAIFunc og bk)
  with assms have "finish og bk 13 Ask_og ms = Inr (r, ms')" by (simp add: ai_call_def finish_is_call)
  from finish_steps[OF this] obtain n where "steps og bk n Ask_og ms = Inr (Poll_returned r, ms')" by blast
  then show ?thesis by (intro exI[of _ n] exI[of _ "In_write (Poll_returned r)"]) (simp add: WriteAIFunc func_steps_write)
qed

lemma Execute_alone:
  assumes "AITask_Execute (ai_call (fst t)) t now d ms s = Inr (ms', s')"
  shows "\<exists>n pc r. func_steps (fst t) n (func_start (fst t)) ms = Inr (pc, ms') \<and> func_result pc = Some r \<and>
    s' = AI_returned r t now d s"
  using assms func_alone by (fastforce simp: AITask_Execute_def AI_Perform_def bindE_eq_Inr_iff)

subsection \<open>State and events\<close>

text \<open>
  \<open>po_running\<close>: the tasks that a run of \<open>ThreadFunc\<close> has taken and, with the mutex released,
  executes, and where their functors stand.
\<close>

record polling =
  po_master :: master
  po_sched :: "ai scheduler"
  po_running :: "(ai \<times> func_pc) list"

datatype poll_event =
    Requested ai int
  | Scheduled "ai sched_event"
  | Polling ai
  | Performed ai bool int
  | Callback
  | Responded

subsection \<open>Steps\<close>

text \<open>A callback of the block device, in its own thread, sends its request or takes its answer.\<close>

definition callback_effect :: "host \<Rightarrow> master \<Rightarrow> master \<Rightarrow> bool" where
  "callback_effect h ms ms' \<longleftrightarrow>
     (\<exists>n off. NBDRead_request h n off ms = Inr ms') \<or> (\<exists>buf n off. NBDWrite_request h buf n off ms = Inr ms') \<or>
     (\<exists>buf n buf'. NBDRead_reply buf n ms = Inr (buf', ms')) \<or> (\<exists>n r. NBDWrite_reply h n ms = Inr (r, ms'))"

inductive poll_step :: "host \<Rightarrow> polling \<Rightarrow> poll_event \<Rightarrow> polling \<Rightarrow> bool" for h :: host where
  po_callback: "callback_effect h (po_master p) ms \<Longrightarrow> poll_step h p Callback (p\<lparr>po_master := ms\<rparr>)"
| po_request: "master_nbd_ready h (po_master p) = Inr (Some t, ms) \<Longrightarrow>
    poll_step h p (Requested t now) (p\<lparr>po_master := ms, po_sched := AI_ctor t now (int (snd t)) (po_sched p)\<rparr>)"
| po_sched: "sched_step (po_sched p) e s \<Longrightarrow> (\<forall>t now d. e \<noteq> Add t now d) \<Longrightarrow>
    poll_step h p (Scheduled e) (p\<lparr>po_sched := s,
      po_running := (case e of Fire (Some t) due \<Rightarrow> (t, func_start (fst t)) # po_running p | _ \<Rightarrow> po_running p)\<rparr>)"
| po_functor: "(t, pc) \<in> set (po_running p) \<Longrightarrow> func_step (fst t) pc (po_master p) = Inr (pc', ms) \<Longrightarrow>
    poll_step h p (Polling t) (p\<lparr>po_master := ms, po_running := (t, pc') # remove1 (t, pc) (po_running p)\<rparr>)"
| po_perform: "(t, pc) \<in> set (po_running p) \<Longrightarrow> func_result pc = Some r \<Longrightarrow>
    poll_step h p (Performed t r now) (p\<lparr>po_sched := AI_returned r t now (int (snd t)) (po_sched p),
      po_running := remove1 (t, pc) (po_running p)\<rparr>)"
| po_response: "master_udp_ready h ((po_master p)\<lparr>ms_udp_rx := [d]\<rparr>) = Inr ms \<Longrightarrow>
    poll_step h p Responded (p\<lparr>po_master := ms\<rparr>)"

inductive poll_run :: "host \<Rightarrow> poll_event list \<Rightarrow> polling \<Rightarrow> bool" for h :: host where
  po_start: "Scheduler_ctor True = Inr s \<Longrightarrow>
    poll_run h [] \<lparr>po_master = master_init, po_sched = s, po_running = []\<rparr>"
| po_next: "poll_run h es p \<Longrightarrow> poll_step h p e p' \<Longrightarrow> poll_run h (es @ [e]) p'"

subsection \<open>The scheduler's share of a run\<close>

fun sched_events :: "poll_event list \<Rightarrow> ai sched_event list" where
  "sched_events [] = []"
| "sched_events (Requested t now # es) = Add t now (int (snd t)) # sched_events es"
| "sched_events (Scheduled e # es) = e # sched_events es"
| "sched_events (Performed t r now # es) =
     (if r then sched_events es else Add t now (int (snd t)) # sched_events es)"
| "sched_events (_ # es) = sched_events es"

lemma sched_events_append [simp]: "sched_events (es @ es') = sched_events es @ sched_events es'"
  by (induction es rule: sched_events.induct) simp_all

lemma poll_step_sched:
  assumes "poll_step h p e p'"
  shows "sched_run s0 es (po_sched p) \<Longrightarrow> sched_run s0 (es @ sched_events [e]) (po_sched p')"
  using assms
proof cases
  case (po_request t ms now)
  then show "sched_run s0 es (po_sched p) \<Longrightarrow> ?thesis"
    by (auto simp: AI_ctor_def intro: run_snoc step_add)
next
  case (po_sched e s)
  then show "sched_run s0 es (po_sched p) \<Longrightarrow> ?thesis" by (auto intro: run_snoc)
next
  case (po_perform t pc r now)
  then show "sched_run s0 es (po_sched p) \<Longrightarrow> ?thesis"
    by (auto simp: AI_returned_def intro: run_snoc step_add)
qed auto

lemma poll_run_sched:
  "poll_run h es p \<Longrightarrow> \<exists>s0. Scheduler_ctor True = Inr s0 \<and> sched_run s0 (sched_events es) (po_sched p)"
proof (induction rule: poll_run.induct)
  case (po_start s)
  then show ?case by (auto intro: run_nil)
next
  case (po_next es p e p')
  then show ?case using poll_step_sched[OF po_next.hyps(2)] by auto
qed

subsection \<open>Every poll until its outcome\<close>

fun created :: "poll_event list \<Rightarrow> ai multiset" where
  "created [] = {#}"
| "created (Requested t now # es) = add_mset t (created es)"
| "created (_ # es) = created es"

fun reported :: "poll_event list \<Rightarrow> ai multiset" where
  "reported [] = {#}"
| "reported (Performed t r now # es) = (if r then add_mset t (reported es) else reported es)"
| "reported (_ # es) = reported es"

definition running :: "polling \<Rightarrow> ai multiset" where
  "running p = image_mset fst (mset (po_running p))"

definition scheduled :: "polling \<Rightarrow> ai multiset" where
  "scheduled p = image_mset (\<lambda>x. the (fst x)) (waiting (po_sched p))"

lemma created_append: "created (es @ es') = created es + created es'"
  by (induction es rule: created.induct) simp_all

lemma reported_append: "reported (es @ es') = reported es + reported es'"
  by (induction es rule: reported.induct) simp_all

lemma waiting_AddTask: "sched_inv s \<Longrightarrow> waiting (AddTask t now d s) = add_mset (Some t, due_time now d) (waiting s)"
  using waiting_step[OF step_add, of s t now d] by simp

lemma running_remove:
  "(t, pc) \<in> set xs \<Longrightarrow> image_mset fst (mset xs) = add_mset t (image_mset fst (mset (remove1 (t, pc) xs)))"
  by (induction xs) auto

lemma polls_conserved_step:
  assumes "poll_step h p e p'" and "sched_inv (po_sched p)"
  shows "scheduled p' + running p' + reported [e] = scheduled p + running p + created [e]"
  using assms(1)
proof cases
  case (po_request t ms now)
  then show ?thesis using waiting_AddTask[OF assms(2)] by (simp add: scheduled_def running_def AI_ctor_def)
next
  case (po_sched e' s)
  from waiting_step[OF po_sched(3) assms(2)] have w: "waiting s + mset (fired [e']) = waiting (po_sched p) + added [e']" .
  show ?thesis
  proof (cases e')
    case (Fire t due)
    show ?thesis
    proof (cases t)
      case None
      with w po_sched Fire show ?thesis by (simp add: scheduled_def running_def)
    next
      case (Some a)
      with w Fire have "waiting (po_sched p) = add_mset (Some a, due) (waiting s)" by simp
      with po_sched Fire Some show ?thesis by (simp add: scheduled_def running_def)
    qed
  qed (use w po_sched in \<open>auto simp: scheduled_def running_def\<close>)
next
  case (po_functor t pc pc' ms)
  from running_remove[OF po_functor(3)] po_functor(1,2) show ?thesis by (simp add: scheduled_def running_def)
next
  case (po_perform t pc r now)
  from running_remove[OF po_perform(3)] po_perform(1,2) show ?thesis
    using waiting_AddTask[OF assms(2)] by (auto simp: scheduled_def running_def AI_returned_def)
qed (simp_all add: scheduled_def running_def)

lemma poll_run_inv: "poll_run h es p \<Longrightarrow> sched_inv (po_sched p)"
  using poll_run_sched sched_inv_run sched_inv_ctor by blast

lemma polls_conserved: "poll_run h es p \<Longrightarrow> scheduled p + running p + reported es = created es"
proof (induction rule: poll_run.induct)
  case (po_start s)
  then show ?case by (auto simp: scheduled_def running_def waiting_def Scheduler_ctor_def)
next
  case (po_next es p e p')
  have "scheduled p' + running p' + reported [e] = scheduled p + running p + created [e]"
    by (rule polls_conserved_step[OF po_next.hyps(2) poll_run_inv[OF po_next.hyps(1)]])
  with po_next.IH show ?case
    by (simp add: created_append reported_append) (metis (no_types) union_assoc union_commute)
qed

subsection \<open>A concrete run\<close>

text \<open>A functor that runs with nothing in between, as a part of a run.\<close>

lemma func_run:
  "poll_run h es p \<Longrightarrow> po_running p = [(t, pc)] \<Longrightarrow> func_steps (fst t) n pc (po_master p) = Inr (pc', ms) \<Longrightarrow>
   poll_run h (es @ replicate n (Polling t)) (p\<lparr>po_master := ms, po_running := [(t, pc')]\<rparr>)"
proof (induction n arbitrary: es p pc)
  case 0
  then have "p\<lparr>po_master := ms, po_running := [(t, pc')]\<rparr> = p" by (cases p) simp
  with 0(1) show ?case by (simp only: replicate_0 append_Nil2)
next
  case (Suc n)
  from Suc.prems(3) obtain pc1 ms1 where s: "func_step (fst t) pc (po_master p) = Inr (pc1, ms1)"
    "func_steps (fst t) n pc1 ms1 = Inr (pc', ms)" by (auto simp: bindE_eq_Inr_iff)
  have "poll_step h p (Polling t) (p\<lparr>po_master := ms1, po_running := [(t, pc1)]\<rparr>)"
    using po_functor[of t pc p pc1 ms1 h] s(1) Suc.prems(2) by simp
  from Suc.IH[OF po_next[OF Suc.prems(1) this]] s(2) show ?case by simp
qed

lemma polling_events: "created (replicate n (Polling t)) = {#}" "reported (replicate n (Polling t)) = {#}"
  by (induction n) simp_all

text \<open>A write is requested, and its first poll, after half a second, finds no answer.\<close>

lemma demo_polls:
  obtains t n p where "fst t = WriteAIFunc (uid_of demo_host 3) (uid_of demo_host 4)"
    and "poll_run demo_host ([Callback, Requested t 0, Scheduled Arm, Scheduled (Expire (Timespec 1 0)),
      Scheduled (Fire (Some t) (Timespec 0 500000000))] @ replicate n (Polling t) @ [Performed t False 1000]) p"
proof -
  let ?t = "(WriteAIFunc (uid_of demo_host 3) (uid_of demo_host 4), 500 :: nat)" and ?due = "Timespec 0 500000000"
  let ?st = "\<lambda>c q a e m. \<lparr>sc_current = c, sc_wq = q, sc_armed = a, sc_expired = e, sc_arming = m\<rparr> :: ai scheduler"
  let ?s0 = "?st (None, Timespec 0 0) [] None 0 0"
  let ?po = "\<lambda>ms s r. \<lparr>po_master = ms, po_sched = s, po_running = r\<rparr>"
  note d = sched_op_defs item_before_def due_time_def
  have init: "ms_nbd_rx master_init = []" "ms_counter master_init = 1" "ms_watch master_init = Map.empty"
    "ms_og_counter master_init = 0" "ms_backup_counter master_init = 0"
    by (simp_all add: master_init_def m_static_counter_init_def)
  have "hosts_ok demo_host (\<lambda>_. demo_host) (unat (2 :: u32))" by (simp add: hosts_ok_def)
  moreover have "unat (0 :: u64) < raid_capacity" "length [1, 2] = unat (2 :: u32)" "unat (2 :: u32) < 2 ^ 31 - 41"
    by (simp_all add: raid_capacity_val)
  ultimately obtain ms1 where w1: "NBDWrite_request demo_host [1, 2] 2 0 master_init = Inr ms1"
    and w2: "master_nbd_ready demo_host ms1 =
      (let c = ms_counter master_init + 2
       in Inr (Some (WriteAIFunc (uid_of demo_host c) (uid_of demo_host (c + 1)), 500),
         master_init\<lparr>ms_counter := c + 2,
            ms_watch := (ms_watch master_init)(c \<mapsto> PROCESSING_REQUEST, c + 1 \<mapsto> PROCESSING_REQUEST),
            ms_udp_tx := ms_udp_tx master_init @ write_datagrams demo_host c 0 2 [1, 2]\<rparr>))"
    using write_event[OF init(1)] by metis
  have w: "master_nbd_ready demo_host ms1 = Inr (Some ?t, master_init\<lparr>ms_counter := 5,
       ms_watch := [3 \<mapsto> PROCESSING_REQUEST, 4 \<mapsto> PROCESSING_REQUEST],
       ms_udp_tx := ms_udp_tx master_init @ write_datagrams demo_host 3 0 2 [1, 2]\<rparr>)"
    unfolding w2 by (simp add: init(2,3) Let_def)
  define ms2 where "ms2 = master_init\<lparr>ms_counter := 5,
       ms_watch := [3 \<mapsto> PROCESSING_REQUEST, 4 \<mapsto> PROCESSING_REQUEST],
       ms_udp_tx := ms_udp_tx master_init @ write_datagrams demo_host 3 0 2 [1, 2]\<rparr>"
  have r0: "poll_run demo_host [] (?po master_init ?s0 [])" by (rule po_start) (simp add: Scheduler_ctor_def)
  have "callback_effect demo_host master_init ms1" unfolding callback_effect_def using w1 by blast
  then have s1: "poll_step demo_host (?po master_init ?s0 []) Callback (?po ms1 ?s0 [])"
    using po_callback[of demo_host "?po master_init ?s0 []" ms1] by simp
  have s2: "poll_step demo_host (?po ms1 ?s0 []) (Requested ?t 0) (?po ms2 (?st (Some ?t, ?due) [] None 0 1) [])"
    using po_request[of demo_host "?po ms1 ?s0 []" ?t ms2 0] w by (simp add: ms2_def AI_ctor_def d)
  have "sched_step (?st (Some ?t, ?due) [] None 0 1) Arm (?st (Some ?t, ?due) [] (Some ?due) 0 0)"
    using step_arm[of "?st (Some ?t, ?due) [] None 0 1"] by (simp add: d)
  then have s3: "poll_step demo_host (?po ms2 (?st (Some ?t, ?due) [] None 0 1) []) (Scheduled Arm)
      (?po ms2 (?st (Some ?t, ?due) [] (Some ?due) 0 0) [])"
    using po_sched[of "?po ms2 (?st (Some ?t, ?due) [] None 0 1) []" Arm] by simp
  have "sched_step (?st (Some ?t, ?due) [] (Some ?due) 0 0) (Expire (Timespec 1 0)) (?st (Some ?t, ?due) [] None 1 0)"
    using step_expire[of "?st (Some ?t, ?due) [] (Some ?due) 0 0" ?due "Timespec 1 0"] by (simp add: less_eq_timespec_def)
  then have s4: "poll_step demo_host (?po ms2 (?st (Some ?t, ?due) [] (Some ?due) 0 0) []) (Scheduled (Expire (Timespec 1 0)))
      (?po ms2 (?st (Some ?t, ?due) [] None 1 0) [])"
    using po_sched[of "?po ms2 (?st (Some ?t, ?due) [] (Some ?due) 0 0) []" "Expire (Timespec 1 0)"] by simp
  have "sched_step (?st (Some ?t, ?due) [] None 1 0) (Fire (Some ?t) ?due) (?st (None, ?due) [] None 0 0)"
    using step_fire[of "?st (Some ?t, ?due) [] None 1 0"] by (simp add: d)
  then have s5: "poll_step demo_host (?po ms2 (?st (Some ?t, ?due) [] None 1 0) []) (Scheduled (Fire (Some ?t) ?due))
      (?po ms2 (?st (None, ?due) [] None 0 0) [(?t, In_write Ask_og)])"
    using po_sched[of "?po ms2 (?st (Some ?t, ?due) [] None 1 0) []" "Fire (Some ?t) ?due"] by simp
  obtain ms3 where p: "ai_call (fst ?t) ms2 = Inr (False, ms3)"
    by (simp add: ai_call_def WriteAIFunc_call_spec write_poll_spec_def Let_def ms2_def init answered_def)
  from func_alone[OF p] obtain n pc where f: "func_steps (fst ?t) n (In_write Ask_og) ms2 = Inr (pc, ms3)" "func_result pc = Some False"
    by auto
  from func_run[OF po_next[OF po_next[OF po_next[OF po_next[OF po_next[OF r0 s1] s2] s3] s4] s5] _, of ?t "In_write Ask_og" n pc ms3] f(1)
  have r6: "poll_run demo_host ([Callback, Requested ?t 0, Scheduled Arm, Scheduled (Expire (Timespec 1 0)),
      Scheduled (Fire (Some ?t) ?due)] @ replicate n (Polling ?t)) (?po ms3 (?st (None, ?due) [] None 0 0) [(?t, pc)])" by simp
  have "poll_step demo_host (?po ms3 (?st (None, ?due) [] None 0 0) [(?t, pc)]) (Performed ?t False 1000)
      (?po ms3 (AddTask ?t 1000 500 (?st (None, ?due) [] None 0 0)) [])"
    using po_perform[of ?t pc "?po ms3 (?st (None, ?due) [] None 0 0) [(?t, pc)]" False demo_host 1000] f(2)
    by (simp add: AI_returned_def)
  from that[of ?t n] po_next[OF r6 this] show thesis by simp
qed

subsection \<open>Properties\<close>

text \<open>
  C19: no poll is lost or run twice, in any interleaving of requests, responses, timer expiries
  and the accesses of any number of polls at once: the polls that commands asked for are exactly
  those in the scheduler, those a thread is running and those that have reported an outcome; and
  while one is in the scheduler a wake-up for the earliest is under way.
\<close>

theorem polls_run_until_outcome:
  assumes "poll_run h es p"
  shows "scheduled p + running p + reported es = created es \<and>
    (scheduled p = {#} \<or> sc_armed (po_sched p) \<noteq> None \<or> 0 < sc_expired (po_sched p) \<or> 0 < sc_arming (po_sched p))"
proof -
  have "sched_inv (po_sched p)" by (rule poll_run_inv[OF assms])
  then have "waiting (po_sched p) = {#} \<or> sc_armed (po_sched p) \<noteq> None \<or> 0 < sc_expired (po_sched p) \<or> 0 < sc_arming (po_sched p)"
    by (simp add: sched_inv_def waiting_def del: not_None_eq)
  with polls_conserved[OF assms] show ?thesis by (auto simp: scheduled_def)
qed

theorem polls_run_until_outcome_witness:
  "\<exists>es t p. poll_run demo_host es p \<and> created es = {#t#} \<and> reported es = {#} \<and> scheduled p + running p = {#t#}"
proof -
  obtain t n p where t: "fst t = WriteAIFunc (uid_of demo_host 3) (uid_of demo_host 4)"
    and r: "poll_run demo_host ([Callback, Requested t 0, Scheduled Arm, Scheduled (Expire (Timespec 1 0)),
      Scheduled (Fire (Some t) (Timespec 0 500000000))] @ replicate n (Polling t) @ [Performed t False 1000]) p"
      (is "poll_run _ ?es _") by (rule demo_polls)
  have e: "created ?es = {#t#}" "reported ?es = {#}" by (simp_all add: created_append reported_append polling_events)
  from polls_run_until_outcome[OF r] e r show ?thesis by (metis add_0_right)
qed

end
