(* ===== verification/Spec2Isabelle.thy ===== *)
theory Spec2Isabelle
  imports Startup Process Queue_Monitor Singleton Pool_Tasks Data_Base Network_Correct Polling Poll_Threads
begin

text \<open>
  \<^bold>\<open>iot-drive: a block device stored on three minions\<close>

  \<^bold>\<open>The program.\<close> A \<^emph>\<open>master\<close> process offers the kernel a 12 MB network block
  device. The kernel's requests arrive at \<open>serve_nbd\<close> (\<open>src/buse.cpp\<close>), which calls the
  operations of the class \<open>NBD\<close> (\<open>src/raz_nbd.cpp\<close>). These send a message over a TCP
  connection to the same process, where the reactor (\<open>src/reactor.cpp\<close>) hands it to
  \<open>NBDProxy\<close> (\<open>src/inputproxy.cpp\<close>); the thread pool (\<open>src/threadpool.cpp\<close>)
  runs the command it stands for (\<open>src/command.cpp\<close>). A write command asks \<open>Raid01\<close>
  (\<open>src/raid01.cpp\<close>) for two places, sends a request with a fresh identifier to both minions, and starts
  a poll that the scheduler (\<open>src/scheduler.cpp\<close>, \<open>src/ai.cpp\<close>) repeats until the response
  manager (\<open>src/response_manger.cpp\<close>) has seen both answers. A \<^emph>\<open>minion\<close> process
  receives requests as datagrams (\<open>MasterProxy\<close>), keeps its 8 MB half primary, half backup in a file and
  answers. At the start \<open>NBDProxy\<close> listens, \<open>NBD::Run\<close> connects to it and enters
  \<open>buse_main\<close>, which forks a child that gives the kernel its end of the socket, and a further thread
  makes and mounts the file system. The framework (\<open>src/framework.cpp\<close>) also watches a directory for
  plugins (\<open>src/dirmonitor.cpp\<close>). Loggers, dispatchers, singletons and factories serve both processes.

  \<^bold>\<open>Theories.\<close>
  \<^item> \<open>Prelude\<close>: machine types, the errors an operation can end with, byte order, buffers.
    \<open>Wire_Codec\<close>: the contract of a serialisable message, a locale.
  \<^item> \<open>Error_Handler\<close>, \<open>Uid\<close>, \<open>Message\<close>, \<open>Message_Codec\<close>: \<open>CheckAndLog\<close>, \<open>ThreadSafeUID\<close> and the six
    message classes of \<open>src/message.cpp\<close>; every class is an interpretation of the contract, which gives
    the round trips, the exact buffer sizes, and, with the checksum, the detection of errors.
  \<^item> \<open>Factory\<close>, \<open>Args_Key\<close>, \<open>Command_Types\<close>, \<open>Response_Manager\<close>: the registry contract and its two
    interpretations, arguments, commands and \<open>TPTask::Run\<close>, the watch list.
  \<^item> \<open>Raid01\<close>: \<open>OffsetToProxy\<close> on 64-bit words, against a mirrored placement stated as a locale.
  \<^item> \<open>Sockets\<close>: sending and receiving of datagrams and streams. \<open>Syscalls\<close>: programs of system calls over a
    trace, for any kernel. \<open>Socket_Setup\<close>: the constructor of \<open>ASocket\<close>, listening, connecting, accepting.
  \<^item> \<open>Minion_Store\<close>, \<open>Minion\<close>, \<open>Minion_Correct\<close>: the file stream with its state bits, the minion's
    proxy and commands, and what they do with every datagram.
  \<^item> \<open>Master\<close>, \<open>Master_Correct\<close>: the proxies, commands and polls of the master; the outcome of a write
    in terms of when its answers arrive.
  \<^item> \<open>System\<close>, \<open>Device\<close>: master and minions with the network between them, and the refinement of an
    abstract block device by whole requests.
  \<^item> \<open>Network\<close>, \<open>Network_Linear\<close>, \<open>Network_Correct\<close>: the same handlers over a network that may lose,
    duplicate, delay and reorder every datagram, with minions that restart. Every transition runs one
    handler on one input, in any order; a run is the list of its events. \<open>Network\<close> holds the invariant of
    all runs and where bytes come from, \<open>Network_Linear\<close> the phases of a request in an orderly run.
  \<^item> \<open>Buse\<close>, \<open>Nbd_Server\<close>, \<open>Raz_Nbd\<close>: the NBD protocol, \<open>serve_nbd\<close> over any operations that meet a
    contract (a locale), its interpretation on the operations of \<open>NBD\<close>, and the parsing of the size.
    \<open>Buse_Main\<close>: \<open>buse_main\<close> in parent and child, the signal handler. \<open>Startup\<close>: the sockets of the
    proxies, \<open>NBD::Run\<close> as a whole, making and mounting the file system.
  \<^item> \<open>Waitable_Queue\<close>, \<open>Scheduler\<close>, \<open>Thread_Pool\<close>: the queue behind a mutex with a FIFO and a priority
    container (locales), and the two components built on it as step relations over all interleavings.
    \<open>Queue_Monitor\<close>: the queue step by step, with its mutex and condition variable, for any container;
    it justifies the atomic operations the others use. \<open>Pool_Tasks\<close>: the tasks the pool offers.
    \<open>Poll_Threads\<close>: the functor of a write at the grain of single accesses to the watch list and the
    static counters it shares with other threads. \<open>Polling\<close>: the polls of the master as tasks of the
    scheduler, among all the other threads, with functors that run access by access and at the same
    time; a projection to the runs of \<open>Scheduler\<close> carries its invariants over.
  \<^item> \<open>Reactor\<close>, \<open>Framework\<close>, \<open>Process\<close>: the event loop, \<open>FDListen\<close>, \<open>InputMediator\<close>, the constructor of the
    framework, and the loops of a minion and of the master; a round of the master is the event of \<open>System\<close>.
  \<^item> \<open>Singleton\<close>, \<open>Logger\<close>, \<open>Dispatcher\<close>, \<open>Dir_Monitor\<close>, \<open>Data_Base\<close>: double-checked locking, the logging
    thread, the lifetimes of dispatchers and callbacks, the plugin directory, the data base.

  \<^bold>\<open>How the model is built.\<close> Objects are records, operations are functions on them that return the
  new state or an error: an exception, a blocking call, a failed assertion, or undefined behaviour, which includes
  every access outside a buffer. Integers have their width. What the operating system decides is a parameter: the
  clock, the process id, indeterminate memory and the results of \<open>send\<close> are the record
  \<open>host\<close>, the results of \<open>select\<close>, \<open>read\<close> and \<open>write\<close> are
  arguments, and theorems that rely on them say so as named hypotheses (\<open>hosts_ok\<close>,
  \<open>select_meets\<close>, \<open>whole_headers\<close>, \<open>obliging\<close>, \<open>k_ok\<close>). In the
  theories on \<open>Syscalls\<close> the kernel is a function of everything called before. Threads interleave at
  critical sections, waits and notifications; in \<open>Singleton\<close>, \<open>Poll_Threads\<close> and for the
  functors of \<open>Polling\<close> at single memory accesses, sequentially consistent. In \<open>Thread_Pool\<close>
  the calls of \<open>Pause\<close>, \<open>SetNumThreads\<close> and the destructor push their items one by one while
  the workers run; they use \<open>m_thread_num\<close> without a lock, so they are called one after the other,
  \<open>AddTask\<close> and \<open>Resume\<close> at any time. A message on a TCP connection is taken to have arrived
  whole when its reader looks (\<open>Sockets\<close>).

  \<^bold>\<open>What is shown.\<close> From the kernel's side of the socket the program is a zeroed 12 MB block
  device, for requests inside a 4 MB stripe of 8 bytes up to what a datagram carries, and after every such run each
  byte is on two different minions. The same holds in the asynchronous system as long as no datagram arrives twice, no
  minion restarts and no write is given up; without these conditions \<open>Success\<close> still means that both
  minions have handled the write, every stored byte still has its origin in a write to its place, and no handler
  fails, but one duplicated answer makes a read return the bytes of another place. Under it: placement is total,
  injective and mirrored; messages round-trip and single corrupted bytes are detected; no datagram with a whole header
  and a size below \<open>2 ^ 32 - 41\<close> makes a minion leave its buffers, a shorter one can; identifiers are
  distinct and a response is reported once; polls are repeated until they have an outcome, those of writes a bounded
  number of times as long as they do not overlap; a poll among the accesses of other threads ends as an atomic one
  does, with some responses to it arriving later; the scheduler loses neither tasks nor wake-ups; the queue is
  linearizable and leaves no item behind; the pool is well formed at every moment, takes no task from the last push of
  \<open>Pause\<close> on, and ends; the singleton is one and every call returns; the processes find each other; the
  kernel driver is started with its socket; plugins are loaded and the monitor ends. Other theorems state where the
  program does less than it means to: writes whose answers are split over two polls, responses that block the queue,
  writes over a stripe's end that destroy a backup, answers that arrive during a poll and are split, two polls that
  jump over the limit together, data wiped at a restart, a stream that fails for good, a task executed early, a paused
  pool that cannot be destroyed, a lost \<open>Resume\<close>, a minion that one corrupted datagram ends, sockets
  never closed.

  \<^bold>\<open>Loops and bounds.\<close> Most loops of the program are total functions or step relations. Three have
  fuel: \<open>Reactor_Run\<close> counts rounds and tells a loop that still runs (\<open>None\<close>) from one that
  has returned or thrown; \<open>busy_loop\<close> polls for the device file, and \<open>mounted_when_ready\<close>
  shows that one round more than the polls it takes is enough; \<open>Monitor_loop\<close> walks through the event
  buffer with the size of the buffer as fuel, which \<open>framework_loads_plugins\<close> shows to suffice. The
  rounds of \<open>System\<close> deliver every datagram in order and once, \<open>Network\<close> makes no such
  assumption. Identifiers are compared by a 32-bit counter, so theorems that tell requests apart bound the length of
  the run.

  \<^bold>\<open>Not modelled.\<close> Console output except where it matters, the memory model below sequential
  consistency, the release build (without the log lines of \<open>CheckAndLog\<close>) and the commented-out code. The
  pool's tasks are opaque to the pool; an exception that leaves a task ends the process, so runs of
  \<open>Network\<close> and \<open>Polling\<close> contain only handlers that return. In both a handler is one step,
  in \<open>Polling\<close> all but the functors. The watch list and the counters have no lock, so overlapping
  accesses are a data race, which C++ leaves undefined; \<open>Poll_Threads\<close> takes each access for atomic and
  so shows what remains wrong with accesses that are. It covers the polls of writes; that the pool runs two commands
  of the master at once is not modelled. Device requests in them are inside a stripe and one at a time, as
  \<open>serve_nbd\<close> issues them.
\<close>

end
